(* ===== verification/Prelude.thy ===== *)
theory Prelude
  imports Main "HOL-Library.Word" "HOL-Library.AList" "HOL-Library.Multiset"
begin

text \<open>
  Shared ground of the development: the machine integers and byte strings of the Rust code,
  \<open>Result\<close> and \<open>Poll\<close>, the standard library's decimal formatting and UTF-8 check, the finite map
  behind \<open>std::collections::HashMap\<close>, and the generic rule that lifts an invariant of a step
  relation to every reachable state. The collection \<open>model_defs\<close> gathers the definitions a
  functional proof about one operation unfolds.
\<close>

unbundle bit_operations_syntax

named_theorems model_defs

section \<open>Machine integers, bytes and strings\<close>

type_synonym byte = "8 word"
type_synonym bytes = "8 word list"
type_synonym i8 = "8 word"
type_synonym i16 = "16 word"
type_synonym i32 = "32 word"
type_synonym i64 = "64 word"

text \<open>
  A Rust \<open>String\<close> is a sequence of bytes that is valid UTF-8; it is modelled by the HOL strings,
  whose characters are the 256 byte values. The two functions below move between the two views.
\<close>

definition bytes_of_str :: "string \<Rightarrow> bytes" where
  "bytes_of_str s = map of_char s"

definition str_of_bytes :: "bytes \<Rightarrow> string" where
  "str_of_bytes bs = map (\<lambda>b. char_of (unat b)) bs"

lemma char_of_unat_of_char [simp]: "char_of (unat (of_char c :: byte)) = c"
proof -
  have lt: "(of_char c :: nat) < 256"
    using of_char_mod_256 [of c] by (metis mod_less_divisor zero_less_numeral)
  have "(of_char c :: byte) = of_nat (of_char c)" by (simp add: of_nat_of_char)
  then have "unat (of_char c :: byte) = of_char c"
    using lt by (simp only: unat_of_nat) (simp add: take_bit_eq_mod)
  then show ?thesis by simp
qed

lemma of_char_char_of_unat [simp]: "(of_char (char_of (unat b)) :: byte) = b"
proof -
  have "unat b < 256" using unsigned_less [of b, where ?'a = nat] by simp
  have "(of_char (char_of (unat b)) :: byte) = of_nat (of_char (char_of (unat b)))"
    by (simp only: of_nat_of_char)
  also have "\<dots> = of_nat (unat b)" using \<open>unat b < 256\<close> by simp
  finally show ?thesis by simp
qed

lemma str_of_bytes_of_str [simp]: "str_of_bytes (bytes_of_str s) = s"
  by (simp add: str_of_bytes_def bytes_of_str_def comp_def)

lemma bytes_of_str_of_bytes [simp]: "bytes_of_str (str_of_bytes bs) = bs"
  by (simp add: str_of_bytes_def bytes_of_str_def comp_def)

text \<open>The check behind \<open>str::from_utf8\<close>: the well-formed UTF-8 byte sequences.\<close>

definition utf8_cont :: "byte \<Rightarrow> bool" where
  "utf8_cont b \<longleftrightarrow> 0x80 \<le> b \<and> b \<le> 0xBF"

fun utf8_valid :: "bytes \<Rightarrow> bool" where
  "utf8_valid [] = True"
| "utf8_valid (a # bs) =
     (if a \<le> 0x7F then utf8_valid bs
      else if 0xC2 \<le> a \<and> a \<le> 0xDF then
        (case bs of b # r \<Rightarrow> utf8_cont b \<and> utf8_valid r | _ \<Rightarrow> False)
      else if 0xE0 \<le> a \<and> a \<le> 0xEF then
        (case bs of b # c # r \<Rightarrow>
             (if a = 0xE0 then 0xA0 \<le> b \<and> b \<le> 0xBF
              else if a = 0xED then 0x80 \<le> b \<and> b \<le> 0x9F
              else utf8_cont b) \<and> utf8_cont c \<and> utf8_valid r
         | _ \<Rightarrow> False)
      else if 0xF0 \<le> a \<and> a \<le> 0xF4 then
        (case bs of b # c # d # r \<Rightarrow>
             (if a = 0xF0 then 0x90 \<le> b \<and> b \<le> 0xBF
              else if a = 0xF4 then 0x80 \<le> b \<and> b \<le> 0x8F
              else utf8_cont b) \<and> utf8_cont c \<and> utf8_cont d \<and> utf8_valid r
         | _ \<Rightarrow> False)
      else False)"

lemma utf8_valid_ascii: "\<forall>b \<in> set bs. b \<le> 0x7F \<Longrightarrow> utf8_valid bs"
  by (induction bs) auto

text \<open>Decimal formatting of integers (\<open>Display\<close> of the integer types).\<close>

definition digit_char :: "nat \<Rightarrow> char" where
  "digit_char d = char_of (48 + d)"

fun show_nat :: "nat \<Rightarrow> string" where
  "show_nat n = (if n < 10 then [digit_char n] else show_nat (n div 10) @ [digit_char (n mod 10)])"

declare show_nat.simps [simp del]

definition show_int :: "int \<Rightarrow> string" where
  "show_int i = (if i < 0 then ''-'' @ show_nat (nat (- i)) else show_nat (nat i))"

lemma show_nat_neq_Nil [simp]: "show_nat n \<noteq> []"
  by (subst show_nat.simps) simp

lemma digit_char_inject: "a < 10 \<Longrightarrow> b < 10 \<Longrightarrow> digit_char a = digit_char b \<longleftrightarrow> a = b"
proof -
  assume "a < 10" "b < 10"
  then have "of_char (digit_char a) = 48 + a" "of_char (digit_char b) = 48 + b"
    by (simp_all add: digit_char_def)
  then show ?thesis by (metis add_left_cancel)
qed

lemma show_nat_inject: "show_nat a = show_nat b \<longleftrightarrow> a = b"
proof (induction a arbitrary: b rule: show_nat.induct)
  case (1 a)
  have len: "length (show_nat n) = 1 \<longleftrightarrow> n < 10" for n
    by (subst show_nat.simps) simp
  show ?case
  proof (cases "a < 10")
    case True
    then show ?thesis
      using len [of a] len [of b] digit_char_inject [of a b]
      by (metis (no_types, lifting) list.inject show_nat.simps)
  next
    case False
    note IH = "1.IH" [OF False]
    show ?thesis
    proof (cases "b < 10")
      case True
      then show ?thesis using False len [of a] len [of b] by metis
    next
      case b: False
      have "show_nat a = show_nat b \<longleftrightarrow>
          show_nat (a div 10) = show_nat (b div 10) \<and> digit_char (a mod 10) = digit_char (b mod 10)"
        using False b show_nat.simps [of a] show_nat.simps [of b] by simp
      also have "\<dots> \<longleftrightarrow> a div 10 = b div 10 \<and> a mod 10 = b mod 10"
        using IH [of "b div 10"] digit_char_inject [of "a mod 10" "b mod 10"] by simp
      also have "\<dots> \<longleftrightarrow> a = b" by (metis div_mult_mod_eq)
      finally show ?thesis .
    qed
  qed
qed

lemma show_nat_no_minus: "show_nat n \<noteq> CHR ''-'' # cs"
proof (induction n arbitrary: cs rule: show_nat.induct)
  case (1 n)
  have "digit_char d \<noteq> CHR ''-''" if "d < 10" for d
  proof
    assume "digit_char d = CHR ''-''"
    then have "of_char (digit_char d) = (45 :: nat)" by simp
    then show False using that by (simp add: digit_char_def)
  qed
  then show ?case
    using 1 [of "tl cs"] 1 by (subst show_nat.simps) (auto simp: append_eq_Cons_conv)
qed

lemma show_int_inject: "show_int a = show_int b \<longleftrightarrow> a = b"
  by (auto simp: show_int_def show_nat_inject show_nat_no_minus show_nat_no_minus [symmetric])

section \<open>Polls and results\<close>

text \<open>
  \<open>Result\<close> is the sum type (\<open>Inl\<close> the error, \<open>Inr\<close> the value). An asynchronous operation that may
  still be waiting returns a \<open>poll\<close>.
\<close>

text \<open>A function on an enumerated type is injective when its values on the enumeration are distinct.\<close>

lemma inj_enumI: "distinct (map f enum_class.enum) \<Longrightarrow> inj f"
  by (simp add: distinct_map enum_UNIV)

datatype 'a poll = Pending | Ready 'a

definition map_err :: "('e \<Rightarrow> 'f) \<Rightarrow> 'e + 'a \<Rightarrow> 'f + 'a" where
  "map_err f r = (case r of Inl e \<Rightarrow> Inl (f e) | Inr a \<Rightarrow> Inr a)"

lemma map_err_simps [simp]: "map_err f (Inl e) = Inl (f e)" "map_err f (Inr a) = Inr a"
  by (simp_all add: map_err_def)

lemma map_err_Inr_iff [simp]: "map_err f r = Inr a \<longleftrightarrow> r = Inr a"
  by (cases r) simp_all

text \<open>The \<open>?\<close> operator: go on with the value, or return the error.\<close>

definition and_then :: "'e + 'a \<Rightarrow> ('a \<Rightarrow> 'e + 'b) \<Rightarrow> 'e + 'b" where
  "and_then r f = (case r of Inl e \<Rightarrow> Inl e | Inr a \<Rightarrow> f a)"

lemma and_then_simps [simp]: "and_then (Inl e) f = Inl e" "and_then (Inr a) f = f a"
  by (simp_all add: and_then_def)

lemma and_then_Inr_iff: "and_then r f = Inr b \<longleftrightarrow> (\<exists>a. r = Inr a \<and> f a = Inr b)"
  by (cases r) simp_all

section \<open>Hash maps\<close>

text \<open>
  \<open>std::collections::HashMap\<close>: an association list with distinct keys, whose order stands for the
  unspecified iteration order. \<open>hm_insert\<close> overwrites, \<open>hm_remove\<close> drops the key.
\<close>

type_synonym ('k, 'v) hashmap = "('k \<times> 'v) list"

definition hm_get :: "'k \<Rightarrow> ('k, 'v) hashmap \<Rightarrow> 'v option" where
  "hm_get k m = map_of m k"

definition hm_insert :: "'k \<Rightarrow> 'v \<Rightarrow> ('k, 'v) hashmap \<Rightarrow> ('k, 'v) hashmap" where
  "hm_insert k v m = (k, v) # AList.delete k m"

definition hm_remove :: "'k \<Rightarrow> ('k, 'v) hashmap \<Rightarrow> ('k, 'v) hashmap" where
  "hm_remove k m = AList.delete k m"

definition hm_wf :: "('k, 'v) hashmap \<Rightarrow> bool" where
  "hm_wf m \<longleftrightarrow> distinct (map fst m)"

lemma hm_get_Nil [simp]: "hm_get k [] = None"
  by (simp add: hm_get_def)

lemma hm_get_insert [simp]: "hm_get k (hm_insert k' v m) = (if k = k' then Some v else hm_get k m)"
  by (simp add: hm_get_def hm_insert_def delete_conv')

lemma hm_get_remove [simp]: "hm_get k (hm_remove k' m) = (if k = k' then None else hm_get k m)"
  by (simp add: hm_get_def hm_remove_def delete_conv')

lemma hm_wf_Nil [simp]: "hm_wf []"
  by (simp add: hm_wf_def)

lemma hm_wf_remove [intro, simp]: "hm_wf m \<Longrightarrow> hm_wf (hm_remove k m)"
  by (simp add: hm_wf_def hm_remove_def distinct_delete)

lemma hm_wf_insert [intro, simp]: "hm_wf m \<Longrightarrow> hm_wf (hm_insert k v m)"
  by (simp add: hm_wf_def hm_insert_def distinct_delete delete_keys distinct_removeAll)

lemma hm_get_Some_iff: "hm_wf m \<Longrightarrow> hm_get k m = Some v \<longleftrightarrow> (k, v) \<in> set m"
  by (simp add: hm_get_def hm_wf_def)

lemma hm_get_SomeD: "hm_get k m = Some v \<Longrightarrow> (k, v) \<in> set m"
  by (simp add: hm_get_def map_of_SomeD)

lemma hm_remove_absent: "hm_get k m = None \<Longrightarrow> hm_remove k m = m"
  by (simp add: hm_get_def hm_remove_def map_of_eq_None_iff delete_idem)

lemma set_hm_remove: "set (hm_remove k m) = {kv \<in> set m. fst kv \<noteq> k}"
  by (auto simp: hm_remove_def AList.delete_eq)

lemma set_hm_insert: "set (hm_insert k v m) = insert (k, v) {kv \<in> set m. fst kv \<noteq> k}"
  by (auto simp: hm_insert_def AList.delete_eq)

section \<open>Positions in a list\<close>

fun index_of :: "'a \<Rightarrow> 'a list \<Rightarrow> nat option" where
  "index_of x [] = None"
| "index_of x (y # ys) = (if x = y then Some 0 else map_option Suc (index_of x ys))"

lemma index_of_SomeD: "index_of x xs = Some i \<Longrightarrow> i < length xs \<and> xs ! i = x"
  by (induction xs arbitrary: i) (auto split: if_splits)

lemma unat_byte_of_nat [simp]: "n < 256 \<Longrightarrow> unat (word_of_nat n :: byte) = n"
  by (simp add: unat_of_nat take_bit_nat_eq_self)

section \<open>Reachable states and invariants\<close>

text \<open>
  A transition system is an initial-state predicate and a labelled step relation. \<open>reach\<close> is the
  set of states some run arrives at; \<open>run\<close> records the labels of the run.
\<close>

inductive reach :: "('s \<Rightarrow> bool) \<Rightarrow> ('s \<Rightarrow> 'l \<Rightarrow> 's \<Rightarrow> bool) \<Rightarrow> 's \<Rightarrow> bool"
  for init step where
  reach_init: "init s \<Longrightarrow> reach init step s"
| reach_step: "reach init step s \<Longrightarrow> step s l t \<Longrightarrow> reach init step t"

inductive run :: "('s \<Rightarrow> 'l \<Rightarrow> 's \<Rightarrow> bool) \<Rightarrow> 's \<Rightarrow> 'l list \<Rightarrow> 's \<Rightarrow> bool"
  for step where
  run_Nil: "run step s [] s"
| run_Cons: "step s l t \<Longrightarrow> run step t ls u \<Longrightarrow> run step s (l # ls) u"

inductive_cases run_NilE [elim!]: "run step s [] t"
inductive_cases run_ConsE [elim!]: "run step s (l # ls) t"

lemma reach_run: "run step s ls t \<Longrightarrow> reach init step s \<Longrightarrow> reach init step t"
  by (induction rule: run.induct) (auto intro: reach_step)

text \<open>The contract of an invariant, and what it gives: it holds in every reachable state and is kept by every run.\<close>

locale invariant_system =
  fixes init :: "'s \<Rightarrow> bool"
    and step :: "'s \<Rightarrow> 'l \<Rightarrow> 's \<Rightarrow> bool"
    and inv :: "'s \<Rightarrow> bool"
  assumes inv_init: "init s \<Longrightarrow> inv s"
    and inv_step: "inv s \<Longrightarrow> step s l t \<Longrightarrow> inv t"
begin

lemma inv_reach: "reach init step s \<Longrightarrow> inv s"
  by (induction rule: reach.induct) (auto intro: inv_init inv_step)

lemma inv_run: "run step s ls t \<Longrightarrow> inv s \<Longrightarrow> inv t"
  by (induction rule: run.induct) (auto intro: inv_step)

end

text \<open>
  A system that, as long as its view is there, does what an abstract system does: what is reachable there
  is reachable here.
\<close>

locale simulation = invariant_system init step inv
  for init :: "'s \<Rightarrow> bool" and step :: "'s \<Rightarrow> 'l \<Rightarrow> 's \<Rightarrow> bool" and inv :: "'s \<Rightarrow> bool" +
  fixes abs_init :: "'a \<Rightarrow> bool"
    and abs_step :: "'a \<Rightarrow> 'm \<Rightarrow> 'a \<Rightarrow> bool"
    and view :: "'s \<Rightarrow> 'a option"
  assumes view_init: "init s \<Longrightarrow> view s = Some a \<Longrightarrow> abs_init a"
    and view_step: "inv s \<Longrightarrow> step s l t \<Longrightarrow> view t = Some b \<Longrightarrow>
      \<exists>a. view s = Some a \<and> (b = a \<or> (\<exists>m. abs_step a m b))"
begin

lemma view_reach: "reach init step s \<Longrightarrow> view s = Some a \<Longrightarrow> reach abs_init abs_step a"
proof (induction arbitrary: a rule: reach.induct)
  case (reach_init s)
  then show ?case by (blast intro: reach.reach_init view_init)
next
  case (reach_step s l t)
  then show ?case using view_step [OF inv_reach [OF reach_step.hyps(1)]] reach.reach_step by metis
qed

end

end
