(* ===== verification/Errors.thy ===== *)
theory Errors
  imports Prelude
begin

text \<open>
  \<open>src/error.rs\<close>: the error type of the crate, its \<open>From\<close> conversions, its two constructors and its
  \<open>Display\<close> text. \<open>std::io::Error\<close> is modelled by its kind and its text, \<open>serde_json::Error\<close> (a type of
  a library outside the repository, which the crate only stores and prints) by its text. The \<open>Arc\<close> around the two inner errors only makes them
  cloneable and has no counterpart here.
\<close>

section \<open>Durations and I/O errors of the standard library\<close>

record duration =
  secs :: nat
  nanos :: nat

definition duration_from_secs :: "nat \<Rightarrow> duration" where
  "duration_from_secs n = \<lparr>secs = n, nanos = 0\<rparr>"

definition duration_from_millis :: "nat \<Rightarrow> duration" where
  "duration_from_millis n = \<lparr>secs = n div 1000, nanos = (n mod 1000) * 1000000\<rparr>"

text \<open>The \<open>Debug\<close> text of a duration, e.g. \<open>30s\<close>, \<open>1.5s\<close>, \<open>150ms\<close>.\<close>

fun frac_digits :: "nat \<Rightarrow> nat \<Rightarrow> nat \<Rightarrow> string" where
  "frac_digits 0 f d = []"
| "frac_digits (Suc n) f d =
     (if f = 0 then [] else digit_char (f div d) # frac_digits n (f mod d) (d div 10))"

lemma frac_digits_numeral [simp]:
  "frac_digits (numeral k) f d =
     (if f = 0 then [] else digit_char (f div d) # frac_digits (pred_numeral k) (f mod d) (d div 10))"
  by (simp add: numeral_eq_Suc)

definition fmt_decimal :: "nat \<Rightarrow> nat \<Rightarrow> nat \<Rightarrow> string" where
  "fmt_decimal i f d =
     show_nat i @ (case frac_digits 9 f d of [] \<Rightarrow> [] | ds \<Rightarrow> CHR ''.'' # ds)"

definition duration_debug :: "duration \<Rightarrow> string" where
  "duration_debug t =
     (if secs t > 0 then fmt_decimal (secs t) (nanos t) 100000000 @ ''s''
      else if nanos t \<ge> 1000000 then
        fmt_decimal (nanos t div 1000000) (nanos t mod 1000000) 100000 @ ''ms''
      else if nanos t \<ge> 1000 then
        fmt_decimal (nanos t div 1000) (nanos t mod 1000) 100 @ [CHR 0xC2, CHR 0xB5] @ ''s''
      else fmt_decimal (nanos t) 0 1 @ ''ns'')"

datatype io_kind =
    NotFound | PermissionDenied | ConnectionRefused | ConnectionReset | BrokenPipe
  | UnexpectedEof | OtherKind string

record io_error =
  io_kind :: io_kind
  io_text :: string

datatype json_error = JsonError string

section \<open>The error type\<close>

datatype error =
    NotUnderGreengrass string
  | Io io_error
  | Handshake string
  | Frame string
  | Payload json_error
  | Service string string
  | Timeout string duration
  | ConnectionClosed

text \<open>\<open>impl From<io::Error>\<close>, \<open>impl From<serde_json::Error>\<close> and the two string constructors.\<close>

definition from_io_error :: "io_error \<Rightarrow> error" where
  "from_io_error err = Io err"

definition from_json_error :: "json_error \<Rightarrow> error" where
  "from_json_error err = Payload err"

definition error_frame :: "string \<Rightarrow> error" where
  "error_frame msg = Frame msg"

definition error_handshake :: "string \<Rightarrow> error" where
  "error_handshake msg = Handshake msg"

lemmas error_constructors [simp] =
  from_io_error_def from_json_error_def error_frame_def error_handshake_def

text \<open>The derived \<open>Clone\<close>: every field is cloned, and a clone of an \<open>Arc\<close> is the same value.\<close>

fun error_clone :: "error \<Rightarrow> error" where
  "error_clone (NotUnderGreengrass v) = NotUnderGreengrass v"
| "error_clone (Io e) = Io e"
| "error_clone (Handshake m) = Handshake m"
| "error_clone (Frame m) = Frame m"
| "error_clone (Payload e) = Payload e"
| "error_clone (Service model message) = Service model message"
| "error_clone (Timeout operation t) = Timeout operation t"
| "error_clone ConnectionClosed = ConnectionClosed"

lemma error_clone_same [simp]: "error_clone e = e"
  by (cases e) simp_all

text \<open>The \<open>#[error(...)]\<close> texts.\<close>

fun error_display :: "error \<Rightarrow> string" where
  "error_display (NotUnderGreengrass v) =
     ''not running under Greengrass: missing environment variable `'' @ v @ ''`''"
| "error_display (Io e) = ''greengrass ipc I/O error: '' @ io_text e"
| "error_display (Handshake m) = ''greengrass ipc handshake failed: '' @ m"
| "error_display (Frame m) = ''eventstream framing error: '' @ m"
| "error_display (Payload (JsonError m)) = ''payload (de)serialization error: '' @ m"
| "error_display (Service model message) =
     ''greengrass service error ['' @ model @ '']: '' @ message"
| "error_display (Timeout operation t) =
     ''greengrass ipc request `'' @ operation @ ''` timed out after '' @ duration_debug t"
| "error_display ConnectionClosed = ''greengrass ipc connection closed''"

lemma duration_debug_examples:
  "duration_debug (duration_from_secs 30) = ''30s''"
  "duration_debug (duration_from_millis 150) = ''150ms''"
  "duration_debug (duration_from_millis 1500) = ''1.5s''"
  by (simp_all add: duration_debug_def duration_from_secs_def duration_from_millis_def
      fmt_decimal_def show_nat.simps digit_char_def char_of_def bit_Suc_0_iff)

end
