(* ===== verification/Env.thy ===== *)
theory Env
  imports Errors
begin

text \<open>
  \<open>src/env.rs\<close>: finding the socket path and the auth token in the process environment. The
  environment is a map from names to the raw bytes of \<open>OsString\<close>; \<open>std::env::var\<close> also checks that
  the value is UTF-8.
\<close>

type_synonym environ = "string \<rightharpoonup> bytes"

datatype var_error = NotPresent | NotUnicode bytes

definition env_var_os :: "environ \<Rightarrow> string \<Rightarrow> bytes option" where
  "env_var_os e k = e k"

definition env_var :: "environ \<Rightarrow> string \<Rightarrow> var_error + string" where
  "env_var e k = (case e k of
      None \<Rightarrow> Inl NotPresent
    | Some b \<Rightarrow> if utf8_valid b then Inr (str_of_bytes b) else Inl (NotUnicode b))"

definition SOCKET_PATH_ENV :: string where
  "SOCKET_PATH_ENV = ''AWS_GG_NUCLEUS_DOMAIN_SOCKET_FILEPATH_FOR_COMPONENT''"

definition AUTH_TOKEN_ENV :: string where
  "AUTH_TOKEN_ENV = ''SVCUID''"

record ipc_env =
  socket_path :: bytes
  auth_token :: string

definition from_env :: "environ \<Rightarrow> error + ipc_env" where
  "from_env e =
     (case env_var_os e SOCKET_PATH_ENV of
        None \<Rightarrow> Inl (NotUnderGreengrass SOCKET_PATH_ENV)
      | Some path \<Rightarrow>
          (case map_err (\<lambda>_. NotUnderGreengrass AUTH_TOKEN_ENV) (env_var e AUTH_TOKEN_ENV) of
             Inl err \<Rightarrow> Inl err
           | Inr token \<Rightarrow>
               if token = [] then Inl (NotUnderGreengrass AUTH_TOKEN_ENV)
               else Inr \<lparr>socket_path = path, auth_token = token\<rparr>))"

lemma str_of_bytes_eq_Nil [simp]: "str_of_bytes b = [] \<longleftrightarrow> b = []"
  by (simp add: str_of_bytes_def)

text \<open>
  C40. Discovery succeeds exactly when both variables are set and the token is non-empty UTF-8, with
  the path taken byte for byte; every failure is \<open>NotUnderGreengrass\<close>, and it names the socket path
  exactly when that variable is absent, whatever the token is.
\<close>

theorem from_env_correct:
  "(from_env e = Inr ie \<longleftrightarrow>
      (\<exists>path tok. e SOCKET_PATH_ENV = Some path \<and> e AUTH_TOKEN_ENV = Some tok \<and>
         utf8_valid tok \<and> tok \<noteq> [] \<and>
         ie = \<lparr>socket_path = path, auth_token = str_of_bytes tok\<rparr>)) \<and>
   (from_env e = Inl err \<longleftrightarrow>
      (err = NotUnderGreengrass SOCKET_PATH_ENV \<and> e SOCKET_PATH_ENV = None) \<or>
      (err = NotUnderGreengrass AUTH_TOKEN_ENV \<and> e SOCKET_PATH_ENV \<noteq> None \<and>
       \<not> (\<exists>tok. e AUTH_TOKEN_ENV = Some tok \<and> utf8_valid tok \<and> tok \<noteq> [])))"
  by (auto simp: from_env_def env_var_os_def env_var_def split: option.splits sum.splits)

end
