(* ===== verification/Eventstream.thy ===== *)
theory Eventstream
  imports Prelude
begin

text \<open>
  \<open>src/eventstream/mod.rs\<close> and \<open>src/eventstream/headers.rs\<close>: message types, message flags and the
  well-known header names of EventStream RPC.
\<close>

section \<open>Header names\<close>

definition MESSAGE_TYPE :: string where "MESSAGE_TYPE = '':message-type''"
definition MESSAGE_FLAGS :: string where "MESSAGE_FLAGS = '':message-flags''"
definition STREAM_ID :: string where "STREAM_ID = '':stream-id''"
definition CONTENT_TYPE :: string where "CONTENT_TYPE = '':content-type''"
definition VERSION :: string where "VERSION = '':version''"
definition SERVICE_MODEL_TYPE :: string where "SERVICE_MODEL_TYPE = ''service-model-type''"
definition OPERATION :: string where "OPERATION = ''operation''"
definition CONTENT_TYPE_JSON :: string where "CONTENT_TYPE_JSON = ''application/json''"
definition PROTOCOL_VERSION :: string where "PROTOCOL_VERSION = ''0.1.0''"

lemmas header_names =
  MESSAGE_TYPE_def MESSAGE_FLAGS_def STREAM_ID_def CONTENT_TYPE_def VERSION_def
  SERVICE_MODEL_TYPE_def OPERATION_def

lemma header_names_neq [simp]:
  "MESSAGE_TYPE \<noteq> MESSAGE_FLAGS" "MESSAGE_TYPE \<noteq> STREAM_ID" "MESSAGE_TYPE \<noteq> SERVICE_MODEL_TYPE"
  "MESSAGE_TYPE \<noteq> CONTENT_TYPE" "MESSAGE_TYPE \<noteq> VERSION" "MESSAGE_TYPE \<noteq> OPERATION"
  "MESSAGE_FLAGS \<noteq> MESSAGE_TYPE" "MESSAGE_FLAGS \<noteq> STREAM_ID" "MESSAGE_FLAGS \<noteq> SERVICE_MODEL_TYPE"
  "MESSAGE_FLAGS \<noteq> CONTENT_TYPE" "MESSAGE_FLAGS \<noteq> VERSION" "MESSAGE_FLAGS \<noteq> OPERATION"
  "STREAM_ID \<noteq> MESSAGE_TYPE" "STREAM_ID \<noteq> MESSAGE_FLAGS" "STREAM_ID \<noteq> SERVICE_MODEL_TYPE"
  "STREAM_ID \<noteq> CONTENT_TYPE" "STREAM_ID \<noteq> VERSION" "STREAM_ID \<noteq> OPERATION"
  "SERVICE_MODEL_TYPE \<noteq> MESSAGE_TYPE" "SERVICE_MODEL_TYPE \<noteq> MESSAGE_FLAGS" "SERVICE_MODEL_TYPE \<noteq> STREAM_ID"
  "SERVICE_MODEL_TYPE \<noteq> CONTENT_TYPE" "SERVICE_MODEL_TYPE \<noteq> VERSION" "SERVICE_MODEL_TYPE \<noteq> OPERATION"
  "CONTENT_TYPE \<noteq> MESSAGE_TYPE" "CONTENT_TYPE \<noteq> MESSAGE_FLAGS" "CONTENT_TYPE \<noteq> STREAM_ID"
  "CONTENT_TYPE \<noteq> SERVICE_MODEL_TYPE" "CONTENT_TYPE \<noteq> VERSION" "CONTENT_TYPE \<noteq> OPERATION"
  "VERSION \<noteq> MESSAGE_TYPE" "VERSION \<noteq> MESSAGE_FLAGS" "VERSION \<noteq> STREAM_ID"
  "VERSION \<noteq> SERVICE_MODEL_TYPE" "VERSION \<noteq> CONTENT_TYPE" "VERSION \<noteq> OPERATION"
  "OPERATION \<noteq> MESSAGE_TYPE" "OPERATION \<noteq> MESSAGE_FLAGS" "OPERATION \<noteq> STREAM_ID"
  "OPERATION \<noteq> SERVICE_MODEL_TYPE" "OPERATION \<noteq> CONTENT_TYPE" "OPERATION \<noteq> VERSION"
  by (simp_all add: header_names)

section \<open>Message types and flags\<close>

datatype message_type =
    ApplicationMessage | ApplicationError | Ping | PingResponse
  | Connect | ConnectAck | ProtocolError | InternalError

text \<open>The types in the order of their discriminants.\<close>

instantiation message_type :: enum
begin

definition enum_message_type :: "message_type list" where
  "enum_class.enum = [ApplicationMessage, ApplicationError, Ping, PingResponse, Connect, ConnectAck,
     ProtocolError, InternalError]"

definition enum_all_message_type :: "(message_type \<Rightarrow> bool) \<Rightarrow> bool" where
  "enum_class.enum_all P \<longleftrightarrow> list_all P (enum_class.enum :: message_type list)"

definition enum_ex_message_type :: "(message_type \<Rightarrow> bool) \<Rightarrow> bool" where
  "enum_class.enum_ex P \<longleftrightarrow> list_ex P (enum_class.enum :: message_type list)"

instance
proof
  have all: "t \<in> set enum_class.enum" for t :: message_type by (cases t) (simp_all add: enum_message_type_def)
  then show "UNIV = set (enum_class.enum :: message_type list)" by blast
  show "distinct (enum_class.enum :: message_type list)" by (simp add: enum_message_type_def)
  fix P :: "message_type \<Rightarrow> bool"
  show "enum_class.enum_all P \<longleftrightarrow> Ball UNIV P" "enum_class.enum_ex P \<longleftrightarrow> Bex UNIV P"
    using all by (auto simp: enum_all_message_type_def enum_ex_message_type_def list_all_iff list_ex_iff)
qed

end

text \<open>The discriminants of the \<open>#[repr(i32)]\<close> enum (\<open>as i32\<close>).\<close>

fun message_type_as_i32 :: "message_type \<Rightarrow> i32" where
  "message_type_as_i32 ApplicationMessage = 0"
| "message_type_as_i32 ApplicationError = 1"
| "message_type_as_i32 Ping = 2"
| "message_type_as_i32 PingResponse = 3"
| "message_type_as_i32 Connect = 4"
| "message_type_as_i32 ConnectAck = 5"
| "message_type_as_i32 ProtocolError = 6"
| "message_type_as_i32 InternalError = 7"

definition from_i32 :: "i32 \<Rightarrow> message_type option" where
  "from_i32 v =
     (if v = 0 then Some ApplicationMessage
      else if v = 1 then Some ApplicationError
      else if v = 2 then Some Ping
      else if v = 3 then Some PingResponse
      else if v = 4 then Some Connect
      else if v = 5 then Some ConnectAck
      else if v = 6 then Some ProtocolError
      else if v = 7 then Some InternalError
      else None)"

text \<open>The derived \<open>Debug\<close> text.\<close>

fun message_type_debug :: "message_type \<Rightarrow> string" where
  "message_type_debug ApplicationMessage = ''ApplicationMessage''"
| "message_type_debug ApplicationError = ''ApplicationError''"
| "message_type_debug Ping = ''Ping''"
| "message_type_debug PingResponse = ''PingResponse''"
| "message_type_debug Connect = ''Connect''"
| "message_type_debug ConnectAck = ''ConnectAck''"
| "message_type_debug ProtocolError = ''ProtocolError''"
| "message_type_debug InternalError = ''InternalError''"

definition FLAG_NONE :: i32 where "FLAG_NONE = 0x0"
definition FLAG_CONNECTION_ACCEPTED :: i32 where "FLAG_CONNECTION_ACCEPTED = 0x1"
definition FLAG_TERMINATE_STREAM :: i32 where "FLAG_TERMINATE_STREAM = 0x2"

lemmas flag_defs = FLAG_NONE_def FLAG_CONNECTION_ACCEPTED_def FLAG_TERMINATE_STREAM_def

lemma from_i32_as_i32 [simp]: "from_i32 (message_type_as_i32 t) = Some t"
proof -
  have "\<forall>t. from_i32 (message_type_as_i32 t) = Some t" by code_simp
  then show ?thesis ..
qed

lemma from_i32_Some_iff: "from_i32 v = Some t \<longleftrightarrow> v = message_type_as_i32 t"
  by (cases t) (auto simp: from_i32_def split: if_splits)

lemma message_type_as_i32_inject [simp]:
  "message_type_as_i32 t = message_type_as_i32 u \<longleftrightarrow> t = u"
  by (rule inj_eq [OF inj_enumI]) code_simp

lemma sint_message_type: "0 \<le> sint (message_type_as_i32 t) \<and> sint (message_type_as_i32 t) \<le> 7"
  by (cases t) simp_all

lemma from_i32_accepts:
  assumes "0 \<le> sint v" "sint v \<le> 7"
  shows "from_i32 v \<noteq> None"
proof -
  from assms have "sint v \<in> {0, 1, 2, 3, 4, 5, 6, 7}" by auto
  moreover have "v = word_of_int (sint v)" by simp
  ultimately have "v \<in> {0, 1, 2, 3, 4, 5, 6, 7}" by (metis (no_types, lifting) insert_iff
      of_int_0 of_int_1 of_int_numeral empty_iff)
  then show ?thesis by (auto simp: from_i32_def)
qed

text \<open>
  The numbering of the message types is a bijection onto the values 0 to 7: reading back the
  discriminant of a type gives the type, every value \<open>from_i32\<close> accepts is the discriminant of its
  result, and it accepts exactly the values 0 to 7 (a negative value is refused).
\<close>

theorem message_type_numbering:
  "from_i32 (message_type_as_i32 t) = Some t \<and>
   (from_i32 v = Some t \<longleftrightarrow> v = message_type_as_i32 t) \<and>
   (from_i32 v \<noteq> None \<longleftrightarrow> 0 \<le> sint v \<and> sint v \<le> 7)"
  using from_i32_accepts [of v] sint_message_type by (auto simp: from_i32_Some_iff)

end
