(* ===== verification/Message.thy ===== *)
theory Message
  imports Errors Eventstream
begin

text \<open>
  \<open>src/eventstream/message.rs\<close>: building the four kinds of RPC messages the client sends and parsing
  the ones it receives. \<open>Message\<close> and \<open>Header\<close> belong to \<open>aws_smithy_types\<close>, outside the repository:
  their operations are the fields of the argument \<open>api\<close>, and what the code relies on (a message keeps
  its payload and its headers in the order they were added, a header keeps its name and value) is the
  predicate \<open>msg_laws\<close>. The last section instantiates it for the witnesses.
\<close>

section \<open>The message library\<close>

text \<open>The header values the code names; \<open>OtherValue\<close> stands for the variants it does not.\<close>

datatype 'o header_value =
    Int32 i32 | Int16 i16 | Byte i8 | Int64 i64 | Str string | OtherValue 'o

record ('m, 'h, 'o) msg_api =
  header_new :: "string \<Rightarrow> 'o header_value \<Rightarrow> 'h"
  header_name :: "'h \<Rightarrow> string"
  header_value :: "'h \<Rightarrow> 'o header_value"
  header_value_debug :: "'o header_value \<Rightarrow> string"
  msg_new :: "bytes \<Rightarrow> 'm"
  msg_add_header :: "'m \<Rightarrow> 'h \<Rightarrow> 'm"
  msg_headers :: "'m \<Rightarrow> 'h list"
  msg_payload :: "'m \<Rightarrow> bytes"

definition msg_laws :: "('m, 'h, 'o) msg_api \<Rightarrow> bool" where
  "msg_laws api \<longleftrightarrow>
     (\<forall>n v. header_name api (header_new api n v) = n) \<and>
     (\<forall>n v. header_value api (header_new api n v) = v) \<and>
     (\<forall>p. msg_headers api (msg_new api p) = []) \<and>
     (\<forall>p. msg_payload api (msg_new api p) = p) \<and>
     (\<forall>m h. msg_headers api (msg_add_header api m h) = msg_headers api m @ [h]) \<and>
     (\<forall>m h. msg_payload api (msg_add_header api m h) = msg_payload api m)"

lemma msg_lawsD:
  assumes "msg_laws api"
  shows "header_name api (header_new api n v) = n"
    and "header_value api (header_new api n v) = v"
    and "msg_headers api (msg_new api p) = []"
    and "msg_payload api (msg_new api p) = p"
    and "msg_headers api (msg_add_header api m h) = msg_headers api m @ [h]"
    and "msg_payload api (msg_add_header api m h) = msg_payload api m"
  using assms by (simp_all add: msg_laws_def)

section \<open>RPC messages\<close>

record rpc_message =
  message_type :: message_type
  flags :: i32
  stream_id :: i32
  service_model_type :: "string option"
  payload :: bytes

definition terminates_stream :: "rpc_message \<Rightarrow> bool" where
  "terminates_stream rpc \<longleftrightarrow> flags rpc AND FLAG_TERMINATE_STREAM \<noteq> 0"

definition connection_accepted :: "rpc_message \<Rightarrow> bool" where
  "connection_accepted rpc \<longleftrightarrow> flags rpc AND FLAG_CONNECTION_ACCEPTED \<noteq> 0"

definition int32_header :: "('m, 'h, 'o) msg_api \<Rightarrow> string \<Rightarrow> i32 \<Rightarrow> 'h" where
  "int32_header api name v = header_new api name (Int32 v)"

definition string_header :: "('m, 'h, 'o) msg_api \<Rightarrow> string \<Rightarrow> string \<Rightarrow> 'h" where
  "string_header api name v = header_new api name (Str v)"

subsection \<open>Builders\<close>

definition connect_message :: "('m, 'h, 'o) msg_api \<Rightarrow> bytes \<Rightarrow> 'm" where
  "connect_message api body = fold (\<lambda>h m. msg_add_header api m h)
     [int32_header api MESSAGE_TYPE (message_type_as_i32 Connect),
      int32_header api MESSAGE_FLAGS FLAG_NONE,
      int32_header api STREAM_ID 0,
      string_header api VERSION PROTOCOL_VERSION,
      string_header api CONTENT_TYPE CONTENT_TYPE_JSON]
     (msg_new api body)"

definition activate_message ::
  "('m, 'h, 'o) msg_api \<Rightarrow> i32 \<Rightarrow> string \<Rightarrow> string \<Rightarrow> bytes \<Rightarrow> 'm" where
  "activate_message api sid operation model body = fold (\<lambda>h m. msg_add_header api m h)
     [int32_header api MESSAGE_TYPE (message_type_as_i32 ApplicationMessage),
      int32_header api MESSAGE_FLAGS FLAG_NONE,
      int32_header api STREAM_ID sid,
      string_header api CONTENT_TYPE CONTENT_TYPE_JSON,
      string_header api OPERATION operation,
      string_header api SERVICE_MODEL_TYPE model]
     (msg_new api body)"

definition terminate_message :: "('m, 'h, 'o) msg_api \<Rightarrow> i32 \<Rightarrow> 'm" where
  "terminate_message api sid = fold (\<lambda>h m. msg_add_header api m h)
     [int32_header api MESSAGE_TYPE (message_type_as_i32 ApplicationMessage),
      int32_header api MESSAGE_FLAGS FLAG_TERMINATE_STREAM,
      int32_header api STREAM_ID sid]
     (msg_new api [])"

definition ping_response_message :: "('m, 'h, 'o) msg_api \<Rightarrow> bytes \<Rightarrow> 'm" where
  "ping_response_message api body = fold (\<lambda>h m. msg_add_header api m h)
     [int32_header api MESSAGE_TYPE (message_type_as_i32 PingResponse),
      int32_header api MESSAGE_FLAGS FLAG_NONE,
      int32_header api STREAM_ID 0]
     (msg_new api body)"

subsection \<open>Parsing\<close>

definition fits_i32 :: "int \<Rightarrow> bool" where
  "fits_i32 i \<longleftrightarrow> - (2 ^ 31) \<le> i \<and> i < 2 ^ 31"

lemma fits_i32_simps [simp]:
  "fits_i32 0" "fits_i32 1" "fits_i32 (numeral k) \<longleftrightarrow> (numeral k :: int) < 2147483648"
  by (simp_all add: fits_i32_def less_le_trans [of _ 0])

definition header_i32 :: "('m, 'h, 'o) msg_api \<Rightarrow> 'h \<Rightarrow> error + i32" where
  "header_i32 api h = (case header_value api h of
      Int32 v \<Rightarrow> Inr v
    | Int16 v \<Rightarrow> Inr (scast v)
    | Byte v \<Rightarrow> Inr (scast v)
    | Int64 v \<Rightarrow>
        (if fits_i32 (sint v) then Inr (word_of_int (sint v))
         else Inl (error_frame (''integer header '' @ header_name api h @ '' out of range'')))
    | other \<Rightarrow> Inl (error_frame (''expected integer header for '' @ header_name api h @
                        '', got '' @ header_value_debug api other)))"

text \<open>The loop over the headers, with the four mutable locals of \<open>parse\<close> as accumulators.\<close>

fun parse_headers ::
  "('m, 'h, 'o) msg_api \<Rightarrow> 'h list \<Rightarrow> i32 option \<Rightarrow> i32 \<Rightarrow> i32 \<Rightarrow> string option \<Rightarrow>
   error + (i32 option \<times> i32 \<times> i32 \<times> string option)" where
  "parse_headers api [] mt fl sid smt = Inr (mt, fl, sid, smt)"
| "parse_headers api (h # hs) mt fl sid smt =
     (if header_name api h = MESSAGE_TYPE then
        (case header_i32 api h of
           Inl e \<Rightarrow> Inl e
         | Inr v \<Rightarrow> parse_headers api hs (Some v) fl sid smt)
      else if header_name api h = MESSAGE_FLAGS then
        (case header_i32 api h of
           Inl e \<Rightarrow> Inl e
         | Inr v \<Rightarrow> parse_headers api hs mt v sid smt)
      else if header_name api h = STREAM_ID then
        (case header_i32 api h of
           Inl e \<Rightarrow> Inl e
         | Inr v \<Rightarrow> parse_headers api hs mt fl v smt)
      else if header_name api h = SERVICE_MODEL_TYPE then
        (case header_value api h of
           Str s \<Rightarrow> parse_headers api hs mt fl sid (Some s)
         | _ \<Rightarrow> parse_headers api hs mt fl sid smt)
      else parse_headers api hs mt fl sid smt)"

definition parse :: "('m, 'h, 'o) msg_api \<Rightarrow> 'm \<Rightarrow> error + rpc_message" where
  "parse api m = (case parse_headers api (msg_headers api m) None FLAG_NONE 0 None of
      Inl e \<Rightarrow> Inl e
    | Inr (mt, fl, sid, smt) \<Rightarrow>
        (case mt of
           None \<Rightarrow> Inl (error_frame ''message missing :message-type header'')
         | Some raw \<Rightarrow>
             (case from_i32 raw of
                None \<Rightarrow> Inl (error_frame (''unknown :message-type value '' @ show_int (sint raw)))
              | Some t \<Rightarrow> Inr \<lparr>message_type = t, flags = fl, stream_id = sid,
                             service_model_type = smt, payload = msg_payload api m\<rparr>)))"

section \<open>Integer headers keep their value\<close>

text \<open>The mathematical integer an integer header carries, at whatever width.\<close>

fun header_int :: "'o header_value \<Rightarrow> int option" where
  "header_int (Int32 v) = Some (sint v)"
| "header_int (Int16 v) = Some (sint v)"
| "header_int (Byte v) = Some (sint v)"
| "header_int (Int64 v) = Some (sint v)"
| "header_int _ = None"

lemma sint_fits_i32 [simp]: "fits_i32 (sint (v :: i32))"
  using sint_ge [of v] sint_lt [of v] by (simp add: fits_i32_def)

lemma sint_word_of_int_fits: "fits_i32 i \<Longrightarrow> sint (word_of_int i :: i32) = i"
  by (simp add: fits_i32_def signed_of_int signed_take_bit_int_eq_self)

lemma sint_scast_i16 [simp]: "sint (scast (v :: i16) :: i32) = sint v"
  using sint_ge [of v] sint_lt [of v]
  by (simp add: signed_scast_eq signed_take_bit_int_eq_self)

lemma sint_scast_i8 [simp]: "sint (scast (v :: i8) :: i32) = sint v"
  using sint_ge [of v] sint_lt [of v]
  by (simp add: signed_scast_eq signed_take_bit_int_eq_self)

lemma sint_scast_i64: "fits_i32 (sint (v :: i64)) \<Longrightarrow> sint (scast v :: i32) = sint v"
  by (simp add: signed_scast_eq fits_i32_def signed_take_bit_int_eq_self)

lemma fits_i32_sint_narrow [simp]: "fits_i32 (sint (v :: i16))" "fits_i32 (sint (w :: i8))"
  using sint_ge [of v] sint_lt [of v] sint_ge [of w] sint_lt [of w]
  by (simp_all add: fits_i32_def)

lemma sint_i32_inject: "sint (v :: i32) = sint w \<Longrightarrow> v = w"
  by (rule signed_word_eqI) simp

lemma header_i32_Inr_iff:
  "header_i32 api h = Inr v \<longleftrightarrow> header_int (header_value api h) = Some (sint v)"
  by (cases "header_value api h")
     (auto simp: header_i32_def sint_scast_i64 intro: sint_i32_inject)

lemma header_i32_succeeds_iff:
  "(\<exists>v. header_i32 api h = Inr v) \<longleftrightarrow>
   (\<exists>i. header_int (header_value api h) = Some i \<and> fits_i32 i)"
  by (auto simp: header_i32_Inr_iff) (metis sint_word_of_int_fits)

lemma header_i32_error: "header_i32 api h = Inl e \<Longrightarrow> \<exists>text. e = Frame text"
  by (auto simp: header_i32_def split: header_value.splits if_splits)

text \<open>
  C35. Reading an integer header succeeds exactly when the header holds an integer, at any of the
  four widths, that lies in the \<open>i32\<close> range, and the result is that integer; every failure is a
  framing error.
\<close>

theorem header_i32_value:
  "(header_i32 api h = Inr v \<longleftrightarrow>
      header_int (header_value api h) = Some (sint v)) \<and>
   ((\<exists>v. header_i32 api h = Inr v) \<longleftrightarrow>
      (\<exists>i. header_int (header_value api h) = Some i \<and> fits_i32 i)) \<and>
   header_i32 api h \<in> range Inr \<union> range (\<lambda>text. Inl (Frame text))"
proof (intro conjI)
  show "header_i32 api h \<in> range Inr \<union> range (\<lambda>text. Inl (Frame text))"
    by (cases "header_i32 api h :: error + i32") (auto dest: header_i32_error)
qed (rule header_i32_Inr_iff header_i32_succeeds_iff)+

section \<open>What parsing computes\<close>

text \<open>
  The reference reading of a header list, from the right: the last header of a name wins. A header
  is well typed unless its name is one of the three integer ones and its value is not in range.
\<close>

definition header_int_ok :: "'o header_value \<Rightarrow> bool" where
  "header_int_ok v = (case header_int v of None \<Rightarrow> False | Some i \<Rightarrow> fits_i32 i)"

definition well_typed_header :: "('m, 'h, 'o) msg_api \<Rightarrow> 'h \<Rightarrow> bool" where
  "well_typed_header api h \<longleftrightarrow>
     header_name api h \<notin> {MESSAGE_TYPE, MESSAGE_FLAGS, STREAM_ID} \<or> header_int_ok (header_value api h)"

fun last_i32 :: "('m, 'h, 'o) msg_api \<Rightarrow> string \<Rightarrow> 'h list \<Rightarrow> i32 option" where
  "last_i32 api n [] = None"
| "last_i32 api n (h # hs) = (case last_i32 api n hs of
      Some v \<Rightarrow> Some v
    | None \<Rightarrow> if header_name api h = n then map_option word_of_int (header_int (header_value api h))
              else None)"

fun last_str :: "('m, 'h, 'o) msg_api \<Rightarrow> string \<Rightarrow> 'h list \<Rightarrow> string option" where
  "last_str api n [] = None"
| "last_str api n (h # hs) = (case last_str api n hs of
      Some v \<Rightarrow> Some v
    | None \<Rightarrow> (case header_value api h of
                 Str s \<Rightarrow> if header_name api h = n then Some s else None
               | _ \<Rightarrow> None))"

definition or_else :: "'a option \<Rightarrow> 'a \<Rightarrow> 'a" where
  "or_else x d = (case x of None \<Rightarrow> d | Some v \<Rightarrow> v)"

lemma or_else_simps [simp]: "or_else None d = d" "or_else (Some v) d = v"
  by (simp_all add: or_else_def)

lemma or_else_map_Some [simp]: "or_else (map_option Some x) (Some d) = Some (or_else x d)"
  by (cases x) simp_all

lemma or_else_map_None [simp]: "or_else (map_option Some x) None = x"
  by (cases x) simp_all

lemma header_i32_ok_cases:
  obtains v where "header_i32 api h = Inr v"
    "header_int_ok (header_value api h)" "header_int (header_value api h) = Some (sint v)"
  | e where "header_i32 api h = Inl e" "\<not> header_int_ok (header_value api h)"
proof (cases "header_i32 api h :: error + i32")
  case (Inl e)
  then have "\<not> (\<exists>v. header_i32 api h = Inr v)" by simp
  then have "\<not> header_int_ok (header_value api h)"
    unfolding header_i32_succeeds_iff by (simp add: header_int_ok_def split: option.splits)
  with Inl show ?thesis by (rule that(2))
next
  case (Inr v)
  then have "header_int (header_value api h) = Some (sint v)" by (simp add: header_i32_Inr_iff)
  with Inr show ?thesis by (intro that(1)) (simp_all add: header_int_ok_def)
qed

text \<open>One iteration of the loop, by the name of the header.\<close>

lemma parse_headers_skip:
  assumes "header_name api h \<notin> {MESSAGE_TYPE, MESSAGE_FLAGS, STREAM_ID}"
  shows "parse_headers api (h # hs) mt fl sid smt =
    parse_headers api hs mt fl sid (or_else (map_option Some (last_str api SERVICE_MODEL_TYPE [h])) smt)"
  using assms by (auto split: header_value.splits)

lemma last_i32_Cons_neq [simp]: "header_name api h \<noteq> n \<Longrightarrow> last_i32 api n (h # hs) = last_i32 api n hs"
  by (simp split: option.splits)

lemma last_str_Cons_neq: "header_name api h \<noteq> n \<Longrightarrow> last_str api n (h # hs) = last_str api n hs"
  by (simp split: option.splits header_value.splits)

lemma or_else_last_i32_Cons:
  "header_int (header_value api h) = Some (sint v) \<Longrightarrow> header_name api h = n \<Longrightarrow>
   last_i32 api n (h # hs) = Some (or_else (last_i32 api n hs) v)"
  by (simp add: or_else_def split: option.splits)

lemma last_str_Cons:
  "last_str api n (h # hs) =
     (case last_str api n hs of None \<Rightarrow> last_str api n [h] | Some s \<Rightarrow> Some s)"
  by (simp split: option.splits)

definition parse_reading ::
  "('m, 'h, 'o) msg_api \<Rightarrow> 'h list \<Rightarrow> i32 option \<Rightarrow> i32 \<Rightarrow> i32 \<Rightarrow> string option \<Rightarrow>
   i32 option \<times> i32 \<times> i32 \<times> string option" where
  "parse_reading api hs mt fl sid smt =
     (or_else (map_option Some (last_i32 api MESSAGE_TYPE hs)) mt,
      or_else (last_i32 api MESSAGE_FLAGS hs) fl,
      or_else (last_i32 api STREAM_ID hs) sid,
      or_else (map_option Some (last_str api SERVICE_MODEL_TYPE hs)) smt)"

lemma parse_headers_Inr_iff:
  "parse_headers api hs mt fl sid smt = Inr r \<longleftrightarrow>
     list_all (well_typed_header api) hs \<and> r = parse_reading api hs mt fl sid smt"
proof (induction hs arbitrary: mt fl sid smt)
  case Nil
  show ?case by (auto simp: parse_reading_def)
next
  case (Cons h hs)
  consider "header_name api h \<notin> {MESSAGE_TYPE, MESSAGE_FLAGS, STREAM_ID}"
    | "header_name api h \<in> {MESSAGE_TYPE, MESSAGE_FLAGS, STREAM_ID}" by blast
  then show ?case
  proof cases
    case 1
    then show ?thesis
      by (subst parse_headers_skip [OF 1], subst Cons.IH)
         (simp add: parse_reading_def well_typed_header_def last_str_Cons [of api _ h hs] or_else_def
            del: last_str.simps last_i32.simps split: option.splits)
  next
    case 2
    then show ?thesis
      by (cases rule: header_i32_ok_cases [of api h])
         (auto simp: Cons.IH parse_reading_def well_typed_header_def or_else_last_i32_Cons
            last_str_Cons_neq simp del: last_i32.simps last_str.simps)
  qed
qed

text \<open>
  C23. Parsing is the declarative reading of the header list: a message parses exactly when all its
  integer-named headers are well typed and its last \<open>:message-type\<close> is one of the eight known types;
  then the flags and the stream id are those of the last header of each name (0 when there is none),
  the service model type is the last string of that name, the payload is taken whole, and every other
  header is ignored.
\<close>

theorem parse_correct:
  "parse api m = Inr rpc \<longleftrightarrow>
     list_all (well_typed_header api) (msg_headers api m) \<and>
     last_i32 api MESSAGE_TYPE (msg_headers api m) = Some (message_type_as_i32 (message_type rpc)) \<and>
     flags rpc = or_else (last_i32 api MESSAGE_FLAGS (msg_headers api m)) FLAG_NONE \<and>
     stream_id rpc = or_else (last_i32 api STREAM_ID (msg_headers api m)) 0 \<and>
     service_model_type rpc = last_str api SERVICE_MODEL_TYPE (msg_headers api m) \<and>
     payload rpc = msg_payload api m"
  (is "_ \<longleftrightarrow> ?R")
proof (cases "parse_headers api (msg_headers api m) None FLAG_NONE 0 None")
  case (Inl e)
  then have "\<not> list_all (well_typed_header api) (msg_headers api m)"
    using parse_headers_Inr_iff [of api "msg_headers api m" None FLAG_NONE 0 None
        "parse_reading api (msg_headers api m) None FLAG_NONE 0 None"]
    by simp
  with Inl show ?thesis by (simp add: parse_def)
next
  case (Inr r)
  then have "list_all (well_typed_header api) (msg_headers api m)"
    and r: "r = parse_reading api (msg_headers api m) None FLAG_NONE 0 None"
    by (simp_all add: parse_headers_Inr_iff)
  then show ?thesis using Inr
    by (cases rpc) (auto simp: parse_def parse_reading_def from_i32_Some_iff split: option.splits)
qed

text \<open>
  The error of a header list is that of its first ill-typed header.
\<close>

lemma parse_headers_Inl_iff:
  "parse_headers api hs mt fl sid smt = Inl e \<longleftrightarrow>
     (\<exists>pre h post. hs = pre @ h # post \<and> list_all (well_typed_header api) pre \<and>
        \<not> well_typed_header api h \<and> header_i32 api h = Inl e)"
proof (induction hs arbitrary: mt fl sid smt)
  case Nil
  show ?case by simp
next
  case (Cons h hs)
  have split: "(\<exists>pre x post. h # hs = pre @ x # post \<and> list_all (well_typed_header api) pre \<and>
        \<not> well_typed_header api x \<and> header_i32 api x = Inl e) \<longleftrightarrow>
      (\<not> well_typed_header api h \<and> header_i32 api h = Inl e) \<or>
      (well_typed_header api h \<and>
        (\<exists>pre x post. hs = pre @ x # post \<and> list_all (well_typed_header api) pre \<and>
           \<not> well_typed_header api x \<and> header_i32 api x = Inl e))"
    (is "?L \<longleftrightarrow> ?R")
  proof
    assume ?L
    then obtain pre x post where "h # hs = pre @ x # post" "list_all (well_typed_header api) pre"
      "\<not> well_typed_header api x" "header_i32 api x = Inl e" by blast
    then show ?R by (cases pre) auto
  next
    assume ?R
    then show ?L by (metis append_Cons append_Nil list.pred_inject(1,2))
  qed
  consider "header_name api h \<notin> {MESSAGE_TYPE, MESSAGE_FLAGS, STREAM_ID}"
    | "header_name api h \<in> {MESSAGE_TYPE, MESSAGE_FLAGS, STREAM_ID}" by blast
  then show ?case
  proof cases
    case 1
    then show ?thesis
      by (subst parse_headers_skip [OF 1], subst Cons.IH, subst split)
         (simp add: well_typed_header_def [of api h])
  next
    case 2
    then show ?thesis unfolding split
      by (cases rule: header_i32_ok_cases [of api h])
         (auto simp: Cons.IH well_typed_header_def [of api h])
  qed
qed

lemma parse_error_frame: "parse api m = Inl e \<Longrightarrow> \<exists>text. e = Frame text"
proof (cases "parse_headers api (msg_headers api m) None FLAG_NONE 0 None")
  case (Inl e')
  moreover assume "parse api m = Inl e"
  ultimately have "e' = e" by (simp add: parse_def)
  with Inl show ?thesis by (auto simp: parse_headers_Inl_iff dest: header_i32_error)
qed (auto simp: parse_def split: option.splits prod.splits)

text \<open>
  C36. Every way parsing fails, with its error: the first ill-typed header's own error; or, when all
  are well typed, a missing type; or an unknown type, named by its number. In particular every
  parse error is a framing error.
\<close>

theorem parse_errors:
  "(parse api m = Inl e \<longleftrightarrow>
     (\<exists>pre h post. msg_headers api m = pre @ h # post \<and> list_all (well_typed_header api) pre \<and>
        \<not> well_typed_header api h \<and> header_i32 api h = Inl e) \<or>
     (list_all (well_typed_header api) (msg_headers api m) \<and>
      (case last_i32 api MESSAGE_TYPE (msg_headers api m) of
         None \<Rightarrow> e = Frame ''message missing :message-type header''
       | Some raw \<Rightarrow> from_i32 raw = None \<and>
           e = Frame (''unknown :message-type value '' @ show_int (sint raw))))) \<and>
   parse api m \<in> range Inr \<union> range (\<lambda>text. Inl (Frame text))"
proof -
  let ?hs = "msg_headers api m"
  have "parse api m = Inl e \<longleftrightarrow>
     (\<exists>pre h post. ?hs = pre @ h # post \<and> list_all (well_typed_header api) pre \<and>
        \<not> well_typed_header api h \<and> header_i32 api h = Inl e) \<or>
     (list_all (well_typed_header api) ?hs \<and>
      (case last_i32 api MESSAGE_TYPE ?hs of
         None \<Rightarrow> e = Frame ''message missing :message-type header''
       | Some raw \<Rightarrow> from_i32 raw = None \<and>
           e = Frame (''unknown :message-type value '' @ show_int (sint raw))))" for e
  proof (cases "parse_headers api ?hs None FLAG_NONE 0 None")
    case (Inl e')
    then have "\<not> list_all (well_typed_header api) ?hs"
      using parse_headers_Inr_iff [of api ?hs None FLAG_NONE 0 None
          "parse_reading api ?hs None FLAG_NONE 0 None"] by simp
    moreover have "parse api m = Inl e \<longleftrightarrow>
        parse_headers api ?hs None FLAG_NONE 0 None = Inl e"
      using Inl by (simp add: parse_def)
    ultimately show ?thesis by (simp add: parse_headers_Inl_iff)
  next
    case (Inr r)
    then have all: "list_all (well_typed_header api) ?hs"
      and r: "r = parse_reading api ?hs None FLAG_NONE 0 None"
      by (simp_all add: parse_headers_Inr_iff)
    have none: "\<not> (\<exists>pre h post. ?hs = pre @ h # post \<and> \<not> well_typed_header api h)"
      using all by (auto simp: list_all_iff)
    then show ?thesis using Inr all
      by (auto simp: parse_def r parse_reading_def split: option.splits)
  qed
  moreover have "parse api m \<in> range Inr \<union> range (\<lambda>text. Inl (Frame text))"
    by (cases "parse api m :: error + _") (auto dest: parse_error_frame)
  ultimately show ?thesis by blast
qed

section \<open>The builders and the parser agree\<close>

text \<open>
  The contract between a builder and whoever receives its message: parsing it gives back the RPC
  fields it was built from. What follows for every such message is proved once here.
\<close>

locale rpc_builder =
  fixes api :: "('m, 'h, 'o) msg_api"
    and built :: 'm
    and mtype :: message_type
    and fl :: i32
    and sid :: i32
    and smt :: "string option"
    and body :: bytes
  assumes parse_built: "msg_laws api \<Longrightarrow>
    parse api built = Inr \<lparr>message_type = mtype, flags = fl, stream_id = sid,
      service_model_type = smt, payload = body\<rparr>"
begin

lemma parse_built_any:
  assumes "msg_laws api"
  shows "parse api built = Inr \<lparr>message_type = mtype, flags = fl,
      stream_id = sid, service_model_type = smt, payload = body\<rparr>"
  using parse_built [OF assms] by (simp add: parse_correct)

lemma built_terminates:
  "msg_laws api \<Longrightarrow> parse api built = Inr rpc \<Longrightarrow>
   terminates_stream rpc \<longleftrightarrow> fl AND FLAG_TERMINATE_STREAM \<noteq> 0"
  by (auto simp: parse_built_any terminates_stream_def)

lemma built_stream:
  "msg_laws api \<Longrightarrow> parse api built = Inr rpc \<Longrightarrow> stream_id rpc = sid"
  by (auto simp: parse_built_any)

end

lemmas builder_simps =
  parse_correct well_typed_header_def header_int_ok_def int32_header_def string_header_def
  msg_lawsD

interpretation connect_msg: rpc_builder api "connect_message api body" Connect FLAG_NONE 0 None body
  for api :: "('m, 'h, 'o) msg_api" and body
  by unfold_locales (simp add: connect_message_def builder_simps)

interpretation activate_msg: rpc_builder api "activate_message api sid operation model body"
    ApplicationMessage FLAG_NONE sid "Some model" body
  for api :: "('m, 'h, 'o) msg_api" and sid operation model body
  by unfold_locales (simp add: activate_message_def builder_simps)

interpretation terminate_msg: rpc_builder api "terminate_message api sid"
    ApplicationMessage FLAG_TERMINATE_STREAM sid None "[]"
  for api :: "('m, 'h, 'o) msg_api" and sid
  by unfold_locales (simp add: terminate_message_def builder_simps)

interpretation ping_response_msg: rpc_builder api "ping_response_message api body"
    PingResponse FLAG_NONE 0 None body
  for api :: "('m, 'h, 'o) msg_api" and body
  by unfold_locales (simp add: ping_response_message_def builder_simps)

text \<open>A concrete message library that satisfies the laws, for the witnesses.\<close>

definition pair_api ::
  "((string \<times> unit header_value) list \<times> bytes, string \<times> unit header_value, unit) msg_api" where
  "pair_api = \<lparr>header_new = Pair, header_name = fst, header_value = snd,
     header_value_debug = (\<lambda>_. ''?''), msg_new = (\<lambda>p. ([], p)),
     msg_add_header = (\<lambda>m h. (fst m @ [h], snd m)), msg_headers = fst, msg_payload = snd\<rparr>"

lemma pair_api_simps [simp]:
  "header_new pair_api = Pair" "header_name pair_api = fst" "header_value pair_api = snd"
  "msg_new pair_api = (\<lambda>p. ([], p))" "msg_headers pair_api = fst" "msg_payload pair_api = snd"
  "msg_add_header pair_api = (\<lambda>m h. (fst m @ [h], snd m))"
  by (simp_all add: pair_api_def)

lemma msg_laws_pair_api [simp]: "msg_laws pair_api"
  by (simp add: msg_laws_def)

text \<open>A frame of the concrete message library with the three integer headers.\<close>

definition frame_of :: "message_type \<Rightarrow> i32 \<Rightarrow> i32 \<Rightarrow> bytes \<Rightarrow> (string \<times> unit header_value) list \<times> bytes" where
  "frame_of t fl sid body =
     ([(MESSAGE_TYPE, Int32 (message_type_as_i32 t)), (MESSAGE_FLAGS, Int32 fl), (STREAM_ID, Int32 sid)], body)"

lemma parse_frame_of [simp]:
  "parse pair_api (frame_of t fl sid body) = Inr \<lparr>message_type = t, flags = fl, stream_id = sid,
     service_model_type = None, payload = body\<rparr>"
  by (simp add: parse_correct frame_of_def well_typed_header_def header_int_ok_def)

lemma frame_of_inject [simp]:
  "frame_of t fl sid body = frame_of t' fl' sid' body' \<longleftrightarrow> t = t' \<and> fl = fl' \<and> sid = sid' \<and> body = body'"
  unfolding frame_of_def by (simp add: message_type_as_i32_inject)



end
