(* ===== verification/Framing.thy ===== *)
theory Framing
  imports Message
begin

text \<open>
  The byte level of \<open>src/connection.rs\<close>: \<open>FramedReader\<close> with \<open>next_frame\<close>, and the two ways a frame is
  written, \<open>write_frame\<close> and \<open>Connection::write_message\<close>. The frame codec
  (\<open>aws_smithy_eventstream::frame\<close>) is outside the repository: its encoder and its decoder are the
  fields of the argument \<open>codec\<close>, and \<open>codec_laws\<close> says what the code relies on. The socket is the
  environment: \<open>next_frame\<close> takes the results of the successive \<open>read_buf\<close> calls, a write takes its
  outcome.
\<close>

section \<open>The frame codec\<close>

datatype 'm decoded_frame = Complete 'm | Incomplete

text \<open>
  \<open>write_message_to\<close> gives the bytes of a frame or the text of its error; \<open>decode_frame\<close> takes the
  decoder and the buffer and returns what it found, the decoder and the buffer after it.
\<close>

record ('m, 'd) codec =
  write_message_to :: "'m \<Rightarrow> string + bytes"
  decoder_new :: 'd
  decode_frame :: "'d \<Rightarrow> bytes \<Rightarrow> (string + 'm decoded_frame) \<times> 'd \<times> bytes"

text \<open>
  The laws: \<open>held d\<close> are the bytes a decoder has taken from the buffer and not yet delivered. When
  these and the buffer begin with the encoding of a message, decoding delivers that message and leaves
  exactly the rest; when they are only a part of an encoding (or nothing), it asks for more and loses
  nothing.
\<close>

definition partial_frame :: "('m, 'd) codec \<Rightarrow> bytes \<Rightarrow> bool" where
  "partial_frame codec t \<longleftrightarrow>
     t = [] \<or> (\<exists>m missing. write_message_to codec m = Inr (t @ missing) \<and> missing \<noteq> [])"

definition codec_laws :: "('m, 'd) codec \<Rightarrow> ('d \<Rightarrow> bytes) \<Rightarrow> bool" where
  "codec_laws codec held \<longleftrightarrow>
     held (decoder_new codec) = [] \<and>
     (\<forall>d b m w rest. write_message_to codec m = Inr w \<longrightarrow> held d @ b = w @ rest \<longrightarrow>
        (\<exists>d'. decode_frame codec d b = (Inr (Complete m), d', rest) \<and> held d' = [])) \<and>
     (\<forall>d b. partial_frame codec (held d @ b) \<longrightarrow>
        (\<exists>d' b'. decode_frame codec d b = (Inr Incomplete, d', b') \<and> held d' @ b' = held d @ b))"

lemma partial_frame_prefix: "partial_frame codec (t @ u) \<Longrightarrow> partial_frame codec t"
  unfolding partial_frame_def by (metis append.assoc append_is_Nil_conv)

lemma codec_laws_new: "codec_laws codec held \<Longrightarrow> held (decoder_new codec) = []"
  by (simp add: codec_laws_def)

lemma codec_laws_complete:
  assumes "codec_laws codec held" "write_message_to codec m = Inr w" "held d @ b = w @ rest"
  obtains d' where "decode_frame codec d b = (Inr (Complete m), d', rest)" "held d' = []"
  using assms unfolding codec_laws_def by blast

lemma codec_laws_incomplete:
  assumes "codec_laws codec held" "partial_frame codec (held d @ b)"
  obtains d' b' where "decode_frame codec d b = (Inr Incomplete, d', b')" "held d' @ b' = held d @ b"
  using assms unfolding codec_laws_def by blast

section \<open>Reading frames\<close>

record 'd framed_reader =
  decoder :: 'd
  buf :: bytes

definition framed_reader_new :: "('m, 'd) codec \<Rightarrow> 'd framed_reader" where
  "framed_reader_new codec = \<lparr>decoder = decoder_new codec, buf = []\<rparr>"

text \<open>
  One result of \<open>read_buf\<close>: an I/O error, no bytes (end of file) or the bytes appended to the buffer.
  A script is the results of the coming calls; a read beyond the script is still waiting.
\<close>

type_synonym read_result = "io_error + bytes"

fun next_frame ::
  "('m, 'd) codec \<Rightarrow> 'd framed_reader \<Rightarrow> read_result list \<Rightarrow>
   (error + 'm option) poll \<times> 'd framed_reader \<times> read_result list" where
  "next_frame codec r reads =
     (case decode_frame codec (decoder r) (buf r) of
        (Inl text, d, b) \<Rightarrow> (Ready (Inl (error_frame text)), \<lparr>decoder = d, buf = b\<rparr>, reads)
      | (Inr (Complete message), d, b) \<Rightarrow>
          (Ready (Inr (Some message)), \<lparr>decoder = d, buf = b\<rparr>, reads)
      | (Inr Incomplete, d, b) \<Rightarrow>
          (case reads of
             [] \<Rightarrow> (Pending, \<lparr>decoder = d, buf = b\<rparr>, [])
           | Inl err # reads' \<Rightarrow> (Ready (Inl (from_io_error err)), \<lparr>decoder = d, buf = b\<rparr>, reads')
           | Inr chunk # reads' \<Rightarrow>
               (if length chunk = 0 then (Ready (Inr None), \<lparr>decoder = d, buf = b\<rparr>, reads')
                else next_frame codec \<lparr>decoder = d, buf = b @ chunk\<rparr> reads')))"

declare next_frame.simps [simp del]

text \<open>The bytes a reader has received and not yet delivered.\<close>

definition backlog :: "('d \<Rightarrow> bytes) \<Rightarrow> 'd framed_reader \<Rightarrow> bytes" where
  "backlog held r = held (decoder r) @ buf r"

lemma backlog_new [simp]: "codec_laws codec held \<Longrightarrow> backlog held (framed_reader_new codec) = []"
  by (simp add: backlog_def framed_reader_new_def codec_laws_new)

text \<open>
  If the backlog and the coming chunks begin with the encoding of a message, \<open>next_frame\<close> returns
  that message, and the backlog and chunks left over are exactly what followed it.
\<close>

lemma next_frame_complete:
  assumes "codec_laws codec held" "write_message_to codec m = Inr w"
    and "backlog held r @ concat chunks = w @ rest" "[] \<notin> set chunks"
  shows "\<exists>r' chunks'. next_frame codec r (map Inr chunks @ tail) =
           (Ready (Inr (Some m)), r', map Inr chunks' @ tail) \<and>
         backlog held r' @ concat chunks' = rest \<and> set chunks' \<subseteq> set chunks"
  using assms(3,4)
proof (induction chunks arbitrary: r)
  case Nil
  then obtain d' where "decode_frame codec (decoder r) (buf r) = (Inr (Complete m), d', rest)" "held d' = []"
    using codec_laws_complete [OF assms(1,2), of "decoder r" "buf r" rest]
    by (auto simp: backlog_def)
  then show ?case
    by (intro exI [of _ "\<lparr>decoder = d', buf = rest\<rparr>"] exI [of _ "[]"])
       (simp add: next_frame.simps backlog_def)
next
  case (Cons chunk chunks)
  from Cons.prems(1) [unfolded append_eq_append_conv2] obtain us
    where us: "backlog held r = w @ us \<and> us @ concat (chunk # chunks) = rest \<or>
      backlog held r @ us = w \<and> concat (chunk # chunks) = us @ rest" by blast
  consider
      (all) rest' where "backlog held r = w @ rest'" "rest' @ concat (chunk # chunks) = rest"
    | (part) missing where "w = backlog held r @ missing" "missing \<noteq> []"
    using us by (cases "us = []") fastforce+
  then show ?case
  proof cases
    case all
    then obtain d' where "decode_frame codec (decoder r) (buf r) = (Inr (Complete m), d', rest')" "held d' = []"
      using codec_laws_complete [OF assms(1,2), of "decoder r" "buf r" rest'] by (auto simp: backlog_def)
    with all(2) show ?thesis
      by (intro exI [of _ "\<lparr>decoder = d', buf = rest'\<rparr>"] exI [of _ "chunk # chunks"])
         (simp add: next_frame.simps backlog_def)
  next
    case part
    with assms(2) have "partial_frame codec (backlog held r)" by (auto simp: partial_frame_def)
    then obtain d' b' where inc: "decode_frame codec (decoder r) (buf r) = (Inr Incomplete, d', b')"
      and held: "held d' @ b' = backlog held r"
      using codec_laws_incomplete [OF assms(1), of "decoder r" "buf r"] by (auto simp: backlog_def)
    let ?r = "\<lparr>decoder = d', buf = b' @ chunk\<rparr>"
    have "backlog held ?r @ concat chunks = w @ rest"
      using Cons.prems(1) held by (simp add: backlog_def) (metis append.assoc)
    then obtain r' chunks' where "next_frame codec ?r (map Inr chunks @ tail) =
           (Ready (Inr (Some m)), r', map Inr chunks' @ tail)"
         "backlog held r' @ concat chunks' = rest" "set chunks' \<subseteq> set chunks"
      using Cons.IH [of ?r] Cons.prems(2) by auto
    moreover have "next_frame codec r (map Inr (chunk # chunks) @ tail) =
        next_frame codec ?r (map Inr chunks @ tail)"
      using inc Cons.prems(2) by (subst next_frame.simps) auto
    ultimately show ?thesis by auto
  qed
qed

text \<open>
  Input on which the decoder waits: \<open>P\<close> holds of every prefix, and on bytes with \<open>P\<close> the decoder asks for
  more and loses nothing. Such input is read completely and every byte is kept. The laws give it for
  the parts of a frame.
\<close>

definition waits_on :: "('m, 'd) codec \<Rightarrow> ('d \<Rightarrow> bytes) \<Rightarrow> (bytes \<Rightarrow> bool) \<Rightarrow> bool" where
  "waits_on codec held P \<longleftrightarrow>
     (\<forall>t u. P (t @ u) \<longrightarrow> P t) \<and>
     (\<forall>d b. P (held d @ b) \<longrightarrow>
        (\<exists>d' b'. decode_frame codec d b = (Inr Incomplete, d', b') \<and> held d' @ b' = held d @ b))"

lemma waits_onD:
  assumes "waits_on codec held P"
  shows "P (t @ u) \<Longrightarrow> P t"
    and "P (held d @ b) \<Longrightarrow>
      \<exists>d' b'. decode_frame codec d b = (Inr Incomplete, d', b') \<and> held d' @ b' = held d @ b"
  using assms unfolding waits_on_def by blast+

lemma waits_on_partial_frame: "codec_laws codec held \<Longrightarrow> waits_on codec held (partial_frame codec)"
  unfolding waits_on_def codec_laws_def by (blast intro: partial_frame_prefix)

lemma next_frame_waits:
  assumes "waits_on codec held P" and "P (backlog held r @ concat chunks)" "[] \<notin> set chunks"
  shows "\<exists>r'. backlog held r' = backlog held r @ concat chunks \<and>
     next_frame codec r (map Inr chunks @ tail) = next_frame codec r' tail"
  using assms(2,3)
proof (induction chunks arbitrary: r)
  case Nil
  then show ?case by auto
next
  case (Cons chunk chunks)
  from Cons.prems(1) have "P (backlog held r)" by (rule waits_onD(1) [OF assms(1)])
  then obtain d' b' where inc: "decode_frame codec (decoder r) (buf r) = (Inr Incomplete, d', b')"
      and held: "held d' @ b' = backlog held r"
    using waits_onD(2) [OF assms(1), of "decoder r" "buf r"] by (auto simp: backlog_def)
  let ?r = "\<lparr>decoder = d', buf = b' @ chunk\<rparr>"
  have b: "backlog held ?r = backlog held r @ chunk" using held by (simp add: backlog_def)
  have "next_frame codec r (map Inr (chunk # chunks) @ tail) =
      next_frame codec ?r (map Inr chunks @ tail)"
    using inc Cons.prems(2) by (subst next_frame.simps) auto
  then show ?case
    using Cons.IH [of ?r] Cons.prems b by simp
qed

text \<open>
  How a script can end after the frames: nothing more has arrived yet, the peer closed, or reading failed.
\<close>

fun ending_status :: "read_result list \<Rightarrow> (error + 'm option) poll" where
  "ending_status [] = Pending"
| "ending_status (Inl err # _) = Ready (Inl (Io err))"
| "ending_status (Inr _ # _) = Ready (Inr None)"

lemma next_frame_ending:
  assumes "waits_on codec held P" "P (backlog held r @ concat chunks)"
    and "[] \<notin> set chunks" "ending \<in> {[], [Inr []], [Inl err]}"
  shows "\<exists>r'. next_frame codec r (map Inr chunks @ ending) = (ending_status ending, r', []) \<and>
    backlog held r' = backlog held r @ concat chunks"
proof -
  obtain r1 where r1: "backlog held r1 = backlog held r @ concat chunks"
      "next_frame codec r (map Inr chunks @ ending) = next_frame codec r1 ending"
    using next_frame_waits [OF assms(1-3)] by blast
  obtain d b where "decode_frame codec (decoder r1) (buf r1) = (Inr Incomplete, d, b)"
      "held d @ b = backlog held r1"
    using waits_onD(2) [OF assms(1), of "decoder r1" "buf r1"] assms(2) r1(1)
    by (auto simp: backlog_def)
  then show ?thesis using r1 assms(4)
    by (intro exI [of _ "\<lparr>decoder = d, buf = b\<rparr>"])
       (auto simp: next_frame.simps [of codec r1] backlog_def)
qed

text \<open>
  The frames a loop around \<open>next_frame\<close> sees, and the result that ends it (or \<open>Pending\<close>). Each frame
  costs one unit of fuel.
\<close>

fun read_frames ::
  "('m, 'd) codec \<Rightarrow> nat \<Rightarrow> 'd framed_reader \<Rightarrow> read_result list \<Rightarrow>
   'm list \<times> (error + 'm option) poll" where
  "read_frames codec 0 r reads = ([], Pending)"
| "read_frames codec (Suc fuel) r reads =
     (case next_frame codec r reads of
        (Ready (Inr (Some m)), r', reads') \<Rightarrow>
          (let (ms, st) = read_frames codec fuel r' reads' in (m # ms, st))
      | (st, _, _) \<Rightarrow> ([], st))"

lemma read_frames_all:
  assumes "codec_laws codec held" "ending \<in> {[], [Inr []], [Inl err]}" "waits_on codec held P" "P part"
    and "map (write_message_to codec) ms = map Inr ws"
    and "backlog held r @ concat chunks = concat ws @ part" "[] \<notin> set chunks" "length ms < fuel"
  shows "read_frames codec fuel r (map Inr chunks @ ending) = (ms, ending_status ending)"
  using assms(5-)
proof (induction ms arbitrary: ws r chunks fuel)
  case Nil
  then obtain n where "fuel = Suc n" by (cases fuel) auto
  moreover obtain r' where "next_frame codec r (map Inr chunks @ ending) = (ending_status ending, r', [])"
    using next_frame_ending [OF assms(3) _ Nil.prems(3) assms(2)] Nil.prems(1,2) assms(4) by auto
  ultimately show ?case
    using assms(2) by auto
next
  case (Cons m ms)
  then obtain w ws' n where ws: "ws = w # ws'" "write_message_to codec m = Inr w" "fuel = Suc n"
      "map (write_message_to codec) ms = map Inr ws'" "length ms < n"
    by (cases ws; cases fuel) auto
  obtain r' chunks' where "next_frame codec r (map Inr chunks @ ending) =
           (Ready (Inr (Some m)), r', map Inr chunks' @ ending)"
      "backlog held r' @ concat chunks' = concat ws' @ part" "set chunks' \<subseteq> set chunks"
    using next_frame_complete [OF assms(1) ws(2), of r chunks "concat ws' @ part", where tail = ending]
      Cons.prems ws(1) by auto
  moreover have "read_frames codec n r' (map Inr chunks' @ ending) = (ms, ending_status ending)"
    using calculation(2,3) Cons.prems(3) ws(4,5) by (intro Cons.IH) auto
  ultimately show ?case using ws(3) by simp
qed

text \<open>
  C14. Chunking does not matter: for any sequence of encodable messages, however the socket cuts their
  concatenated encodings into non-empty chunks (inside a frame, several frames at once), the reader
  yields exactly those messages, in order. Trailing bytes that are only a part of a frame deliver
  nothing, and when the peer then closes, the result is \<open>Ok(None)\<close> whether or not such bytes were left.
\<close>

theorem frames_independent_of_chunking:
  assumes "codec_laws codec held"
    and "map (write_message_to codec) ms = map Inr ws" and "partial_frame codec part"
    and "concat chunks = concat ws @ part" and "[] \<notin> set chunks"
    and "ending \<in> {[], [Inr []], [Inl err]}"
  shows "read_frames codec (Suc (length ms)) (framed_reader_new codec) (map Inr chunks @ ending) =
           (ms, ending_status ending)"
  using assms(2-) by (intro read_frames_all [OF assms(1) _ waits_on_partial_frame [OF assms(1)]])
    (simp_all add: backlog_new [OF assms(1)])

text \<open>A concrete codec that satisfies the laws (one length byte, then the message), for the witnesses.\<close>

definition length_codec :: "(bytes, unit) codec" where
  "length_codec = \<lparr>
     write_message_to = (\<lambda>m. if length m < 256 then Inr (word_of_nat (length m) # m) else Inl ''too long''),
     decoder_new = (),
     decode_frame = (\<lambda>_ b. case b of
         [] \<Rightarrow> (Inr Incomplete, (), [])
       | n # r \<Rightarrow> if unat n \<le> length r then (Inr (Complete (take (unat n) r)), (), drop (unat n) r)
                 else (Inr Incomplete, (), b))\<rparr>"

lemma write_length_codec:
  "write_message_to length_codec m = Inr w \<longleftrightarrow> length m < 256 \<and> w = word_of_nat (length m) # m"
  by (auto simp: length_codec_def)

lemma write_length_codec_ok:
  "length m < 256 \<Longrightarrow> write_message_to length_codec m = Inr (word_of_nat (length m) # m)"
  by (simp add: length_codec_def)

lemma partial_length_codec:
  "partial_frame length_codec t \<longleftrightarrow> (case t of [] \<Rightarrow> True | n # r \<Rightarrow> length r < unat n)"
proof (cases t)
  case (Cons n r)
  have "\<exists>m missing. write_message_to length_codec m = Inr (t @ missing) \<and> missing \<noteq> []"
    if "length r < unat n"
  proof -
    let ?pad = "replicate (unat n - length r) (0 :: byte)"
    have "length (r @ ?pad) = unat n" "?pad \<noteq> []" using that by simp_all
    moreover have "unat n < 256" using unsigned_less [of n, where ?'a = nat] by simp
    ultimately have "write_message_to length_codec (r @ ?pad) = Inr (t @ ?pad)"
      using Cons by (simp add: write_length_codec)
    with \<open>?pad \<noteq> []\<close> show ?thesis by blast
  qed
  moreover have "length r < unat n"
    if "write_message_to length_codec m = Inr (t @ missing)" "missing \<noteq> []" for m missing
  proof -
    have "m = r @ missing" "length m < 256" "n = word_of_nat (length m)"
      using that(1) Cons by (auto simp: write_length_codec)
    then have "unat n = length m" using unat_byte_of_nat by blast
    with \<open>m = r @ missing\<close> have "unat n = length r + length missing" by simp
    with that(2) show ?thesis by simp
  qed
  ultimately show ?thesis using Cons by (auto simp: partial_frame_def)
qed (simp add: partial_frame_def)

lemma decode_length_codec:
  "decode_frame length_codec d [] = (Inr Incomplete, d, [])"
  "decode_frame length_codec d (n # r) =
     (if unat n \<le> length r then (Inr (Complete (take (unat n) r)), d, drop (unat n) r)
      else (Inr Incomplete, d, n # r))"
  by (simp_all add: length_codec_def)

lemma codec_laws_length_codec: "codec_laws length_codec (\<lambda>_. [])"
  unfolding codec_laws_def partial_length_codec write_length_codec
  by (auto simp: decode_length_codec split: list.splits)

theorem frames_independent_of_chunking_witness:
  "read_frames length_codec (Suc (Suc (Suc 0))) (framed_reader_new length_codec)
     (map Inr [[1], [0xAA, 2, 0xBB], [0xCC, 3, 0xDD]] @ [Inr []]) =
   ([[0xAA], [0xBB, 0xCC]], Ready (Inr None))"
  using frames_independent_of_chunking [OF codec_laws_length_codec,
      of "[[0xAA], [0xBB, 0xCC]]" "[[1, 0xAA], [2, 0xBB, 0xCC]]" "[3, 0xDD]"
         "[[1], [0xAA, 2, 0xBB], [0xCC, 3, 0xDD]]" "[Inr []]"]
  by (simp add: write_length_codec partial_length_codec del: read_frames.simps)

section \<open>Writing frames\<close>

text \<open>
  The write half of the socket: the bytes that have gone out, and whether it was shut down. A write
  (\<open>write_all\<close> then \<open>flush\<close>) either completes or fails with an I/O error after some of its bytes.
\<close>

record writer =
  wire :: bytes
  shut :: bool

datatype write_outcome = WriteOk | WriteErr nat io_error

definition socket_write :: "bytes \<Rightarrow> write_outcome \<Rightarrow> writer \<Rightarrow> (io_error + unit) \<times> writer" where
  "socket_write b out wr = (case out of
      WriteOk \<Rightarrow> (Inr (), wr\<lparr>wire := wire wr @ b\<rparr>)
    | WriteErr n err \<Rightarrow> (Inl err, wr\<lparr>wire := wire wr @ take n b\<rparr>))"

definition write_frame ::
  "('m, 'd) codec \<Rightarrow> 'm \<Rightarrow> write_outcome \<Rightarrow> writer \<Rightarrow> (error + unit) \<times> writer" where
  "write_frame codec message out wr = (case write_message_to codec message of
      Inl text \<Rightarrow> (Inl (error_frame text), wr)
    | Inr b \<Rightarrow> (case socket_write b out wr of
        (Inl err, wr') \<Rightarrow> (Inl (from_io_error err), wr')
      | (Inr _, wr') \<Rightarrow> (Inr (), wr')))"

definition write_message ::
  "('m, 'd) codec \<Rightarrow> 'm \<Rightarrow> write_outcome \<Rightarrow> writer \<Rightarrow> (error + unit) \<times> writer" where
  "write_message codec message out wr = (case write_message_to codec message of
      Inl text \<Rightarrow> (Inl (error_frame text), wr)
    | Inr b \<Rightarrow> (case socket_write b out wr of
        (Inl err, wr') \<Rightarrow> (Inl (from_io_error err), wr'\<lparr>shut := True\<rparr>)
      | (Inr _, wr') \<Rightarrow> (Inr (), wr')))"

text \<open>Successive writes; the first that fails shuts the socket down and ends the sequence.\<close>

fun write_messages ::
  "('m, 'd) codec \<Rightarrow> ('m \<times> write_outcome) list \<Rightarrow> writer \<Rightarrow> (error + unit) \<times> writer" where
  "write_messages codec [] wr = (Inr (), wr)"
| "write_messages codec ((m, out) # rest) wr = (case write_message codec m out wr of
      (Inl err, wr') \<Rightarrow> (Inl err, wr')
    | (Inr _, wr') \<Rightarrow> write_messages codec rest wr')"

lemma write_message_ok_iff:
  "write_message codec m out wr = (Inr (), wr') \<longleftrightarrow>
     out = WriteOk \<and> (\<exists>w. write_message_to codec m = Inr w \<and> wr' = wr\<lparr>wire := wire wr @ w\<rparr>)"
  by (auto simp: write_message_def socket_write_def split: sum.splits write_outcome.splits)

lemma write_messages_ok:
  "map (write_message_to codec) ms = map Inr ws \<Longrightarrow>
   write_messages codec (map (\<lambda>m. (m, WriteOk)) ms @ rest) wr =
   write_messages codec rest (wr\<lparr>wire := wire wr @ concat ws\<rparr>)"
proof (induction ms arbitrary: ws wr)
  case (Cons m ms)
  then obtain w ws' where ws: "ws = w # ws'" "write_message_to codec m = Inr w"
      "map (write_message_to codec) ms = map Inr ws'" by (cases ws) auto
  then have "write_message codec m WriteOk wr = (Inr (), wr\<lparr>wire := wire wr @ w\<rparr>)"
    by (auto simp: write_message_ok_iff)
  then show ?case using Cons.IH [OF ws(3)] ws(1) by simp
qed simp

text \<open>
  C28. A failed write never corrupts what the nucleus reads: after any number of complete messages,
  when a message fails before its last byte is out, the caller gets the I/O error, the write half is
  shut down, and a reader with the same codec, however the bytes are cut, gets exactly the complete
  messages and then end of file.
\<close>

theorem failed_write_leaves_whole_frames:
  assumes "codec_laws codec held"
    and "map (write_message_to codec) ms = map Inr ws" and "write_message_to codec m = Inr w"
    and "n < length w"
    and "write_messages codec (map (\<lambda>m. (m, WriteOk)) ms @ [(m, WriteErr n err)])
           \<lparr>wire = [], shut = False\<rparr> = (res, wr')"
    and "concat chunks = wire wr'" and "[] \<notin> set chunks"
  shows "res = Inl (Io err) \<and> shut wr' \<and>
    read_frames codec (Suc (length ms)) (framed_reader_new codec) (map Inr chunks @ [Inr []]) =
      (ms, Ready (Inr None))"
proof -
  have res: "res = Inl (Io err)" and wr': "wr' = \<lparr>wire = concat ws @ take n w, shut = True\<rparr>"
    using assms(3,5) by (auto simp: write_messages_ok [OF assms(2)] write_message_def socket_write_def)
  have "partial_frame codec (take n w)"
    unfolding partial_frame_def using assms(3,4)
    by (intro disjI2 exI [of _ m] exI [of _ "drop n w"]) simp
  then have "read_frames codec (Suc (length ms)) (framed_reader_new codec) (map Inr chunks @ [Inr []]) =
      (ms, ending_status [Inr []])"
    using assms(2,6,7) wr'
    by (intro read_frames_all [OF assms(1) _ waits_on_partial_frame [OF assms(1)]])
      (simp_all add: backlog_new [OF assms(1)])
  then show ?thesis using res wr' by simp
qed

theorem failed_write_leaves_whole_frames_witness:
  "read_frames length_codec (Suc (Suc 0)) (framed_reader_new length_codec) (map Inr [[1, 0xAA, 2], [0xBB]] @ [Inr []]) =
   ([[0xAA]], Ready (Inr None))"
  using failed_write_leaves_whole_frames [OF codec_laws_length_codec,
      of "[[0xAA]]" "[[1, 0xAA]]" "[0xBB, 0xCC]" "[2, 0xBB, 0xCC]" 2
         "\<lparr>io_kind = BrokenPipe, io_text = ''gone''\<rparr>" "Inl (Io \<lparr>io_kind = BrokenPipe, io_text = ''gone''\<rparr>)"
         "\<lparr>wire = [1, 0xAA, 2, 0xBB], shut = True\<rparr>" "[[1, 0xAA, 2], [0xBB]]"]
  by (simp add: write_length_codec_ok write_message_def socket_write_def del: read_frames.simps)

section \<open>A writer that is dropped\<close>

text \<open>
  A caller whose future is dropped while \<open>write_message\<close> awaits the socket: \<open>n\<close> bytes of the frame are
  out (none, when it was still waiting for the lock), and nothing after the await runs, the shutdown
  included. A message that cannot be encoded fails before the first await.
\<close>

definition drop_write :: "('m, 'd) codec \<Rightarrow> 'm \<Rightarrow> nat \<Rightarrow> writer \<Rightarrow> writer option" where
  "drop_write codec message n wr = (case write_message_to codec message of
      Inl _ \<Rightarrow> None
    | Inr b \<Rightarrow> Some (wr\<lparr>wire := wire wr @ take n b\<rparr>))"

text \<open>
  A codec whose frames state their length in their first \<open>k\<close> bytes (the prelude of the EventStream
  format): once these are there, the decoder waits for as many bytes as they state, whatever they are.
\<close>

definition length_prefixed :: "('m, 'd) codec \<Rightarrow> ('d \<Rightarrow> bytes) \<Rightarrow> nat \<Rightarrow> bool" where
  "length_prefixed codec held k \<longleftrightarrow>
     (\<forall>m w n x d b. write_message_to codec m = Inr w \<and> k \<le> n \<and> n < length w \<and>
        held d @ b = take n w @ x \<and> length (take n w @ x) < length w \<longrightarrow>
        (\<exists>d' b'. decode_frame codec d b = (Inr Incomplete, d', b') \<and> held d' @ b' = held d @ b))"

lemma length_prefixedD:
  assumes "length_prefixed codec held k" "write_message_to codec m = Inr w" "k \<le> n" "n < length w"
    and "held d @ b = take n w @ x" "length (held d @ b) < length w"
  shows "\<exists>d' b'. decode_frame codec d b = (Inr Incomplete, d', b') \<and> held d' @ b' = held d @ b"
  using assms unfolding length_prefixed_def by metis

definition inside_frame :: "('m, 'd) codec \<Rightarrow> bytes \<Rightarrow> nat \<Rightarrow> bytes \<Rightarrow> bool" where
  "inside_frame codec w n t \<longleftrightarrow> partial_frame codec t \<or> (\<exists>x. t = take n w @ x \<and> length t < length w)"

lemma waits_on_inside_frame:
  assumes "codec_laws codec held" "length_prefixed codec held k"
    and w: "write_message_to codec m = Inr w" and n: "k \<le> n" "n < length w"
  shows "waits_on codec held (inside_frame codec w n)"
  unfolding waits_on_def
proof (intro conjI allI impI)
  fix d b assume P: "inside_frame codec w n (held d @ b)"
  show "\<exists>d' b'. decode_frame codec d b = (Inr Incomplete, d', b') \<and> held d' @ b' = held d @ b"
  proof (cases "partial_frame codec (held d @ b)")
    case True
    then show ?thesis by (rule waits_onD(2) [OF waits_on_partial_frame [OF assms(1)]])
  next
    case False
    with P obtain x where "held d @ b = take n w @ x" "length (held d @ b) < length w"
      unfolding inside_frame_def by blast
    then show ?thesis by (rule length_prefixedD [OF assms(2) w n])
  qed
next
  fix t u assume P: "inside_frame codec w n (t @ u)"
  consider "partial_frame codec (t @ u)" | x where "t @ u = take n w @ x" "length (t @ u) < length w"
    using P unfolding inside_frame_def by blast
  then show "inside_frame codec w n t"
  proof cases
    case 1
    then show ?thesis by (auto simp: inside_frame_def intro: partial_frame_prefix)
  next
    case 2
    from 2(1) [unfolded append_eq_append_conv2] consider
        (beyond) y where "t = take n w @ y" | (within) y where "t @ y = take n w" by blast
    then show ?thesis
    proof cases
      case beyond
      then show ?thesis using 2(2) unfolding inside_frame_def by fastforce
    next
      case within
      then have "w = t @ y @ drop n w" by (metis append.assoc append_take_drop_id)
      moreover have "y @ drop n w \<noteq> []" using n(2) by simp
      ultimately show ?thesis using w unfolding inside_frame_def partial_frame_def by metis
    qed
  qed
qed


lemma length_prefixed_length_codec: "length_prefixed length_codec (\<lambda>_. []) 1"
  unfolding length_prefixed_def write_length_codec
proof (intro allI impI, elim conjE)
  fix m w x b :: bytes and n d
  assume w: "length m < 256" "w = word_of_nat (length m) # m" "1 \<le> n" "n < length w"
    and b: "[] @ b = take n w @ x" "length (take n w @ x) < length w"
  from w(2,3) b(1) obtain r where r: "b = word_of_nat (length m) # r"
    by (cases n) auto
  moreover have "length b < length w" using b by (metis append_Nil)
  then have "length r < length m" using r w(2) by simp
  ultimately show "\<exists>d' b'. decode_frame length_codec d b = (Inr Incomplete, d', b') \<and> [] @ b' = [] @ b"
    using w(1) by (simp add: decode_length_codec unat_byte_of_nat)
qed


text \<open>
  A second concrete codec, for messages of any type: a frame is the position of the message in a table
  and a zero byte.
\<close>

definition table_codec :: "'m list \<Rightarrow> ('m, unit) codec" where
  "table_codec table = \<lparr>
     write_message_to = (\<lambda>m. case index_of m table of
         None \<Rightarrow> Inl ''not encodable''
       | Some i \<Rightarrow> Inr [word_of_nat i, 0]),
     decoder_new = (),
     decode_frame = (\<lambda>_ b. case b of
         n # _ # r \<Rightarrow> (if unat n < length table then (Inr (Complete (table ! unat n)), (), r)
                      else (Inl ''bad frame'', (), b))
       | _ \<Rightarrow> (Inr Incomplete, (), b))\<rparr>"

lemma write_table_codec:
  "write_message_to (table_codec table) m = Inr w \<longleftrightarrow>
     (\<exists>i. index_of m table = Some i \<and> w = [word_of_nat i, 0])"
  by (auto simp: table_codec_def split: option.splits)

lemma codec_laws_table_codec:
  assumes "length table \<le> 256"
  shows "codec_laws (table_codec table) (\<lambda>_. [])"
proof -
  have "decode_frame (table_codec table) d (w @ rest) = (Inr (Complete m), d, rest)"
    if "write_message_to (table_codec table) m = Inr w" for d m w rest
    using that [unfolded write_table_codec] assms
    by (auto simp: table_codec_def dest!: index_of_SomeD)
  moreover have "decode_frame (table_codec table) d b = (Inr Incomplete, d, b)"
    if "partial_frame (table_codec table) b" for d b
    using that
    by (auto simp: partial_frame_def write_table_codec Cons_eq_append_conv append_eq_Cons_conv)
       (auto simp: table_codec_def)
  ultimately show ?thesis by (simp add: codec_laws_def)
qed

end
