(* ===== verification/Json.thy ===== *)
theory Json
  imports Errors
begin

text \<open>
  JSON documents and the serde attributes the crate's types carry. \<open>serde_json\<close> is outside the
  repository: writing a document as text, reading a text, and the text of a number are the fields of
  the argument \<open>js\<close>. The derived \<open>Serialize\<close> and \<open>Deserialize\<close> instances are what the attributes in the
  source declare (\<open>rename\<close>, \<open>default\<close>, \<open>skip_serializing_if\<close>); the combinators below spell that out, so
  that a type's instance is one equation naming its fields. Which of several data errors a reader
  reports is not modelled: they all are \<open>json_data_error\<close>.
\<close>

section \<open>Documents and the JSON library\<close>

text \<open>A number is kept as its text; the members of an object in the order they stand.\<close>

datatype json =
    JNull | JBool bool | JNum string | JStr string | JArr "json list" | JObj "(string \<times> json) list"

record json_api =
  json_text :: "json \<Rightarrow> json_error + bytes"
  json_read :: "bytes \<Rightarrow> json_error + json"
  json_data_error :: json_error
  f64_text :: "64 word \<Rightarrow> string"

definition to_vec :: "json_api \<Rightarrow> json \<Rightarrow> json_error + bytes" where
  "to_vec js doc = json_text js doc"

definition from_slice :: "json_api \<Rightarrow> (json \<Rightarrow> json_error + 'a) \<Rightarrow> bytes \<Rightarrow> json_error + 'a" where
  "from_slice js de text = (case json_read js text of Inl e \<Rightarrow> Inl e | Inr doc \<Rightarrow> de doc)"

section \<open>Serializing\<close>

text \<open>A member that is always written, and one with \<open>skip_serializing_if = "Option::is_none"\<close>.\<close>

definition ser_member :: "string \<Rightarrow> json \<Rightarrow> (string \<times> json) list" where
  "ser_member name doc = [(name, doc)]"

definition ser_opt_member :: "string \<Rightarrow> ('a \<Rightarrow> json) \<Rightarrow> 'a option \<Rightarrow> (string \<times> json) list" where
  "ser_opt_member name ser v = (case v of None \<Rightarrow> [] | Some x \<Rightarrow> [(name, ser x)])"

definition ser_i64 :: "i64 \<Rightarrow> json" where
  "ser_i64 v = JNum (show_int (sint v))"

text \<open>A \<open>f64\<close> is its IEEE 754 bits; the ones that are no finite number are written as \<open>null\<close>.\<close>

definition f64_finite :: "64 word \<Rightarrow> bool" where
  "f64_finite v \<longleftrightarrow> v AND 0x7FF0000000000000 \<noteq> 0x7FF0000000000000"

definition ser_f64 :: "json_api \<Rightarrow> 64 word \<Rightarrow> json" where
  "ser_f64 js v = (if f64_finite v then JNum (f64_text js v) else JNull)"

definition ser_strings :: "string list \<Rightarrow> json" where
  "ser_strings ss = JArr (map JStr ss)"

section \<open>Deserializing\<close>

definition de_string :: "json_api \<Rightarrow> json \<Rightarrow> json_error + string" where
  "de_string js doc = (case doc of JStr s \<Rightarrow> Inr s | _ \<Rightarrow> Inl (json_data_error js))"

definition de_bool :: "json_api \<Rightarrow> json \<Rightarrow> json_error + bool" where
  "de_bool js doc = (case doc of JBool b \<Rightarrow> Inr b | _ \<Rightarrow> Inl (json_data_error js))"

definition de_value :: "json_api \<Rightarrow> json \<Rightarrow> json_error + json" where
  "de_value js doc = Inr doc"

definition de_option :: "(json \<Rightarrow> json_error + 'a) \<Rightarrow> json \<Rightarrow> json_error + 'a option" where
  "de_option de doc = (case doc of
      JNull \<Rightarrow> Inr None
    | _ \<Rightarrow> (case de doc of Inl e \<Rightarrow> Inl e | Inr v \<Rightarrow> Inr (Some v)))"

fun de_list :: "(json \<Rightarrow> json_error + 'a) \<Rightarrow> json list \<Rightarrow> json_error + 'a list" where
  "de_list de [] = Inr []"
| "de_list de (doc # docs) = (case de doc of
      Inl e \<Rightarrow> Inl e
    | Inr v \<Rightarrow> (case de_list de docs of Inl e \<Rightarrow> Inl e | Inr vs \<Rightarrow> Inr (v # vs)))"

definition de_strings :: "json_api \<Rightarrow> json \<Rightarrow> json_error + string list" where
  "de_strings js doc = (case doc of
      JArr docs \<Rightarrow> de_list (de_string js) docs
    | _ \<Rightarrow> Inl (json_data_error js))"

text \<open>
  A struct is read from an object, whose members of other names are skipped and whose own members
  must not repeat, or from an array that lists its fields in order. The fields found are a lookup
  function; \<open>positional\<close> tells the two forms apart where an absent field is treated differently.
\<close>

record fields =
  positional :: bool
  field :: "string \<Rightarrow> json option"

definition de_struct :: "json_api \<Rightarrow> string list \<Rightarrow> json \<Rightarrow> json_error + fields" where
  "de_struct js names doc = (case doc of
      JObj members \<Rightarrow>
        (if distinct (filter (\<lambda>k. k \<in> set names) (map fst members))
         then Inr \<lparr>positional = False, field = map_of members\<rparr>
         else Inl (json_data_error js))
    | JArr docs \<Rightarrow>
        (if length docs \<le> length names
         then Inr \<lparr>positional = True, field = map_of (zip names docs)\<rparr>
         else Inl (json_data_error js))
    | _ \<Rightarrow> Inl (json_data_error js))"

text \<open>
  A required field; a field with the \<open>default\<close> attribute; an \<open>Option\<close> field without it, which may
  be absent from an object but not from an array.
\<close>

definition de_field :: "json_api \<Rightarrow> (json \<Rightarrow> json_error + 'a) \<Rightarrow> string \<Rightarrow> fields \<Rightarrow> json_error + 'a" where
  "de_field js de name fs = (case field fs name of None \<Rightarrow> Inl (json_data_error js) | Some doc \<Rightarrow> de doc)"

definition de_default_field ::
  "'a \<Rightarrow> (json \<Rightarrow> json_error + 'a) \<Rightarrow> string \<Rightarrow> fields \<Rightarrow> json_error + 'a" where
  "de_default_field d de name fs = (case field fs name of None \<Rightarrow> Inr d | Some doc \<Rightarrow> de doc)"

definition de_option_field ::
  "json_api \<Rightarrow> (json \<Rightarrow> json_error + 'a) \<Rightarrow> string \<Rightarrow> fields \<Rightarrow> json_error + 'a option" where
  "de_option_field js de name fs = (case field fs name of
      None \<Rightarrow> if positional fs then Inl (json_data_error js) else Inr None
    | Some doc \<Rightarrow> de_option de doc)"

lemmas serde_defs =
  ser_member_def ser_opt_member_def ser_i64_def ser_f64_def ser_strings_def
  de_string_def de_bool_def de_value_def de_option_def de_strings_def
  de_struct_def de_field_def de_default_field_def de_option_field_def

lemma de_list_strings [simp]: "de_list (de_string js) (map JStr ss) = Inr ss"
  by (induction ss) (simp_all add: de_string_def)

lemma de_strings_ser [simp]: "de_strings js (ser_strings ss) = Inr ss"
  by (simp add: de_strings_def ser_strings_def)

text \<open>Reading back a text the library wrote: the documented round trip, where a property needs it.\<close>

definition json_roundtrip :: "json_api \<Rightarrow> bool" where
  "json_roundtrip js \<longleftrightarrow> (\<forall>doc text. json_text js doc = Inr text \<longrightarrow> json_read js text = Inr doc)"

lemma from_slice_to_vec:
  "json_roundtrip js \<Longrightarrow> to_vec js doc = Inr text \<Longrightarrow> from_slice js de text = de doc"
  by (simp add: json_roundtrip_def to_vec_def from_slice_def)

section \<open>Structs and unknown members\<close>

text \<open>
  What a struct reads of an object: the order of the members and the members of other names do not
  matter. The fields of \<open>names\<close> are all that \<open>de_struct js names\<close> tells apart.
\<close>

definition known_members :: "string list \<Rightarrow> (string \<times> json) list \<Rightarrow> (string \<times> json) list" where
  "known_members names members = filter (\<lambda>m. fst m \<in> set names) members"

lemma map_of_known_members:
  "name \<in> set names \<Longrightarrow> map_of (known_members names members) name = map_of members name"
  by (induction members) (auto simp: known_members_def)

lemma distinct_known_members:
  "distinct (map fst (known_members names members)) \<longleftrightarrow>
   distinct (filter (\<lambda>k. k \<in> set names) (map fst members))"
  by (simp add: known_members_def filter_map comp_def)

text \<open>Reading one field, in the three ways, of an object without repeated fields.\<close>

lemma de_struct_JObj:
  "de_struct js names (JObj members) =
     (if distinct (map fst (known_members names members))
      then Inr \<lparr>positional = False, field = map_of members\<rparr> else Inl (json_data_error js))"
  by (simp add: de_struct_def distinct_known_members)

section \<open>Blobs\<close>

text \<open>
  The base64 crate is outside the repository: its standard engine is a parameter. Decoding takes the
  bytes of a string; its errors become data errors of the JSON reader.
\<close>

record base64_api =
  b64_encode :: "bytes \<Rightarrow> string"
  b64_decode :: "bytes \<Rightarrow> string + bytes"

definition base64_roundtrip :: "base64_api \<Rightarrow> bool" where
  "base64_roundtrip b64 \<longleftrightarrow> (\<forall>b. b64_decode b64 (bytes_of_str (b64_encode b64 b)) = Inr b)"

lemma b64_encode_inject:
  "base64_roundtrip b64 \<Longrightarrow> b64_encode b64 a = b64_encode b64 b \<longleftrightarrow> a = b"
  unfolding base64_roundtrip_def by (metis sum.inject(2))

text \<open>A concrete engine that satisfies the law (the bytes themselves), for the witnesses.\<close>

definition plain_engine :: base64_api where
  "plain_engine = \<lparr>b64_encode = str_of_bytes, b64_decode = Inr\<rparr>"

lemma base64_roundtrip_plain_engine [simp]: "base64_roundtrip plain_engine"
  by (simp add: base64_roundtrip_def plain_engine_def)

text \<open>
  A concrete JSON library that satisfies it, for the witnesses: the text of a document is its position
  in a table.
\<close>

definition table_json :: "json list \<Rightarrow> json_api" where
  "table_json table = \<lparr>
     json_text = (\<lambda>doc. case index_of doc table of
         None \<Rightarrow> Inl (JsonError ''key must be a string'')
       | Some i \<Rightarrow> Inr [word_of_nat i]),
     json_read = (\<lambda>text. case text of
         [n] \<Rightarrow> if unat n < length table then Inr (table ! unat n) else Inl (JsonError ''expected value'')
       | _ \<Rightarrow> Inl (JsonError ''expected value'')),
     json_data_error = JsonError ''invalid type'',
     f64_text = (\<lambda>v. show_nat (unat v))\<rparr>"

lemma table_json_roundtrip: "length table \<le> 256 \<Longrightarrow> json_roundtrip (table_json table)"
  by (auto simp: json_roundtrip_def table_json_def split: option.splits dest!: index_of_SomeD)

end
