(* ===== verification/Registry.thy ===== *)
theory Registry
  imports Json Message
begin

text \<open>
  The demultiplexer of \<open>src/connection.rs\<close>: the registry that maps stream ids to waiting sinks, and
  \<open>dispatch\<close>, \<open>fail_all\<close> and \<open>service_error_from\<close>, which act on it. A sink holds the sending half of
  a tokio channel. Channels are outside the repository, so a channel is an identity (a number), and
  the calls the code makes on senders (a send, or dropping one unsent) are recorded in order as
  \<open>effect\<close>s; nothing is assumed about what tokio makes of them.
\<close>

section \<open>Sinks, registry and effects\<close>

type_synonym chan = nat

type_synonym delivery = "error + rpc_message"

datatype stream_sink = Request chan | Subscription chan

type_synonym registry = "(i32, stream_sink) hashmap"

datatype effect =
    OneshotSend chan delivery
  | MpscSend chan delivery
  | SenderDrop chan

primrec sink_chan :: "stream_sink \<Rightarrow> chan" where
  "sink_chan (Request c) = c"
| "sink_chan (Subscription c) = c"

primrec effect_chan :: "effect \<Rightarrow> chan" where
  "effect_chan (OneshotSend c d) = c"
| "effect_chan (MpscSend c d) = c"
| "effect_chan (SenderDrop c) = c"

primrec sink_send :: "stream_sink \<Rightarrow> delivery \<Rightarrow> effect" where
  "sink_send (Request c) d = OneshotSend c d"
| "sink_send (Subscription c) d = MpscSend c d"

lemma effect_chan_sink_send [simp]: "effect_chan (sink_send s d) = sink_chan s"
  by (cases s) simp_all

text \<open>
  \<open>registry.lock().insert(id, sink)\<close> and \<open>registry.lock().remove(&id)\<close>: a sink that is overwritten or
  removed drops its sender.
\<close>

definition reg_insert :: "i32 \<Rightarrow> stream_sink \<Rightarrow> registry \<Rightarrow> registry \<times> effect list" where
  "reg_insert sid sink reg =
     (hm_insert sid sink reg,
      (case hm_get sid reg of None \<Rightarrow> [] | Some old \<Rightarrow> [SenderDrop (sink_chan old)]))"

definition reg_remove :: "i32 \<Rightarrow> registry \<Rightarrow> registry \<times> effect list" where
  "reg_remove sid reg =
     (hm_remove sid reg,
      (case hm_get sid reg of None \<Rightarrow> [] | Some old \<Rightarrow> [SenderDrop (sink_chan old)]))"

section \<open>Service errors\<close>

record service_error_payload =
  sep_message :: "string option"

definition de_service_error_payload :: "json_api \<Rightarrow> json \<Rightarrow> json_error + service_error_payload" where
  "de_service_error_payload js doc = (case de_struct js [''message''] doc of
      Inl e \<Rightarrow> Inl e
    | Inr fs \<Rightarrow> (case de_option_field js (de_string js) ''message'' fs of
        Inl e \<Rightarrow> Inl e
      | Inr m \<Rightarrow> Inr \<lparr>sep_message = m\<rparr>))"

definition service_error_from :: "json_api \<Rightarrow> rpc_message \<Rightarrow> error" where
  "service_error_from js rpc =
     (let model = (case service_model_type rpc of
                     None \<Rightarrow> ''aws.greengrass#ServiceError'' | Some m \<Rightarrow> m);
          message = (case from_slice js (de_service_error_payload js) (payload rpc) of
                     Inl _ \<Rightarrow> ''unknown service error''
                   | Inr p \<Rightarrow> (case sep_message p of
                       None \<Rightarrow> ''unknown service error'' | Some m \<Rightarrow> m))
      in Service model message)"

section \<open>Dispatch\<close>

definition dispatch :: "json_api \<Rightarrow> rpc_message \<Rightarrow> registry \<Rightarrow> registry \<times> effect list" where
  "dispatch js rpc reg =
     (let sid = stream_id rpc;
          terminates = terminates_stream rpc;
          is_error = (message_type rpc = ApplicationError);
          reg' = hm_remove sid reg
      in case hm_get sid reg of
        Some (Request tx) \<Rightarrow>
          (let result = (if is_error then Inl (service_error_from js rpc) else Inr rpc)
           in (reg', [OneshotSend tx result]))
      | Some (Subscription tx) \<Rightarrow>
          (let result = (if is_error then Inl (service_error_from js rpc) else Inr rpc)
           in if \<not> terminates \<and> \<not> is_error
              then (hm_insert sid (Subscription tx) reg', [MpscSend tx result])
              else (reg', [MpscSend tx result, SenderDrop tx]))
      | None \<Rightarrow> (reg', []))"

text \<open>The \<open>debug_assert_ne!\<close> at its head.\<close>

definition dispatch_assertion :: "rpc_message \<Rightarrow> bool" where
  "dispatch_assertion rpc \<longleftrightarrow> stream_id rpc \<noteq> 0"

definition fail_sink :: "error \<Rightarrow> i32 \<times> stream_sink \<Rightarrow> effect list" where
  "fail_sink err entry = (case snd entry of
      Request tx \<Rightarrow> [OneshotSend tx (Inl err)]
    | Subscription tx \<Rightarrow> [MpscSend tx (Inl err), SenderDrop tx])"

definition fail_all :: "error \<Rightarrow> registry \<Rightarrow> registry \<times> effect list" where
  "fail_all err reg = ([], concat (map (fail_sink err) reg))"

section \<open>The abstract demultiplexer\<close>

text \<open>
  The specification: a partial map from stream ids to sinks. A message goes to the sink of its stream
  and to nobody else; an application error goes out as the service error it describes; the sink is
  forgotten unless it is a subscription and the message neither ends the stream nor is an error.
\<close>

definition delivery_of :: "json_api \<Rightarrow> rpc_message \<Rightarrow> delivery" where
  "delivery_of js rpc =
     (if message_type rpc = ApplicationError then Inl (service_error_from js rpc) else Inr rpc)"

definition sink_stays :: "stream_sink \<Rightarrow> rpc_message \<Rightarrow> bool" where
  "sink_stays s rpc \<longleftrightarrow> s \<in> range Subscription \<and> \<not> terminates_stream rpc \<and>
     message_type rpc \<noteq> ApplicationError"

definition abs_registry :: "registry \<Rightarrow> (i32 \<rightharpoonup> stream_sink)" where
  "abs_registry reg = (\<lambda>k. hm_get k reg)"

definition abs_dispatch ::
  "json_api \<Rightarrow> rpc_message \<Rightarrow> (i32 \<rightharpoonup> stream_sink) \<Rightarrow> (i32 \<rightharpoonup> stream_sink) \<times> effect list" where
  "abs_dispatch js rpc m = (case m (stream_id rpc) of
      None \<Rightarrow> (m, [])
    | Some s \<Rightarrow>
        (if sink_stays s rpc then (m, [sink_send s (delivery_of js rpc)])
         else (m(stream_id rpc := None),
               sink_send s (delivery_of js rpc) #
               (if s \<in> range Subscription then [SenderDrop (sink_chan s)] else []))))"

lemma dispatch_eq:
  "dispatch js rpc reg = (case hm_get (stream_id rpc) reg of
      None \<Rightarrow> (reg, [])
    | Some s \<Rightarrow>
        (if sink_stays s rpc
         then (hm_insert (stream_id rpc) s (hm_remove (stream_id rpc) reg), [sink_send s (delivery_of js rpc)])
         else (hm_remove (stream_id rpc) reg,
               sink_send s (delivery_of js rpc) #
               (if s \<in> range Subscription then [SenderDrop (sink_chan s)] else []))))"
  by (auto simp: dispatch_def Let_def delivery_of_def sink_stays_def hm_remove_absent
      split: option.splits stream_sink.splits)

lemma dispatch_wf [simp]: "hm_wf reg \<Longrightarrow> hm_wf (fst (dispatch js rpc reg))"
  by (simp add: dispatch_eq split: option.splits)

lemma set_dispatch: "hm_wf reg \<Longrightarrow> set (fst (dispatch js rpc reg)) \<subseteq> set reg"
  by (auto simp: dispatch_eq set_hm_insert set_hm_remove split: option.splits dest: hm_get_SomeD)

text \<open>
  Refinement: \<open>dispatch\<close> on the hash map does what the specification does on the partial map,
  with the same calls on the senders; it touches no stream but the message's own.
\<close>

theorem dispatch_refines_spec:
  "abs_dispatch js rpc (abs_registry reg) =
     (abs_registry (fst (dispatch js rpc reg)), snd (dispatch js rpc reg))"
  by (auto simp: abs_dispatch_def abs_registry_def dispatch_eq fun_eq_iff split: option.splits)

section \<open>What reaches a channel\<close>

definition chan_events :: "chan \<Rightarrow> effect list \<Rightarrow> effect list" where
  "chan_events c log = filter (\<lambda>e. effect_chan e = c) log"

lemma chan_events_simps [simp]:
  "chan_events c [] = []"
  "chan_events c (xs @ ys) = chan_events c xs @ chan_events c ys"
  "chan_events c (e # xs) = (if effect_chan e = c then e # chan_events c xs else chan_events c xs)"
  by (simp_all add: chan_events_def)

lemma chan_events_eq_Nil: "chan_events c log = [] \<longleftrightarrow> (\<forall>e \<in> set log. effect_chan e \<noteq> c)"
  by (auto simp: chan_events_def filter_empty_conv)

lemma chan_events_fail_sink:
  "chan_events c (fail_sink err entry) =
     (if sink_chan (snd entry) = c then fail_sink err entry else [])"
  by (auto simp: fail_sink_def split: stream_sink.splits)

lemma chan_events_fail_all_absent:
  "c \<notin> (sink_chan \<circ> snd) ` set reg \<Longrightarrow> chan_events c (snd (fail_all err reg)) = []"
  by (induction reg) (auto simp: fail_all_def chan_events_fail_sink)

lemma chan_events_fail_all_present:
  "distinct (map (sink_chan \<circ> snd) reg) \<Longrightarrow> (sid, s) \<in> set reg \<Longrightarrow>
   chan_events (sink_chan s) (snd (fail_all err reg)) = fail_sink err (sid, s)"
proof (induction reg)
  case (Cons entry reg)
  have rest: "snd (fail_all err (entry # reg)) = fail_sink err entry @ snd (fail_all err reg)"
    by (simp add: fail_all_def)
  show ?case
  proof (cases "entry = (sid, s)")
    case True
    then have "chan_events (sink_chan s) (snd (fail_all err reg)) = []"
      using Cons.prems(1) by (intro chan_events_fail_all_absent) auto
    then show ?thesis unfolding rest using True by (simp add: chan_events_fail_sink)
  next
    case False
    then have "(sid, s) \<in> set reg" using Cons.prems(2) by auto
    moreover have "sink_chan (snd entry) \<noteq> sink_chan s"
      using calculation Cons.prems(1) by (force simp: image_iff)
    ultimately show ?thesis unfolding rest
      using Cons by (simp add: chan_events_fail_sink)
  qed
qed simp

text \<open>
  When the connection fails, every registered sink is told, exactly once and in whatever order
  the hash map is drained: its channel gets the error and, if it is a subscription, its sender is
  then dropped; no other channel gets anything, and the registry is empty.
\<close>

theorem fail_all_tells_everyone_once:
  assumes "distinct (map (sink_chan \<circ> snd) reg)" and "mset drained = mset reg"
  shows "fst (fail_all err drained) = [] \<and>
     (\<forall>(sid, s) \<in> set reg. chan_events (sink_chan s) (snd (fail_all err drained)) =
        sink_send s (Inl err) # (if s \<in> range Subscription then [SenderDrop (sink_chan s)] else [])) \<and>
     (\<forall>c. c \<notin> (sink_chan \<circ> snd) ` set reg \<longrightarrow> chan_events c (snd (fail_all err drained)) = [])"
proof -
  have same: "set drained = set reg" using assms(2) by (rule mset_eq_setD)
  have "mset (map (sink_chan \<circ> snd) drained) = mset (map (sink_chan \<circ> snd) reg)"
    using assms(2) by (simp add: mset_map)
  then have dist: "distinct (map (sink_chan \<circ> snd) drained)"
    using assms(1) by (metis mset_eq_imp_distinct_iff)
  have shape: "fail_sink err (sid, s) =
      sink_send s (Inl err) # (if s \<in> range Subscription then [SenderDrop (sink_chan s)] else [])"
    for sid s by (cases s) (auto simp: fail_sink_def)
  have "\<forall>(sid, s) \<in> set reg. chan_events (sink_chan s) (snd (fail_all err drained)) = fail_sink err (sid, s)"
    using chan_events_fail_all_present [OF dist] same by blast
  then show ?thesis
    using same chan_events_fail_all_absent [of _ drained err]
    by (simp add: shape fail_all_def)
qed

theorem fail_all_tells_everyone_once_witness:
  "chan_events 7 (snd (fail_all ConnectionClosed [(2, Subscription 7), (1, Request 4)])) =
     [MpscSend 7 (Inl ConnectionClosed), SenderDrop 7]"
  using fail_all_tells_everyone_once [of "[(1, Request 4), (2, Subscription 7)]"
      "[(2, Subscription 7), (1, Request 4)]" ConnectionClosed] by simp

section \<open>What a registry operation may do to a stream\<close>

text \<open>
  The contract every operation on the registry keeps towards the streams it finds there. A stream that
  stays registered is sent at most one message, which leaves it open; one that goes gets its last
  delivery or none, and a subscription's sender is dropped. Messages delivered belong to the stream
  and are never application errors, which go out as errors.
\<close>

definition delivery_ok :: "i32 \<Rightarrow> delivery \<Rightarrow> bool" where
  "delivery_ok sid d = (case d of
      Inl _ \<Rightarrow> True | Inr rpc \<Rightarrow> stream_id rpc = sid \<and> message_type rpc \<noteq> ApplicationError)"

definition open_message :: "i32 \<Rightarrow> rpc_message \<Rightarrow> bool" where
  "open_message sid rpc \<longleftrightarrow>
     stream_id rpc = sid \<and> message_type rpc \<noteq> ApplicationError \<and> \<not> terminates_stream rpc"

fun final_events :: "i32 \<Rightarrow> stream_sink \<Rightarrow> effect list \<Rightarrow> bool" where
  "final_events sid (Request c) [OneshotSend c' d] \<longleftrightarrow> c' = c \<and> delivery_ok sid d"
| "final_events sid (Subscription c) [MpscSend c' d, SenderDrop c''] \<longleftrightarrow>
     c' = c \<and> c'' = c \<and> delivery_ok sid d"
| "final_events sid sink [SenderDrop c'] \<longleftrightarrow> c' = sink_chan sink"
| "final_events sid sink _ \<longleftrightarrow> False"

definition sink_step :: "i32 \<Rightarrow> stream_sink \<Rightarrow> bool \<Rightarrow> effect list \<Rightarrow> bool" where
  "sink_step sid sink stays evs \<longleftrightarrow>
     (if stays then
        evs = [] \<or> (\<exists>rpc. sink \<in> range Subscription \<and> open_message sid rpc \<and> evs = [sink_send sink (Inr rpc)])
      else final_events sid sink evs)"

text \<open>The events of a stream's channel so far, while it is registered and after.\<close>

definition history :: "i32 \<Rightarrow> stream_sink \<Rightarrow> bool \<Rightarrow> effect list \<Rightarrow> bool" where
  "history sid sink registered evs \<longleftrightarrow>
     (\<exists>opens fin. evs = map (\<lambda>rpc. sink_send sink (Inr rpc)) opens @ fin \<and>
        list_all (open_message sid) opens \<and> (opens \<noteq> [] \<longrightarrow> sink \<in> range Subscription) \<and>
        (if registered then fin = [] else final_events sid sink fin))"

lemma history_new: "history sid sink True []"
  by (auto simp: history_def)

lemma history_step:
  assumes "history sid sink True evs" "sink_step sid sink stays new"
  shows "history sid sink stays (evs @ new)"
proof -
  obtain opens where opens: "evs = map (\<lambda>rpc. sink_send sink (Inr rpc)) opens"
    "list_all (open_message sid) opens" "opens \<noteq> [] \<longrightarrow> sink \<in> range Subscription"
    using assms(1) by (auto simp: history_def)
  show ?thesis
  proof (cases stays)
    case False
    then show ?thesis using assms(2) opens unfolding history_def sink_step_def
      by (intro exI [of _ opens] exI [of _ new]) auto
  next
    case True
    then consider "new = []" | rpc where "sink \<in> range Subscription" "open_message sid rpc"
        "new = [sink_send sink (Inr rpc)]"
      using assms(2) by (auto simp: sink_step_def)
    then show ?thesis
    proof cases
      case 1
      then show ?thesis using assms(1) True by simp
    next
      case 2
      then show ?thesis using opens True unfolding history_def
        by (intro exI [of _ "opens @ [rpc]"] exI [of _ "[]"]) auto
    qed
  qed
qed

lemma final_events_not_Nil: "final_events sid sink evs \<Longrightarrow> evs \<noteq> []"
  by (cases "(sid, sink, evs)" rule: final_events.cases) auto

definition reg_chans :: "registry \<Rightarrow> chan set" where
  "reg_chans reg = (sink_chan \<circ> snd) ` set reg"

definition chans_distinct :: "registry \<Rightarrow> bool" where
  "chans_distinct reg \<longleftrightarrow> distinct (map (sink_chan \<circ> snd) reg)"

locale registry_op =
  fixes rop :: "registry \<Rightarrow> registry \<times> effect list"
  assumes rop_wf: "hm_wf reg \<Longrightarrow> hm_wf (fst (rop reg))"
    and rop_subset: "hm_wf reg \<Longrightarrow> set (fst (rop reg)) \<subseteq> set reg"
    and rop_untouched: "c \<notin> reg_chans reg \<Longrightarrow> chan_events c (snd (rop reg)) = []"
    and rop_told: "hm_wf reg \<Longrightarrow> chans_distinct reg \<Longrightarrow> (sid, sink) \<in> set reg \<Longrightarrow>
      sink_step sid sink ((sid, sink) \<in> set (fst (rop reg))) (chan_events (sink_chan sink) (snd (rop reg)))"
begin

text \<open>A stream's history stays one, registered or not.\<close>

lemma rop_history:
  assumes "hm_wf reg" "chans_distinct reg"
    and "history sid sink ((sid, sink) \<in> set reg) evs"
    and "(sid, sink) \<notin> set reg \<Longrightarrow> sink_chan sink \<notin> reg_chans reg"
  shows "history sid sink ((sid, sink) \<in> set (fst (rop reg)))
    (evs @ chan_events (sink_chan sink) (snd (rop reg)))"
proof (cases "(sid, sink) \<in> set reg")
  case True
  then show ?thesis using rop_told [OF assms(1,2) True] assms(3) by (auto intro: history_step)
next
  case False
  then have "(sid, sink) \<notin> set (fst (rop reg))" using rop_subset [OF assms(1)] by blast
  then show ?thesis using False assms(3,4) rop_untouched by simp
qed

lemma rop_effects_registered: "e \<in> set (snd (rop reg)) \<Longrightarrow> effect_chan e \<in> reg_chans reg"
  using rop_untouched [of "effect_chan e" reg] by (auto simp: chan_events_eq_Nil)

end

lemma sink_chan_inject: "chans_distinct reg \<Longrightarrow> (a, s) \<in> set reg \<Longrightarrow> (b, t) \<in> set reg \<Longrightarrow>
   sink_chan s = sink_chan t \<Longrightarrow> (a, s) = (b, t)"
  using inj_onD [of "sink_chan \<circ> snd" "set reg" "(a, s)" "(b, t)"]
  by (simp add: chans_distinct_def distinct_map)

lemma other_chan: "chans_distinct reg \<Longrightarrow> (a, s) \<in> set reg \<Longrightarrow> hm_get b reg = Some t \<Longrightarrow> a \<noteq> b \<Longrightarrow>
   sink_chan t \<noteq> sink_chan s"
  using sink_chan_inject [of reg a s b t] by (auto dest: hm_get_SomeD)

lemma hm_get_reg_chans: "hm_get sid reg = Some s \<Longrightarrow> sink_chan s \<in> reg_chans reg"
  by (force simp: reg_chans_def dest: hm_get_SomeD)

lemma hm_get_eq_iff: "hm_wf m \<Longrightarrow> (k, v) \<in> set m \<Longrightarrow> hm_get k m = Some w \<longleftrightarrow> w = v"
  by (metis hm_get_Some_iff option.inject)

interpretation removing: registry_op "reg_remove sid" for sid
proof unfold_locales
  fix reg :: registry and id sink
  assume reg: "hm_wf reg" "chans_distinct reg" "(id, sink) \<in> set reg"
  show "sink_step id sink ((id, sink) \<in> set (fst (reg_remove sid reg)))
     (chan_events (sink_chan sink) (snd (reg_remove sid reg)))"
  proof (cases "id = sid")
    case True
    then show ?thesis using reg
      by (cases sink) (auto simp: reg_remove_def sink_step_def set_hm_remove hm_get_eq_iff split: option.splits)
  next
    case False
    then have "chan_events (sink_chan sink) (snd (reg_remove sid reg)) = []"
      using other_chan [OF reg(2,3), of sid] by (auto simp: reg_remove_def split: option.splits)
    then show ?thesis using False reg(3) by (auto simp: reg_remove_def sink_step_def set_hm_remove)
  qed
next
  show "c \<notin> reg_chans reg \<Longrightarrow> chan_events c (snd (reg_remove sid reg)) = []" for c reg
    using hm_get_reg_chans [of sid reg] by (auto simp: reg_remove_def split: option.splits)
qed (auto simp: reg_remove_def set_hm_remove)

interpretation dispatching: registry_op "dispatch js rpc" for js rpc
proof unfold_locales
  fix reg :: registry and id sink
  assume reg: "hm_wf reg" "chans_distinct reg" "(id, sink) \<in> set reg"
  show "sink_step id sink ((id, sink) \<in> set (fst (dispatch js rpc reg)))
     (chan_events (sink_chan sink) (snd (dispatch js rpc reg)))"
  proof (cases "id = stream_id rpc")
    case True
    then have "hm_get (stream_id rpc) reg = Some sink" using reg(1,3) by (simp add: hm_get_Some_iff)
    then show ?thesis using True
      by (cases sink)
         (auto simp: dispatch_eq sink_step_def set_hm_insert set_hm_remove sink_stays_def
            delivery_of_def delivery_ok_def open_message_def)
  next
    case False
    then have "chan_events (sink_chan sink) (snd (dispatch js rpc reg)) = []"
      using other_chan [OF reg(2,3), of "stream_id rpc"] by (auto simp: dispatch_eq split: option.splits)
    then show ?thesis using False reg(1,3)
      by (auto simp: dispatch_eq sink_step_def set_hm_insert set_hm_remove split: option.splits)
  qed
next
  show "set (fst (dispatch js rpc reg)) \<subseteq> set reg" if "hm_wf reg" for reg
    using that by (rule set_dispatch)
next
  show "c \<notin> reg_chans reg \<Longrightarrow> chan_events c (snd (dispatch js rpc reg)) = []" for c reg
    using hm_get_reg_chans [of "stream_id rpc" reg] by (auto simp: dispatch_eq split: option.splits)
qed (rule dispatch_wf)

interpretation failing: registry_op "fail_all err" for err
proof unfold_locales
  fix reg :: registry and id sink
  assume "hm_wf reg" "chans_distinct reg" "(id, sink) \<in> set reg"
  then have "chan_events (sink_chan sink) (snd (fail_all err reg)) = fail_sink err (id, sink)"
    by (intro chan_events_fail_all_present) (auto simp: chans_distinct_def)
  then show "sink_step id sink ((id, sink) \<in> set (fst (fail_all err reg)))
     (chan_events (sink_chan sink) (snd (fail_all err reg)))"
    by (cases sink) (simp_all add: fail_all_def sink_step_def fail_sink_def delivery_ok_def)
next
  show "c \<notin> reg_chans reg \<Longrightarrow> chan_events c (snd (fail_all err reg)) = []" for c reg
    unfolding reg_chans_def by (rule chan_events_fail_all_absent)
qed (simp_all add: fail_all_def)

lemma reg_insert_remove:
  "reg_insert sid sink reg = ((sid, sink) # fst (reg_remove sid reg), snd (reg_remove sid reg))"
  by (simp add: reg_insert_def reg_remove_def hm_insert_def hm_remove_def)

end
