(* ===== verification/Connection.thy ===== *)
theory Connection
  imports Env Framing Registry
begin

text \<open>
  \<open>Connection\<close> of \<open>src/connection.rs\<close>: the handshake and the operations \<open>request\<close>, \<open>subscribe\<close> and
  \<open>close_stream\<close>, each as a function from the connection and what the environment answers (the outcome
  of a write, of a wait) to the result, the connection after it and the calls made on channel senders.
  Every operation is also given as its separate atomic parts, which \<open>Session\<close> interleaves.
\<close>

section \<open>The connection\<close>

text \<open>
  \<open>next_chan\<close> numbers the channels created so far. The registry, the write half and the counter are
  shared by reference in the code; here they are one record that is threaded through.
\<close>

record connection =
  conn_writer :: writer
  conn_registry :: registry
  next_stream_id :: i32
  conn_closed :: bool
  request_timeout :: duration
  next_chan :: chan

definition new_connection :: "writer \<Rightarrow> duration \<Rightarrow> connection" where
  "new_connection wr timeout =
     \<lparr>conn_writer = wr, conn_registry = [], next_stream_id = 1, conn_closed = False,
      request_timeout = timeout, next_chan = 0\<rparr>"

text \<open>\<open>Connection::closed\<close> resolves exactly when the watched flag is set.\<close>

definition closed_poll :: "connection \<Rightarrow> unit poll" where
  "closed_poll c = (if conn_closed c then Ready () else Pending)"

section \<open>Handshake\<close>

definition ser_connect_payload :: "string \<Rightarrow> json" where
  "ser_connect_payload token = JObj (ser_member ''authToken'' (JStr token))"

text \<open>
  \<open>open_socket\<close> is the operating system's answer to \<open>UnixStream::connect\<close>. The result also carries the
  reader and the reads that are left, which the read loop takes over.
\<close>

definition connect ::
  "('m, 'h, 'o) msg_api \<Rightarrow> ('m, 'd) codec \<Rightarrow> json_api \<Rightarrow> (bytes \<Rightarrow> io_error + unit) \<Rightarrow> write_outcome \<Rightarrow>
   read_result list \<Rightarrow> ipc_env \<Rightarrow> duration \<Rightarrow>
   (error + connection \<times> 'd framed_reader \<times> read_result list) poll" where
  "connect api codec js open_socket out reads env timeout =
     (case open_socket (socket_path env) of
        Inl err \<Rightarrow> Ready (Inl (from_io_error err))
      | Inr _ \<Rightarrow>
     (case to_vec js (ser_connect_payload (auth_token env)) of
        Inl err \<Rightarrow> Ready (Inl (from_json_error err))
      | Inr body \<Rightarrow>
     (case write_frame codec (connect_message api body) out \<lparr>wire = [], shut = False\<rparr> of
        (Inl err, _) \<Rightarrow> Ready (Inl err)
      | (Inr _, wr) \<Rightarrow>
     (case next_frame codec (framed_reader_new codec) reads of
        (Pending, _, _) \<Rightarrow> Pending
      | (Ready (Inl err), _, _) \<Rightarrow> Ready (Inl err)
      | (Ready (Inr None), _, _) \<Rightarrow>
          Ready (Inl (error_handshake ''connection closed during handshake''))
      | (Ready (Inr (Some message)), reader, reads') \<Rightarrow>
     (case parse api message of
        Inl err \<Rightarrow> Ready (Inl err)
      | Inr ack \<Rightarrow>
          if message_type ack \<noteq> ConnectAck then
            Ready (Inl (error_handshake
              (''expected ConnectAck, got '' @ message_type_debug (message_type ack))))
          else if \<not> connection_accepted ack then
            Ready (Inl (error_handshake
              ''nucleus rejected the connection (invalid or expired SVCUID auth token)''))
          else Ready (Inr (new_connection wr timeout, reader, reads')))))))"

section \<open>Operations\<close>

definition alloc_stream_id :: "connection \<Rightarrow> i32 \<times> connection" where
  "alloc_stream_id c = (next_stream_id c, c\<lparr>next_stream_id := next_stream_id c + 1\<rparr>)"

text \<open>Creating a channel and putting its sender into the registry, under the lock.\<close>

definition register :: "(chan \<Rightarrow> stream_sink) \<Rightarrow> i32 \<Rightarrow> connection \<Rightarrow> chan \<times> connection \<times> effect list" where
  "register mk sid c =
     (let (reg, eff) = reg_insert sid (mk (next_chan c)) (conn_registry c)
      in (next_chan c, c\<lparr>conn_registry := reg, next_chan := next_chan c + 1\<rparr>, eff))"

definition unregister :: "i32 \<Rightarrow> connection \<Rightarrow> connection \<times> effect list" where
  "unregister sid c =
     (let (reg, eff) = reg_remove sid (conn_registry c) in (c\<lparr>conn_registry := reg\<rparr>, eff))"

text \<open>
  Serializing the request and sending the activate message: the two ways this fails differ in what
  the caller does next.
\<close>

datatype sent = Sent | SerializeFailed error | WriteFailed error

definition send_activate ::
  "('m, 'h, 'o) msg_api \<Rightarrow> ('m, 'd) codec \<Rightarrow> json_api \<Rightarrow> i32 \<Rightarrow> string \<Rightarrow> string \<Rightarrow> json \<Rightarrow>
   write_outcome \<Rightarrow> connection \<Rightarrow> sent \<times> connection" where
  "send_activate api codec js sid operation request_model req out c =
     (case to_vec js req of
        Inl err \<Rightarrow> (SerializeFailed (from_json_error err), c)
      | Inr body \<Rightarrow>
          (case write_message codec (activate_message api sid operation request_model body) out
                  (conn_writer c) of
             (Inl err, wr) \<Rightarrow> (WriteFailed err, c\<lparr>conn_writer := wr\<rparr>)
           | (Inr _, wr) \<Rightarrow> (Sent, c\<lparr>conn_writer := wr\<rparr>)))"

text \<open>The caller dropped while that message is written: the stream stays registered.\<close>

definition drop_activate ::
  "('m, 'h, 'o) msg_api \<Rightarrow> ('m, 'd) codec \<Rightarrow> json_api \<Rightarrow> i32 \<Rightarrow> string \<Rightarrow> string \<Rightarrow> json \<Rightarrow> nat \<Rightarrow>
   connection \<Rightarrow> connection option" where
  "drop_activate api codec js sid operation request_model req n c =
     (case to_vec js req of
        Inl err \<Rightarrow> None
      | Inr body \<Rightarrow> map_option (\<lambda>wr. c\<lparr>conn_writer := wr\<rparr>)
          (drop_write codec (activate_message api sid operation request_model body) n (conn_writer c)))"

text \<open>What awaiting the oneshot receiver under the timeout gives.\<close>

datatype request_wait = Received delivery | SenderGone | Elapsed

definition finish_request ::
  "string \<Rightarrow> i32 \<Rightarrow> request_wait \<Rightarrow> connection \<Rightarrow> delivery \<times> connection \<times> effect list" where
  "finish_request operation sid w c = (case w of
      Received result \<Rightarrow> (result, c, [])
    | SenderGone \<Rightarrow> (Inl ConnectionClosed, c, [])
    | Elapsed \<Rightarrow>
        (let (c', eff) = unregister sid c
         in (Inl (Timeout operation (request_timeout c)), c', eff)))"

definition request ::
  "('m, 'h, 'o) msg_api \<Rightarrow> ('m, 'd) codec \<Rightarrow> json_api \<Rightarrow> string \<Rightarrow> string \<Rightarrow> json \<Rightarrow> write_outcome \<Rightarrow>
   request_wait \<Rightarrow> connection \<Rightarrow> delivery \<times> connection \<times> effect list" where
  "request api codec js operation request_model req out w c =
     (let (sid, c1) = alloc_stream_id c;
          (ch, c2, eff) = register Request sid c1
      in case send_activate api codec js sid operation request_model req out c2 of
           (SerializeFailed err, c3) \<Rightarrow> (Inl err, c3, eff)
         | (WriteFailed err, c3) \<Rightarrow>
             (let (c4, eff') = unregister sid c3 in (Inl err, c4, eff @ eff'))
         | (Sent, c3) \<Rightarrow>
             (let (result, c4, eff') = finish_request operation sid w c3
              in (result, c4, eff @ eff')))"

text \<open>What awaiting the first message of a subscription gives: a message, or the channel's end.\<close>

definition finish_subscribe ::
  "json_api \<Rightarrow> i32 \<Rightarrow> chan \<Rightarrow> delivery option \<Rightarrow> connection \<Rightarrow>
   (error + i32 \<times> chan) \<times> connection \<times> effect list" where
  "finish_subscribe js sid ch first c = (case first of
      Some (Inr ack) \<Rightarrow>
        (if message_type ack = ApplicationError then
           (let (c', eff) = unregister sid c in (Inl (service_error_from js ack), c', eff))
         else (Inr (sid, ch), c, []))
    | Some (Inl err) \<Rightarrow> (let (c', eff) = unregister sid c in (Inl err, c', eff))
    | None \<Rightarrow> (let (c', eff) = unregister sid c in (Inl ConnectionClosed, c', eff)))"

definition subscribe ::
  "('m, 'h, 'o) msg_api \<Rightarrow> ('m, 'd) codec \<Rightarrow> json_api \<Rightarrow> string \<Rightarrow> string \<Rightarrow> json \<Rightarrow> write_outcome \<Rightarrow>
   delivery option \<Rightarrow> connection \<Rightarrow> (error + i32 \<times> chan) \<times> connection \<times> effect list" where
  "subscribe api codec js operation request_model req out first c =
     (let (sid, c1) = alloc_stream_id c;
          (ch, c2, eff) = register Subscription sid c1
      in case send_activate api codec js sid operation request_model req out c2 of
           (SerializeFailed err, c3) \<Rightarrow> (Inl err, c3, eff)
         | (WriteFailed err, c3) \<Rightarrow>
             (let (c4, eff') = unregister sid c3 in (Inl err, c4, eff @ eff'))
         | (Sent, c3) \<Rightarrow>
             (let (result, c4, eff') = finish_subscribe js sid ch first c3
              in (result, c4, eff @ eff')))"

definition send_terminate ::
  "('m, 'h, 'o) msg_api \<Rightarrow> ('m, 'd) codec \<Rightarrow> i32 \<Rightarrow> write_outcome \<Rightarrow> connection \<Rightarrow> connection" where
  "send_terminate api codec sid out c =
     (let (_, wr) = write_message codec (terminate_message api sid) out (conn_writer c)
      in c\<lparr>conn_writer := wr\<rparr>)"

definition close_stream ::
  "('m, 'h, 'o) msg_api \<Rightarrow> ('m, 'd) codec \<Rightarrow> i32 \<Rightarrow> write_outcome \<Rightarrow> connection \<Rightarrow>
   connection \<times> effect list" where
  "close_stream api codec sid out c =
     (let (c', eff) = unregister sid c in (send_terminate api codec sid out c', eff))"

section \<open>Stream ids\<close>

definition alloc_times :: "nat \<Rightarrow> connection \<Rightarrow> connection" where
  "alloc_times n = (\<lambda>c. snd (alloc_stream_id c)) ^^ n"

lemma next_stream_id_alloc_times:
  "next_stream_id (alloc_times n c) = next_stream_id c + word_of_nat n"
  by (induction n) (simp_all add: alloc_times_def alloc_stream_id_def)

lemma sint_stream_id_positive: "n < 2 ^ 31 - 1 \<Longrightarrow> sint (1 + word_of_nat n :: i32) = int n + 1"
proof -
  assume n: "n < 2 ^ 31 - 1"
  have "(1 + word_of_nat n :: i32) = word_of_int (int n + 1)" by simp
  then show ?thesis using n by (simp only:) (rule sint_word_of_int_fits, simp add: fits_i32_def)
qed

text \<open>
  C37. The ids of successive streams of a fresh connection: the first \<open>2 ^ 31 - 1\<close> are exactly
  1, 2, 3, ...; so they are positive and pairwise distinct. The next one has wrapped around to the
  most negative \<open>i32\<close>, and the one after \<open>2 ^ 32 - 1\<close> allocations is 0, the id of the protocol channel.
\<close>

theorem stream_ids_of_a_connection:
  "(\<forall>n < 2 ^ 31 - 1. sint (fst (alloc_stream_id (alloc_times n (new_connection wr t)))) = int n + 1) \<and>
   sint (fst (alloc_stream_id (alloc_times (2 ^ 31 - 1) (new_connection wr t)))) = - (2 ^ 31) \<and>
   fst (alloc_stream_id (alloc_times (2 ^ 32 - 1) (new_connection wr t))) = 0"
  by (simp add: alloc_stream_id_def next_stream_id_alloc_times new_connection_def
      sint_stream_id_positive del: power_numeral)
     simp

theorem stream_ids_of_a_connection_witness:
  "sint (fst (alloc_stream_id (alloc_times 6 (new_connection \<lparr>wire = [], shut = False\<rparr>
     (duration_from_secs 30))))) = 7"
  using stream_ids_of_a_connection [of "\<lparr>wire = [], shut = False\<rparr>" "duration_from_secs 30"]
  by (auto dest: spec [of _ 6])

section \<open>Handshake\<close>

definition accepts :: "('m, 'h, 'o) msg_api \<Rightarrow> 'm \<Rightarrow> bool" where
  "accepts api m = (case parse api m of
      Inl _ \<Rightarrow> False
    | Inr ack \<Rightarrow> message_type ack = ConnectAck \<and> connection_accepted ack)"

text \<open>The outcome of \<open>connect\<close> once the first frame has arrived.\<close>

lemma connect_first_frame:
  assumes "codec_laws codec held" and "write_message_to codec m = Inr w"
    and "concat chunks = w @ rest" and "[] \<notin> set chunks"
    and "open_socket (socket_path env) = Inr ()"
    and "to_vec js (ser_connect_payload (auth_token env)) = Inr body"
    and "write_message_to codec (connect_message api body) = Inr hello"
  obtains reader chunks' where "backlog held reader @ concat chunks' = rest"
    "connect api codec js open_socket WriteOk (map Inr chunks) env t = Ready (case parse api m of
       Inl err \<Rightarrow> Inl err
     | Inr ack \<Rightarrow>
         if message_type ack \<noteq> ConnectAck then
           Inl (error_handshake (''expected ConnectAck, got '' @ message_type_debug (message_type ack)))
         else if \<not> connection_accepted ack then
           Inl (error_handshake ''nucleus rejected the connection (invalid or expired SVCUID auth token)'')
         else Inr (new_connection \<lparr>wire = hello, shut = False\<rparr> t, reader, map Inr chunks'))"
proof -
  obtain reader chunks' where nf: "next_frame codec (framed_reader_new codec) (map Inr chunks) =
        (Ready (Inr (Some m)), reader, map Inr chunks')" "backlog held reader @ concat chunks' = rest"
    using next_frame_complete [OF assms(1,2) _ assms(4), of "framed_reader_new codec" rest "[]"] assms(3)
    by (auto simp: backlog_new [OF assms(1)])
  have "write_frame codec (connect_message api body) WriteOk \<lparr>wire = [], shut = False\<rparr> =
      (Inr (), \<lparr>wire = hello, shut = False\<rparr>)"
    using assms(7) by (simp add: write_frame_def socket_write_def)
  with assms(5,6) nf show thesis
    by (intro that [of reader chunks']) (auto simp: connect_def split: sum.split)
qed

text \<open>
  C22. The handshake over any chunking: the connection is established exactly when the first frame
  the nucleus sends is a \<open>ConnectAck\<close> whose accepted flag is set; it then starts with no stream
  registered, having written exactly the Connect frame, and every byte that came after the
  acknowledgement is still there for the read loop. A \<open>ConnectAck\<close> without the flag is a handshake
  error.
\<close>

theorem handshake_correct:
  assumes "codec_laws codec held" and "write_message_to codec m = Inr w"
    and "concat chunks = w @ rest" and "[] \<notin> set chunks"
    and "open_socket (socket_path env) = Inr ()"
    and "to_vec js (ser_connect_payload (auth_token env)) = Inr body"
    and "write_message_to codec (connect_message api body) = Inr hello"
    and "connect api codec js open_socket WriteOk (map Inr chunks) env t = res"
  shows "(accepts api m \<longrightarrow> (\<exists>reader chunks'.
            res = Ready (Inr (new_connection \<lparr>wire = hello, shut = False\<rparr> t, reader, map Inr chunks')) \<and>
            backlog held reader @ concat chunks' = rest)) \<and>
         (\<not> accepts api m \<longrightarrow> (\<exists>err. res = Ready (Inl err))) \<and>
         (\<forall>ack. parse api m = Inr ack \<and> message_type ack = ConnectAck \<and> \<not> connection_accepted ack \<longrightarrow>
            (\<exists>text. res = Ready (Inl (Handshake text))))"
proof -
  obtain reader chunks' where "backlog held reader @ concat chunks' = rest"
    "res = Ready (case parse api m of
       Inl err \<Rightarrow> Inl err
     | Inr ack \<Rightarrow>
         if message_type ack \<noteq> ConnectAck then
           Inl (error_handshake (''expected ConnectAck, got '' @ message_type_debug (message_type ack)))
         else if \<not> connection_accepted ack then
           Inl (error_handshake ''nucleus rejected the connection (invalid or expired SVCUID auth token)'')
         else Inr (new_connection \<lparr>wire = hello, shut = False\<rparr> t, reader, map Inr chunks'))"
    unfolding assms(8) [symmetric]
    by (rule connect_first_frame [where open_socket = open_socket and env = env and js = js and
        body = body and api = api and hello = hello and t = t, OF assms(1-7)])
  then show ?thesis by (auto simp: accepts_def split: sum.splits)
qed

text \<open>A concrete handshake.\<close>

definition demo_env :: ipc_env where
  "demo_env = \<lparr>socket_path = [0x2F], auth_token = ''T''\<rparr>"

definition demo_hello :: "(string \<times> unit header_value) list \<times> bytes" where
  "demo_hello = connect_message pair_api [0]"

definition demo_codec :: "((string \<times> unit header_value) list \<times> bytes, unit) codec" where
  "demo_codec = table_codec [frame_of ConnectAck 1 0 [], frame_of ApplicationMessage 0 1 [0x61],
     frame_of Ping 0 0 [0xAA], frame_of ProtocolError 0 0 [], frame_of PingResponse 0 0 [0xAA], demo_hello]"

definition demo_json :: json_api where
  "demo_json = table_json [ser_connect_payload ''T'', JObj []]"

lemma codec_laws_demo [simp]: "codec_laws demo_codec (\<lambda>_. [])"
  by (simp add: demo_codec_def codec_laws_table_codec)

lemma hello_not_frame: "demo_hello \<noteq> frame_of t fl sid body"
  by (simp add: demo_hello_def connect_message_def frame_of_def)

lemma write_demo_codec [simp]:
  "write_message_to demo_codec (frame_of ConnectAck 1 0 []) = Inr [0, 0]"
  "write_message_to demo_codec (frame_of ApplicationMessage 0 1 [0x61]) = Inr [1, 0]"
  "write_message_to demo_codec (frame_of Ping 0 0 [0xAA]) = Inr [2, 0]"
  "write_message_to demo_codec (frame_of ProtocolError 0 0 []) = Inr [3, 0]"
  "write_message_to demo_codec (ping_response_message pair_api [0xAA]) = Inr [4, 0]"
  "write_message_to demo_codec demo_hello = Inr [5, 0]"
proof -
  have "ping_response_message pair_api [0xAA] = frame_of PingResponse 0 0 [0xAA]"
    by (simp add: ping_response_message_def frame_of_def int32_header_def FLAG_NONE_def)
  then show "write_message_to demo_codec (ping_response_message pair_api [0xAA]) = Inr [4, 0]"
    by (simp add: demo_codec_def write_table_codec)
qed (simp_all add: demo_codec_def write_table_codec hello_not_frame)

lemma demo_to_vec [simp]: "to_vec demo_json (ser_connect_payload ''T'') = Inr [0]"
  by (simp add: to_vec_def demo_json_def table_json_def)

theorem handshake_correct_witness:
  "\<exists>reader chunks'. connect pair_api demo_codec demo_json (\<lambda>_. Inr ()) WriteOk (map Inr [[0], [0, 1]])
      demo_env (duration_from_secs 30) =
     Ready (Inr (new_connection \<lparr>wire = [5, 0], shut = False\<rparr> (duration_from_secs 30), reader, map Inr chunks')) \<and>
     backlog (\<lambda>_. []) reader @ concat chunks' = [1]"
  using handshake_correct [of demo_codec "\<lambda>_. []" "frame_of ConnectAck 1 0 []" "[0, 0]" "[[0], [0, 1]]" "[1]"
      "\<lambda>_. Inr ()" demo_env demo_json "[0]" pair_api "[5, 0]" "duration_from_secs 30"
      "connect pair_api demo_codec demo_json (\<lambda>_. Inr ()) WriteOk (map Inr [[0], [0, 1]]) demo_env
         (duration_from_secs 30)"]
  by (simp add: accepts_def demo_hello_def [symmetric] connection_accepted_def FLAG_CONNECTION_ACCEPTED_def
      demo_env_def)

text \<open>A codec that writes empty frames, for runs in which only the effects matter.\<close>

definition sink_codec :: "((string \<times> unit header_value) list \<times> bytes, unit) codec" where
  "sink_codec = \<lparr>write_message_to = (\<lambda>_. Inr []), decoder_new = (),
     decode_frame = (\<lambda>_ b. (Inr Incomplete, (), b))\<rparr>"

end
