(* ===== verification/ReadLoop.thy ===== *)
theory ReadLoop
  imports Connection
begin

text \<open>
  The background task of \<open>src/connection.rs\<close>: \<open>read_loop\<close> and \<open>handle_protocol_message\<close>. One turn of
  the loop and the two actions after it are separate definitions, which \<open>Session\<close> interleaves with
  the operations; here they run on their own, over bytes that arrive in arbitrary chunks.
\<close>

section \<open>The read loop\<close>

datatype control_flow = Continue | Break

definition handle_protocol_message ::
  "('m, 'h, 'o) msg_api \<Rightarrow> ('m, 'd) codec \<Rightarrow> rpc_message \<Rightarrow> write_outcome \<Rightarrow> writer \<Rightarrow>
   control_flow \<times> writer" where
  "handle_protocol_message api codec rpc out wr = (case message_type rpc of
      Ping \<Rightarrow>
        (let response = ping_response_message api (payload rpc);
             (_, wr') = write_frame codec response out wr
         in (Continue, wr'))
    | PingResponse \<Rightarrow> (Continue, wr)
    | ProtocolError \<Rightarrow> (Break, wr)
    | InternalError \<Rightarrow> (Break, wr)
    | _ \<Rightarrow> (Continue, wr))"

text \<open>One turn of the loop, given what \<open>next_frame\<close> returned; \<open>out\<close> is used when it answers a ping.\<close>

definition read_loop_turn ::
  "('m, 'h, 'o) msg_api \<Rightarrow> ('m, 'd) codec \<Rightarrow> json_api \<Rightarrow> error + 'm option \<Rightarrow> write_outcome \<Rightarrow>
   connection \<Rightarrow> control_flow \<times> connection \<times> effect list" where
  "read_loop_turn api codec js frame out c = (case frame of
      Inr (Some message) \<Rightarrow> (case parse api message of
          Inr rpc \<Rightarrow>
            (if stream_id rpc = 0 then
               (let (flow, wr) = handle_protocol_message api codec rpc out (conn_writer c)
                in (flow, c\<lparr>conn_writer := wr\<rparr>, []))
             else
               (let (reg, eff) = dispatch js rpc (conn_registry c)
                in (Continue, c\<lparr>conn_registry := reg\<rparr>, eff)))
        | Inl _ \<Rightarrow> (Continue, c, []))
    | Inr None \<Rightarrow> (Break, c, [])
    | Inl _ \<Rightarrow> (Break, c, []))"

text \<open>The two actions after the loop.\<close>

definition read_loop_fail :: "connection \<Rightarrow> connection \<times> effect list" where
  "read_loop_fail c =
     (let (reg, eff) = fail_all ConnectionClosed (conn_registry c)
      in (c\<lparr>conn_registry := reg\<rparr>, eff))"

definition read_loop_signal :: "connection \<Rightarrow> connection" where
  "read_loop_signal c = c\<lparr>conn_closed := True\<rparr>"

text \<open>
  The whole task: turns until one breaks, then the two actions. The flag of the result says whether it
  has ended (otherwise it is waiting for the socket); \<open>outs i\<close> is the outcome of a ping answer in
  turn \<open>i\<close>. A turn costs one unit of fuel.
\<close>

fun read_loop ::
  "('m, 'h, 'o) msg_api \<Rightarrow> ('m, 'd) codec \<Rightarrow> json_api \<Rightarrow> (nat \<Rightarrow> write_outcome) \<Rightarrow> nat \<Rightarrow> nat \<Rightarrow>
   'd framed_reader \<Rightarrow> read_result list \<Rightarrow> connection \<Rightarrow> bool \<times> connection \<times> effect list" where
  "read_loop api codec js outs i 0 reader reads c = (False, c, [])"
| "read_loop api codec js outs i (Suc fuel) reader reads c =
     (case next_frame codec reader reads of
        (Pending, _, _) \<Rightarrow> (False, c, [])
      | (Ready frame, reader', reads') \<Rightarrow>
          (case read_loop_turn api codec js frame (outs i) c of
             (Continue, c', eff) \<Rightarrow>
               (let (ended, c'', eff') = read_loop api codec js outs (Suc i) fuel reader' reads' c'
                in (ended, c'', eff @ eff'))
           | (Break, c', eff) \<Rightarrow>
               (let (c'', eff') = read_loop_fail c'
                in (True, read_loop_signal c'', eff @ eff'))))"

section \<open>The loop over chunked input\<close>

text \<open>The loop on the results of the successive \<open>next_frame\<close> calls, with the bytes abstracted away.\<close>

fun loop_frames ::
  "('m, 'h, 'o) msg_api \<Rightarrow> ('m, 'd) codec \<Rightarrow> json_api \<Rightarrow> (nat \<Rightarrow> write_outcome) \<Rightarrow> nat \<Rightarrow>
   (error + 'm option) list \<Rightarrow> connection \<Rightarrow> bool \<times> connection \<times> effect list" where
  "loop_frames api codec js outs i [] c = (False, c, [])"
| "loop_frames api codec js outs i (frame # frames) c =
     (case read_loop_turn api codec js frame (outs i) c of
        (Continue, c', eff) \<Rightarrow>
          (let (ended, c'', eff') = loop_frames api codec js outs (Suc i) frames c'
           in (ended, c'', eff @ eff'))
      | (Break, c', eff) \<Rightarrow>
          (let (c'', eff') = read_loop_fail c' in (True, read_loop_signal c'', eff @ eff')))"

definition ending_frames :: "read_result list \<Rightarrow> (error + 'm option) list" where
  "ending_frames ending = (case ending_status ending of Pending \<Rightarrow> [] | Ready frame \<Rightarrow> [frame])"

lemma ending_frames_simps [simp]:
  "ending_frames [] = []" "ending_frames (Inl err # rest) = [Inl (Io err)]"
  "ending_frames (Inr b # rest) = [Inr None]"
  by (simp_all add: ending_frames_def)

lemma read_loop_frames:
  assumes "codec_laws codec held" "ending \<in> {[], [Inr []], [Inl err]}" "partial_frame codec part"
    and "map (write_message_to codec) ms = map Inr ws"
    and "backlog held r @ concat chunks = concat ws @ part" "[] \<notin> set chunks" "length ms < fuel"
  shows "read_loop api codec js outs i fuel r (map Inr chunks @ ending) c =
     loop_frames api codec js outs i (map (\<lambda>m. Inr (Some m)) ms @ ending_frames ending) c"
  using assms(4-)
proof (induction ms arbitrary: ws r chunks fuel i c)
  case Nil
  then obtain n where "fuel = Suc n" by (cases fuel) auto
  moreover obtain r' where "next_frame codec r (map Inr chunks @ ending) = (ending_status ending, r', [])"
    using next_frame_ending [OF waits_on_partial_frame [OF assms(1)] _ Nil.prems(3) assms(2)]
      Nil.prems(1,2) assms(3) by auto
  ultimately show ?case
    using assms(2) by (auto simp: read_loop_turn_def)
next
  case (Cons m ms)
  then obtain w ws' n where ws: "ws = w # ws'" "write_message_to codec m = Inr w" "fuel = Suc n"
      "map (write_message_to codec) ms = map Inr ws'" "length ms < n"
    by (cases ws; cases fuel) auto
  obtain r' chunks' where "next_frame codec r (map Inr chunks @ ending) =
           (Ready (Inr (Some m)), r', map Inr chunks' @ ending)"
      "backlog held r' @ concat chunks' = concat ws' @ part" "set chunks' \<subseteq> set chunks"
    using next_frame_complete [OF assms(1) ws(2), of r chunks "concat ws' @ part", where tail = ending]
      Cons.prems ws(1) by auto
  moreover have "read_loop api codec js outs (Suc i) n r' (map Inr chunks' @ ending) c' =
     loop_frames api codec js outs (Suc i) (map (\<lambda>m. Inr (Some m)) ms @ ending_frames ending) c'" for c'
    using calculation(2,3) Cons.prems(3) ws(4,5) by (intro Cons.IH) auto
  ultimately show ?case using ws(3) by (simp cong: control_flow.case_cong)
qed

text \<open>What the messages are to the loop: fatal ones, pings, and those of streams.\<close>

definition fatal :: "('m, 'h, 'o) msg_api \<Rightarrow> 'm \<Rightarrow> bool" where
  "fatal api m = (case parse api m of
      Inl _ \<Rightarrow> False
    | Inr rpc \<Rightarrow> stream_id rpc = 0 \<and> message_type rpc \<in> {ProtocolError, InternalError})"

fun stream_messages :: "('m, 'h, 'o) msg_api \<Rightarrow> 'm list \<Rightarrow> rpc_message list" where
  "stream_messages api [] = []"
| "stream_messages api (m # ms) = (case parse api m of
      Inl _ \<Rightarrow> stream_messages api ms
    | Inr rpc \<Rightarrow> if stream_id rpc = 0 then stream_messages api ms else rpc # stream_messages api ms)"

fun pings :: "('m, 'h, 'o) msg_api \<Rightarrow> 'm list \<Rightarrow> bytes list" where
  "pings api [] = []"
| "pings api (m # ms) = (case parse api m of
      Inl _ \<Rightarrow> pings api ms
    | Inr rpc \<Rightarrow> if stream_id rpc = 0 \<and> message_type rpc = Ping then payload rpc # pings api ms
                else pings api ms)"

fun abs_dispatch_all ::
  "json_api \<Rightarrow> rpc_message list \<Rightarrow> (i32 \<rightharpoonup> stream_sink) \<Rightarrow> (i32 \<rightharpoonup> stream_sink) \<times> effect list" where
  "abs_dispatch_all js [] m = (m, [])"
| "abs_dispatch_all js (rpc # rpcs) m =
     (let (m', eff) = abs_dispatch js rpc m; (m'', eff') = abs_dispatch_all js rpcs m'
      in (m'', eff @ eff'))"

lemma abs_dispatch_registry:
  "abs_dispatch js rpc (abs_registry reg) =
     (abs_registry (fst (dispatch js rpc reg)), snd (dispatch js rpc reg))"
  by (auto simp: abs_dispatch_def abs_registry_def dispatch_eq fun_eq_iff split: option.splits)

lemma turn_message_cases:
  obtains (fatal) "fatal api m" "read_loop_turn api codec js (Inr (Some m)) out c = (Break, c, [])"
    "stream_messages api [m] = []" "pings api [m] = []"
  | (stream) rpc reg eff where "\<not> fatal api m" "parse api m = Inr rpc" "stream_id rpc \<noteq> 0"
    "dispatch js rpc (conn_registry c) = (reg, eff)"
    "read_loop_turn api codec js (Inr (Some m)) out c = (Continue, c\<lparr>conn_registry := reg\<rparr>, eff)"
  | (ping) rpc where "\<not> fatal api m" "parse api m = Inr rpc" "stream_id rpc = 0" "message_type rpc = Ping"
    "read_loop_turn api codec js (Inr (Some m)) out c = (Continue,
       c\<lparr>conn_writer := snd (write_frame codec (ping_response_message api (payload rpc)) out (conn_writer c))\<rparr>, [])"
  | (ignored) "\<not> fatal api m" "read_loop_turn api codec js (Inr (Some m)) out c = (Continue, c, [])"
    "stream_messages api [m] = []" "pings api [m] = []"
proof (cases "parse api m")
  case (Inl e)
  then show ?thesis by (intro ignored) (simp_all add: fatal_def read_loop_turn_def)
next
  case (Inr rpc)
  show ?thesis
  proof (cases "stream_id rpc = 0")
    case False
    with Inr show ?thesis
      by (cases "dispatch js rpc (conn_registry c)")
         (auto intro!: stream simp: fatal_def read_loop_turn_def)
  next
    case True
    show ?thesis
      by (cases "message_type rpc")
         (use Inr True in \<open>auto intro: fatal ping ignored
            simp: fatal_def read_loop_turn_def handle_protocol_message_def Let_def split: prod.splits\<close>)
  qed
qed

text \<open>How a run of the loop that dispatched to \<open>reg\<close> with \<open>log\<close> leaves the connection.\<close>

definition after_loop ::
  "bool \<Rightarrow> (i32 \<rightharpoonup> stream_sink) \<Rightarrow> effect list \<Rightarrow> bool \<Rightarrow> connection \<Rightarrow> effect list \<Rightarrow> bool" where
  "after_loop ended reg log was_closed c eff \<longleftrightarrow>
     (if ended then conn_registry c = [] \<and> conn_closed c \<and>
        (\<exists>drained. abs_registry drained = reg \<and> eff = log @ snd (fail_all ConnectionClosed drained))
      else abs_registry (conn_registry c) = reg \<and> eff = log \<and> conn_closed c = was_closed)"

lemma after_loop_prefix:
  "after_loop ended reg log b c eff \<Longrightarrow> after_loop ended reg (e @ log) b c (e @ eff)"
  by (auto simp: after_loop_def)

lemma loop_frames_spec:
  assumes "loop_frames api codec js outs i (map (\<lambda>m. Inr (Some m)) ms @ ending_frames ending) c = (ended, c', eff)"
    and "abs_dispatch_all js (stream_messages api (takeWhile (\<lambda>m. \<not> fatal api m) ms))
           (abs_registry (conn_registry c)) = (reg, log)"
    and "ending \<in> {[], [Inr []], [Inl err]}"
  shows "(ended \<longleftrightarrow> (\<exists>m \<in> set ms. fatal api m) \<or> ending \<noteq> []) \<and>
     after_loop ended reg log (conn_closed c) c' eff"
  using assms(1,2)
proof (induction ms arbitrary: i c eff log)
  case Nil
  then show ?case using assms(3)
    by (auto simp: after_loop_def read_loop_turn_def read_loop_fail_def read_loop_signal_def fail_all_def)
next
  case (Cons m ms)
  show ?case
  proof (cases rule: turn_message_cases [of api m codec js "outs i" c])
    case fatal
    then show ?thesis using Cons.prems
      by (auto simp: after_loop_def read_loop_fail_def read_loop_signal_def fail_all_def)
  next
    case (stream rpc r1 e1)
    have "abs_dispatch js rpc (abs_registry (conn_registry c)) = (abs_registry r1, e1)"
      using stream(4) by (simp add: abs_dispatch_registry)
    then show ?thesis
      using Cons.prems stream
      by (auto split: prod.splits intro: after_loop_prefix dest!: Cons.IH)
  next
    case (ping rpc)
    then show ?thesis using Cons.prems
      by (auto split: prod.splits dest!: Cons.IH)
  next
    case ignored
    have "stream_messages api (m # ms') = stream_messages api ms'" for ms'
      using ignored(3) by (auto split: sum.splits if_splits)
    then show ?thesis using Cons.prems ignored
      by (auto split: prod.splits simp del: stream_messages.simps dest!: Cons.IH)
  qed
qed

text \<open>
  C9. The read loop, on any chunking of any sequence of messages: it ends exactly when one of them
  is fatal (\<open>ProtocolError\<close> or \<open>InternalError\<close> on stream 0) or the socket ends after them. The messages
  of streams that come before the first fatal one are dispatched, in order, as the specification says;
  when the loop ends, everything still registered gets \<open>ConnectionClosed\<close>, the registry is empty
  and the closed flag is set; while it has not ended, nothing else happens to the registry and the flag.
\<close>

theorem read_loop_refines_demultiplexer:
  assumes "codec_laws codec held" and "map (write_message_to codec) ms = map Inr ws"
    and "partial_frame codec part" and "backlog held r @ concat chunks = concat ws @ part"
    and "[] \<notin> set chunks" and "ending \<in> {[], [Inr []], [Inl err]}"
    and "read_loop api codec js outs 0 (Suc (length ms)) r (map Inr chunks @ ending) c = (ended, c', eff)"
    and "abs_dispatch_all js (stream_messages api (takeWhile (\<lambda>m. \<not> fatal api m) ms))
           (abs_registry (conn_registry c)) = (reg, log)"
  shows "(ended \<longleftrightarrow> (\<exists>m \<in> set ms. fatal api m) \<or> ending \<noteq> []) \<and>
     (ended \<longrightarrow> conn_registry c' = [] \<and> conn_closed c' \<and>
        (\<exists>drained. abs_registry drained = reg \<and> eff = log @ snd (fail_all ConnectionClosed drained))) \<and>
     (\<not> ended \<longrightarrow> abs_registry (conn_registry c') = reg \<and> eff = log \<and> conn_closed c' = conn_closed c)"
proof -
  have "loop_frames api codec js outs 0 (map (\<lambda>m. Inr (Some m)) ms @ ending_frames ending) c = (ended, c', eff)"
    using read_loop_frames [OF assms(1,6,3,2,4,5) lessI, of api js outs 0 c] assms(7)
    by (simp del: read_loop.simps)
  from loop_frames_spec [OF this assms(8,6)] show ?thesis by (auto simp: after_loop_def)
qed

section \<open>Pings\<close>

lemma loop_frames_pings:
  assumes "map (\<lambda>body. write_message_to codec (ping_response_message api body)) (pings api (takeWhile (\<lambda>m. \<not> fatal api m) ms)) =
      map Inr ws"
    and "loop_frames api codec js (\<lambda>_. WriteOk) i (map (\<lambda>m. Inr (Some m)) ms @ ending_frames ending) c = (ended, c', eff)"
    and "ending \<in> {[], [Inr []], [Inl err]}"
  shows "conn_writer c' = (conn_writer c)\<lparr>wire := wire (conn_writer c) @ concat ws\<rparr>"
  using assms(1,2)
proof (induction ms arbitrary: i c eff ws)
  case Nil
  then show ?case using assms(3)
    by (auto simp: read_loop_turn_def read_loop_fail_def read_loop_signal_def fail_all_def)
next
  case (Cons m ms)
  show ?case
  proof (cases rule: turn_message_cases [of api m codec js WriteOk c])
    case fatal
    then show ?thesis using Cons.prems
      by (auto simp: read_loop_fail_def read_loop_signal_def fail_all_def)
  next
    case (stream rpc r1 e1)
    then show ?thesis
      using Cons.prems by (auto split: prod.splits dest!: Cons.IH)
  next
    case (ping rpc)
    then obtain w ws' where "ws = w # ws'" "write_message_to codec (ping_response_message api (payload rpc)) = Inr w"
      "map (\<lambda>body. write_message_to codec (ping_response_message api body)) (pings api (takeWhile (\<lambda>m. \<not> fatal api m) ms)) = map Inr ws'"
      using Cons.prems(1) by (cases ws) auto
    then show ?thesis using Cons.prems(2) ping
      by (auto split: prod.splits simp: write_frame_def socket_write_def dest!: Cons.IH)
  next
    case ignored
    have "pings api (m # ms') = pings api ms'" for ms'
      using ignored(4) by (auto split: sum.splits if_splits)
    then show ?thesis using Cons.prems ignored
      by (auto split: prod.splits simp del: pings.simps dest!: Cons.IH)
  qed
qed

text \<open>
  C33. Every ping is answered, once and in order: what the loop puts on the wire is exactly the
  encodings of messages which a peer parses as \<open>PingResponse\<close> on stream 0, with the payloads of the
  pings that came before the first fatal message; it writes nothing else and leaves the write half open.
\<close>

theorem every_ping_is_echoed:
  assumes "msg_laws api" and "codec_laws codec held" and "map (write_message_to codec) ms = map Inr ws"
    and "partial_frame codec part" and "backlog held r @ concat chunks = concat ws @ part"
    and "[] \<notin> set chunks" and "ending \<in> {[], [Inr []], [Inl err]}"
    and "read_loop api codec js (\<lambda>_. WriteOk) 0 (Suc (length ms)) r (map Inr chunks @ ending) c = (ended, c', eff)"
    and "map (\<lambda>body. write_message_to codec (ping_response_message api body))
           (pings api (takeWhile (\<lambda>m. \<not> fatal api m) ms)) = map Inr replies"
  shows "wire (conn_writer c') = wire (conn_writer c) @ concat replies \<and>
     shut (conn_writer c') = shut (conn_writer c) \<and>
     (\<forall>reply \<in> set replies. \<exists>body \<in> set (pings api (takeWhile (\<lambda>m. \<not> fatal api m) ms)). \<exists>answer.
        write_message_to codec answer = Inr reply \<and>
        parse api answer = Inr \<lparr>message_type = PingResponse, flags = FLAG_NONE, stream_id = 0,
          service_model_type = None, payload = body\<rparr>)"
proof (intro conjI ballI)
  have "loop_frames api codec js (\<lambda>_. WriteOk) 0
      (map (\<lambda>m. Inr (Some m)) ms @ ending_frames ending) c = (ended, c', eff)"
    using read_loop_frames [OF assms(2,7,4,3,5,6) lessI, of api js "\<lambda>_. WriteOk" 0 c] assms(8)
    by (simp del: read_loop.simps)
  then have "conn_writer c' = (conn_writer c)\<lparr>wire := wire (conn_writer c) @ concat replies\<rparr>"
    by (rule loop_frames_pings [OF assms(9) _ assms(7)])
  then show "wire (conn_writer c') = wire (conn_writer c) @ concat replies"
    and "shut (conn_writer c') = shut (conn_writer c)" by simp_all
next
  fix reply assume "reply \<in> set replies"
  then have "Inr reply \<in> set (map (\<lambda>body. write_message_to codec (ping_response_message api body))
      (pings api (takeWhile (\<lambda>m. \<not> fatal api m) ms)))" using assms(9) by simp
  then obtain body where "body \<in> set (pings api (takeWhile (\<lambda>m. \<not> fatal api m) ms))"
      "write_message_to codec (ping_response_message api body) = Inr reply" by auto
  then show "\<exists>body \<in> set (pings api (takeWhile (\<lambda>m. \<not> fatal api m) ms)). \<exists>answer.
        write_message_to codec answer = Inr reply \<and>
        parse api answer = Inr \<lparr>message_type = PingResponse, flags = FLAG_NONE, stream_id = 0,
          service_model_type = None, payload = body\<rparr>"
    using ping_response_msg.parse_built_any [OF assms(1)] by blast
qed

section \<open>Concrete runs\<close>

definition demo_connection :: connection where
  "demo_connection = (new_connection \<lparr>wire = [], shut = False\<rparr> (duration_from_secs 30))
     \<lparr>conn_registry := [(1, Request 0), (2, Subscription 1)]\<rparr>"

definition demo_messages :: "((string \<times> unit header_value) list \<times> bytes) list" where
  "demo_messages = [frame_of ApplicationMessage 0 1 [0x61], frame_of Ping 0 0 [0xAA],
     frame_of ProtocolError 0 0 [], frame_of ApplicationMessage 0 1 [0x61]]"

definition demo_run :: "bool \<times> connection \<times> effect list" where
  "demo_run = read_loop pair_api demo_codec demo_json (\<lambda>_. WriteOk) 0 (Suc (length demo_messages))
     (framed_reader_new demo_codec)
     (map Inr [[1], [0, 2, 0, 3], [0, 1, 0]] @ []) demo_connection"

lemma fatal_frame_of [simp]:
  "fatal pair_api (frame_of t fl sid body) \<longleftrightarrow> sid = 0 \<and> t \<in> {ProtocolError, InternalError}"
  by (simp add: fatal_def)

lemma demo_live: "takeWhile (\<lambda>m. \<not> fatal pair_api m) demo_messages =
    [frame_of ApplicationMessage 0 1 [0x61], frame_of Ping 0 0 [0xAA]]"
  by (simp add: demo_messages_def)

lemma demo_fatal: "\<exists>m \<in> set demo_messages. fatal pair_api m"
  by (simp add: demo_messages_def)

lemma demo_written: "map (write_message_to demo_codec) demo_messages = map Inr [[1, 0], [2, 0], [3, 0], [1, 0]]"
  by (simp add: demo_messages_def)

lemma demo_no_part [simp]: "partial_frame demo_codec []"
  by (simp add: partial_frame_def)

text \<open>
  The first message resolves the request on stream 1; the ping in between is answered; the error
  ends the loop, so that the second message for stream 1 is never read.
\<close>

theorem read_loop_refines_demultiplexer_witness:
  "fst demo_run \<and> conn_registry (fst (snd demo_run)) = [] \<and> conn_closed (fst (snd demo_run)) \<and>
   (\<exists>drained. abs_registry drained = [2 \<mapsto> Subscription 1] \<and> snd (snd demo_run) =
      [OneshotSend 0 (Inr \<lparr>message_type = ApplicationMessage, flags = 0, stream_id = 1,
         service_model_type = None, payload = [0x61]\<rparr>)] @ snd (fail_all ConnectionClosed drained))"
proof -
  obtain ended c' eff where run: "demo_run = (ended, c', eff)" by (cases demo_run)
  have "abs_dispatch_all demo_json (stream_messages pair_api (takeWhile (\<lambda>m. \<not> fatal pair_api m) demo_messages))
      (abs_registry (conn_registry demo_connection)) =
     ([2 \<mapsto> Subscription 1], [OneshotSend 0 (Inr \<lparr>message_type = ApplicationMessage, flags = 0, stream_id = 1,
         service_model_type = None, payload = [0x61]\<rparr>)])"
    by (auto simp: demo_live demo_connection_def new_connection_def abs_dispatch_def abs_registry_def
        hm_get_def sink_stays_def delivery_of_def fun_eq_iff)
  then have "(ended \<longleftrightarrow> (\<exists>m \<in> set demo_messages. fatal pair_api m) \<or> [] \<noteq> ([] :: read_result list)) \<and>
     (ended \<longrightarrow> conn_registry c' = [] \<and> conn_closed c' \<and>
        (\<exists>drained. abs_registry drained = [2 \<mapsto> Subscription 1] \<and> eff =
           [OneshotSend 0 (Inr \<lparr>message_type = ApplicationMessage, flags = 0, stream_id = 1,
              service_model_type = None, payload = [0x61]\<rparr>)] @ snd (fail_all ConnectionClosed drained)))"
    using run read_loop_refines_demultiplexer [OF codec_laws_demo demo_written demo_no_part,
        of "framed_reader_new demo_codec" "[[1], [0, 2, 0, 3], [0, 1, 0]]" "[]" undefined pair_api demo_json
           "\<lambda>_. WriteOk" demo_connection ended c' eff]
    by (simp add: demo_run_def del: read_loop.simps)
  then show ?thesis unfolding run fst_conv snd_conv using demo_fatal by blast
qed

theorem every_ping_is_echoed_witness:
  "wire (conn_writer (fst (snd demo_run))) = [4, 0]"
proof -
  obtain ended c' eff where run: "demo_run = (ended, c', eff)" by (cases demo_run)
  then show ?thesis
    using every_ping_is_echoed [OF msg_laws_pair_api codec_laws_demo demo_written demo_no_part,
        of "framed_reader_new demo_codec" "[[1], [0, 2, 0, 3], [0, 1, 0]]" "[]" undefined demo_json
           demo_connection ended c' eff "[[4, 0]]"]
    by (simp add: demo_run_def demo_live demo_connection_def new_connection_def backlog_new
        del: read_loop.simps)
qed

end
