(* ===== verification/Session.thy ===== *)
theory Session
  imports ReadLoop
begin

text \<open>
  The running program: one connection, its read loop, and any number of tasks that call \<open>request\<close> and
  \<open>subscribe\<close>, hold event streams or drop them, interleaved in every order at the points where the
  code can be interrupted (between the registry's and the socket's locks, and at the awaits; a write under the
  socket's lock is one step, as \<open>Writer\<close> justifies). A task
  is numbered by its position in \<open>tasks\<close>. The receiving halves of tokio's channels are a parameter,
  \<open>tk\<close>, with \<open>tokio_laws\<close> saying what its documentation promises about them.
\<close>

section \<open>Channels\<close>

text \<open>
  What polling a receiver gives, from the calls made on its channel's sender so far: \<open>oneshot_poll\<close> is
  awaiting a oneshot receiver, \<open>mpsc_poll n\<close> is \<open>recv\<close> or \<open>poll_recv\<close> after \<open>n\<close> values were taken.
\<close>

record tokio =
  oneshot_poll :: "effect list \<Rightarrow> delivery option poll"
  mpsc_poll :: "nat \<Rightarrow> effect list \<Rightarrow> delivery option poll"

fun sent_values :: "effect list \<Rightarrow> delivery list" where
  "sent_values [] = []"
| "sent_values (MpscSend c d # evs) = d # sent_values evs"
| "sent_values (OneshotSend c d # evs) = sent_values evs"
| "sent_values (SenderDrop c # evs) = sent_values evs"

definition tokio_laws :: "tokio \<Rightarrow> bool" where
  "tokio_laws tk \<longleftrightarrow>
     oneshot_poll tk [] = Pending \<and>
     (\<forall>c d. oneshot_poll tk [OneshotSend c d] = Ready (Some d)) \<and>
     (\<forall>c. oneshot_poll tk [SenderDrop c] = Ready None) \<and>
     (\<forall>n evs. n < length (sent_values evs) \<longrightarrow> mpsc_poll tk n evs = Ready (Some (sent_values evs ! n))) \<and>
     (\<forall>n evs. length (sent_values evs) \<le> n \<longrightarrow> mpsc_poll tk n evs =
        (if \<exists>c. SenderDrop c \<in> set evs then Ready None else Pending))"

section \<open>Tasks\<close>

datatype call_kind = RequestCall | SubscribeCall

record call =
  call_kind :: call_kind
  call_operation :: string
  call_model :: string
  call_payload :: json

text \<open>
  Where a task is. \<open>Cleaning err\<close>: about to remove its stream from the registry and return \<open>err\<close>.
  \<open>Cancelled\<close>: its future was dropped while it was waiting or while it wrote its message. \<open>Streaming n\<close>: it holds an event stream from
  which \<open>n\<close> messages were taken (the first is the acknowledgement). \<open>Dropped\<close>, \<open>Closing\<close>, \<open>Closed\<close>: the
  task that the stream's \<open>Drop\<close> spawned runs \<open>close_stream\<close>.
\<close>

datatype phase =
    Allocated | Registered | Waiting | Cleaning error | Returned delivery | Cancelled
  | Streaming nat | Dropped | Closing | Closed

record task =
  task_call :: call
  task_sid :: i32
  task_chan :: chan
  task_phase :: phase

definition sink_of_call :: "call \<Rightarrow> chan \<Rightarrow> stream_sink" where
  "sink_of_call cl = (case call_kind cl of RequestCall \<Rightarrow> Request | SubscribeCall \<Rightarrow> Subscription)"

definition task_sink :: "task \<Rightarrow> stream_sink" where
  "task_sink t = sink_of_call (task_call t) (task_chan t)"

definition has_channel :: "task \<Rightarrow> bool" where
  "has_channel t \<longleftrightarrow> task_phase t \<noteq> Allocated"

text \<open>The result of a call, once the wait for its first message is over.\<close>

definition request_result :: "delivery option \<Rightarrow> phase" where
  "request_result r = Returned (case r of Some d \<Rightarrow> d | None \<Rightarrow> Inl ConnectionClosed)"

definition subscribe_result :: "json_api \<Rightarrow> delivery option \<Rightarrow> phase" where
  "subscribe_result js r = (case r of
      Some (Inr ack) \<Rightarrow>
        (if message_type ack = ApplicationError then Cleaning (service_error_from js ack)
         else Streaming 1)
    | Some (Inl err) \<Rightarrow> Cleaning err
    | None \<Rightarrow> Cleaning ConnectionClosed)"

section \<open>The system\<close>

datatype reader_state = Reading | LoopLeft | StreamsFailed | TaskDone

record session =
  conn :: connection
  reader :: reader_state
  tasks :: "task list"
  log :: "effect list"

datatype 'm label =
    Start call | Register nat | Send nat write_outcome | CancelSend nat nat | Wake nat | Expire nat | Cancel nat
  | Cleanup nat | NextEvent nat "delivery option" | DropStream nat | CloseRemove nat
  | CloseSend nat write_outcome
  | Read "error + 'm option" write_outcome | FailAll | Signal

definition set_phase :: "nat \<Rightarrow> phase \<Rightarrow> session \<Rightarrow> session" where
  "set_phase i p s = s\<lparr>tasks := (tasks s)[i := (tasks s ! i)\<lparr>task_phase := p\<rparr>]\<rparr>"

text \<open>A change of the connection together with the calls on senders it made.\<close>

definition set_conn :: "connection \<times> effect list \<Rightarrow> session \<Rightarrow> session" where
  "set_conn ce s = s\<lparr>conn := fst ce, log := log s @ snd ce\<rparr>"

definition task_events :: "session \<Rightarrow> nat \<Rightarrow> effect list" where
  "task_events s i = chan_events (task_chan (tasks s ! i)) (log s)"

inductive sys_step ::
  "('m, 'h, 'o) msg_api \<Rightarrow> ('m, 'd) codec \<Rightarrow> json_api \<Rightarrow> tokio \<Rightarrow>
   session \<Rightarrow> 'm label \<Rightarrow> session \<Rightarrow> bool"
  for api :: "('m, 'h, 'o) msg_api" and codec :: "('m, 'd) codec" and js :: json_api and tk :: tokio
where
  step_start: "alloc_stream_id (conn s) = (sid, c) \<Longrightarrow>
    sys_step api codec js tk s (Start cl)
      (s\<lparr>conn := c, tasks := tasks s @ [\<lparr>task_call = cl, task_sid = sid, task_chan = 0, task_phase = Allocated\<rparr>]\<rparr>)"
| step_register: "i < length (tasks s) \<Longrightarrow> t = tasks s ! i \<Longrightarrow> task_phase t = Allocated \<Longrightarrow>
    register (sink_of_call (task_call t)) (task_sid t) (conn s) = (ch, ce) \<Longrightarrow>
    sys_step api codec js tk s (Register i)
      (set_conn ce (s\<lparr>tasks := (tasks s)[i := t\<lparr>task_chan := ch, task_phase := Registered\<rparr>]\<rparr>))"
| step_send: "i < length (tasks s) \<Longrightarrow> t = tasks s ! i \<Longrightarrow> task_phase t = Registered \<Longrightarrow>
    send_activate api codec js (task_sid t) (call_operation (task_call t)) (call_model (task_call t))
      (call_payload (task_call t)) out (conn s) = (outcome, c) \<Longrightarrow>
    sys_step api codec js tk s (Send i out)
      (set_phase i (case outcome of
           Sent \<Rightarrow> Waiting | SerializeFailed err \<Rightarrow> Returned (Inl err) | WriteFailed err \<Rightarrow> Cleaning err)
         (set_conn (c, []) s))"
| step_cancel_send: "i < length (tasks s) \<Longrightarrow> t = tasks s ! i \<Longrightarrow> task_phase t = Registered \<Longrightarrow>
    drop_activate api codec js (task_sid t) (call_operation (task_call t)) (call_model (task_call t))
      (call_payload (task_call t)) n (conn s) = Some c \<Longrightarrow>
    sys_step api codec js tk s (CancelSend i n) (set_phase i Cancelled (set_conn (c, []) s))"
| step_wake_request: "i < length (tasks s) \<Longrightarrow> t = tasks s ! i \<Longrightarrow> task_phase t = Waiting \<Longrightarrow>
    call_kind (task_call t) = RequestCall \<Longrightarrow> oneshot_poll tk (task_events s i) = Ready r \<Longrightarrow>
    sys_step api codec js tk s (Wake i) (set_phase i (request_result r) s)"
| step_wake_subscribe: "i < length (tasks s) \<Longrightarrow> t = tasks s ! i \<Longrightarrow> task_phase t = Waiting \<Longrightarrow>
    call_kind (task_call t) = SubscribeCall \<Longrightarrow> mpsc_poll tk 0 (task_events s i) = Ready r \<Longrightarrow>
    sys_step api codec js tk s (Wake i) (set_phase i (subscribe_result js r) s)"
| step_expire: "i < length (tasks s) \<Longrightarrow> t = tasks s ! i \<Longrightarrow> task_phase t = Waiting \<Longrightarrow>
    call_kind (task_call t) = RequestCall \<Longrightarrow>
    sys_step api codec js tk s (Expire i)
      (set_phase i (Cleaning (Timeout (call_operation (task_call t)) (request_timeout (conn s)))) s)"
| step_cancel: "i < length (tasks s) \<Longrightarrow> task_phase (tasks s ! i) = Waiting \<Longrightarrow>
    sys_step api codec js tk s (Cancel i) (set_phase i Cancelled s)"
| step_cleanup: "i < length (tasks s) \<Longrightarrow> t = tasks s ! i \<Longrightarrow> task_phase t = Cleaning err \<Longrightarrow>
    sys_step api codec js tk s (Cleanup i)
      (set_phase i (Returned (Inl err)) (set_conn (unregister (task_sid t) (conn s)) s))"
| step_next_event: "i < length (tasks s) \<Longrightarrow> task_phase (tasks s ! i) = Streaming n \<Longrightarrow>
    mpsc_poll tk n (task_events s i) = Ready item \<Longrightarrow>
    sys_step api codec js tk s (NextEvent i item)
      (set_phase i (Streaming (case item of Some _ \<Rightarrow> Suc n | None \<Rightarrow> n)) s)"
| step_drop_stream: "i < length (tasks s) \<Longrightarrow> task_phase (tasks s ! i) = Streaming n \<Longrightarrow>
    sys_step api codec js tk s (DropStream i) (set_phase i Dropped s)"
| step_close_remove: "i < length (tasks s) \<Longrightarrow> t = tasks s ! i \<Longrightarrow> task_phase t = Dropped \<Longrightarrow>
    sys_step api codec js tk s (CloseRemove i)
      (set_phase i Closing (set_conn (unregister (task_sid t) (conn s)) s))"
| step_close_send: "i < length (tasks s) \<Longrightarrow> t = tasks s ! i \<Longrightarrow> task_phase t = Closing \<Longrightarrow>
    sys_step api codec js tk s (CloseSend i out)
      (set_phase i Closed (set_conn (send_terminate api codec (task_sid t) out (conn s), []) s))"
| step_read: "reader s = Reading \<Longrightarrow>
    read_loop_turn api codec js frame out (conn s) = (flow, ce) \<Longrightarrow>
    sys_step api codec js tk s (Read frame out)
      (set_conn ce (s\<lparr>reader := (case flow of Continue \<Rightarrow> Reading | Break \<Rightarrow> LoopLeft)\<rparr>))"
| step_fail_all: "reader s = LoopLeft \<Longrightarrow> mset drained = mset (conn_registry (conn s)) \<Longrightarrow>
    sys_step api codec js tk s FailAll
      (set_conn (read_loop_fail ((conn s)\<lparr>conn_registry := drained\<rparr>)) (s\<lparr>reader := StreamsFailed\<rparr>))"
| step_signal: "reader s = StreamsFailed \<Longrightarrow>
    sys_step api codec js tk s Signal (s\<lparr>conn := read_loop_signal (conn s), reader := TaskDone\<rparr>)"

text \<open>Inversion, for any step and for those that begin a call.\<close>

inductive_cases sys_stepE: "sys_step api codec js tk s l s'"
inductive_cases start_stepE: "sys_step api codec js tk s (Start cl) s'"
inductive_cases register_stepE: "sys_step api codec js tk s (Register i) s'"
inductive_cases send_stepE: "sys_step api codec js tk s (Send i out) s'"

definition session_init :: "session \<Rightarrow> bool" where
  "session_init s \<longleftrightarrow> (\<exists>wr timeout. s = \<lparr>conn = new_connection wr timeout, reader = Reading, tasks = [], log = []\<rparr>)"

section \<open>Executing a schedule\<close>

text \<open>
  The steps as a function of the label (\<open>FailAll\<close> drains the map in the order it stands), and a whole
  schedule: \<open>None\<close> when a step is not enabled. Every schedule that executes is a run of the system.
\<close>

definition in_phase :: "nat \<Rightarrow> phase \<Rightarrow> session \<Rightarrow> bool" where
  "in_phase i p s \<longleftrightarrow> i < length (tasks s) \<and> task_phase (tasks s ! i) = p"

definition wake :: "json_api \<Rightarrow> tokio \<Rightarrow> nat \<Rightarrow> session \<Rightarrow> session option" where
  "wake js tk i s = (case call_kind (task_call (tasks s ! i)) of
      RequestCall \<Rightarrow> (case oneshot_poll tk (task_events s i) of
          Pending \<Rightarrow> None | Ready r \<Rightarrow> Some (set_phase i (request_result r) s))
    | SubscribeCall \<Rightarrow> (case mpsc_poll tk 0 (task_events s i) of
          Pending \<Rightarrow> None | Ready r \<Rightarrow> Some (set_phase i (subscribe_result js r) s)))"

fun sys_exec ::
  "('m, 'h, 'o) msg_api \<Rightarrow> ('m, 'd) codec \<Rightarrow> json_api \<Rightarrow> tokio \<Rightarrow> 'm label \<Rightarrow> session \<Rightarrow> session option" where
  "sys_exec api codec js tk (Start cl) s =
     (let (sid, c) = alloc_stream_id (conn s) in
      Some (s\<lparr>conn := c, tasks := tasks s @ [\<lparr>task_call = cl, task_sid = sid, task_chan = 0, task_phase = Allocated\<rparr>]\<rparr>))"
| "sys_exec api codec js tk (Register i) s =
     (if in_phase i Allocated s then
        (let t = tasks s ! i; (ch, ce) = register (sink_of_call (task_call t)) (task_sid t) (conn s) in
         Some (set_conn ce (s\<lparr>tasks := (tasks s)[i := t\<lparr>task_chan := ch, task_phase := Registered\<rparr>]\<rparr>)))
      else None)"
| "sys_exec api codec js tk (Send i out) s =
     (if in_phase i Registered s then
        (let t = tasks s ! i;
             (outcome, c) = send_activate api codec js (task_sid t) (call_operation (task_call t))
               (call_model (task_call t)) (call_payload (task_call t)) out (conn s) in
         Some (set_phase i (case outcome of
             Sent \<Rightarrow> Waiting | SerializeFailed err \<Rightarrow> Returned (Inl err) | WriteFailed err \<Rightarrow> Cleaning err)
           (set_conn (c, []) s)))
      else None)"
| "sys_exec api codec js tk (CancelSend i n) s =
     (if in_phase i Registered s then
        (let t = tasks s ! i in
         map_option (\<lambda>c. set_phase i Cancelled (set_conn (c, []) s))
           (drop_activate api codec js (task_sid t) (call_operation (task_call t)) (call_model (task_call t))
              (call_payload (task_call t)) n (conn s)))
      else None)"
| "sys_exec api codec js tk (Wake i) s = (if in_phase i Waiting s then wake js tk i s else None)"
| "sys_exec api codec js tk (Expire i) s =
     (if in_phase i Waiting s \<and> call_kind (task_call (tasks s ! i)) = RequestCall then
        Some (set_phase i (Cleaning (Timeout (call_operation (task_call (tasks s ! i))) (request_timeout (conn s)))) s)
      else None)"
| "sys_exec api codec js tk (Cancel i) s = (if in_phase i Waiting s then Some (set_phase i Cancelled s) else None)"
| "sys_exec api codec js tk (Cleanup i) s =
     (if i < length (tasks s) then (case task_phase (tasks s ! i) of
          Cleaning err \<Rightarrow>
            Some (set_phase i (Returned (Inl err)) (set_conn (unregister (task_sid (tasks s ! i)) (conn s)) s))
        | _ \<Rightarrow> None) else None)"
| "sys_exec api codec js tk (NextEvent i item) s =
     (if i < length (tasks s) then (case task_phase (tasks s ! i) of
          Streaming n \<Rightarrow>
            (if mpsc_poll tk n (task_events s i) = Ready item
             then Some (set_phase i (Streaming (case item of Some _ \<Rightarrow> Suc n | None \<Rightarrow> n)) s) else None)
        | _ \<Rightarrow> None) else None)"
| "sys_exec api codec js tk (DropStream i) s =
     (if i < length (tasks s) then (case task_phase (tasks s ! i) of
          Streaming n \<Rightarrow> Some (set_phase i Dropped s) | _ \<Rightarrow> None) else None)"
| "sys_exec api codec js tk (CloseRemove i) s =
     (if in_phase i Dropped s
      then Some (set_phase i Closing (set_conn (unregister (task_sid (tasks s ! i)) (conn s)) s)) else None)"
| "sys_exec api codec js tk (CloseSend i out) s =
     (if in_phase i Closing s
      then Some (set_phase i Closed
        (set_conn (send_terminate api codec (task_sid (tasks s ! i)) out (conn s), []) s)) else None)"
| "sys_exec api codec js tk (Read frame out) s =
     (if reader s = Reading then
        (let (flow, ce) = read_loop_turn api codec js frame out (conn s) in
         Some (set_conn ce (s\<lparr>reader := (case flow of Continue \<Rightarrow> Reading | Break \<Rightarrow> LoopLeft)\<rparr>)))
      else None)"
| "sys_exec api codec js tk FailAll s =
     (if reader s = LoopLeft then Some (set_conn (read_loop_fail (conn s)) (s\<lparr>reader := StreamsFailed\<rparr>)) else None)"
| "sys_exec api codec js tk Signal s =
     (if reader s = StreamsFailed then Some (s\<lparr>conn := read_loop_signal (conn s), reader := TaskDone\<rparr>) else None)"

fun exec_run ::
  "('m, 'h, 'o) msg_api \<Rightarrow> ('m, 'd) codec \<Rightarrow> json_api \<Rightarrow> tokio \<Rightarrow> 'm label list \<Rightarrow> session \<Rightarrow> session option" where
  "exec_run api codec js tk [] s = Some s"
| "exec_run api codec js tk (l # ls) s = (case sys_exec api codec js tk l s of
      None \<Rightarrow> None | Some s' \<Rightarrow> exec_run api codec js tk ls s')"

lemma sys_exec_step: "sys_exec api codec js tk l s = Some s' \<Longrightarrow> sys_step api codec js tk s l s'"
proof (cases l)
  case FailAll
  moreover assume "sys_exec api codec js tk l s = Some s'"
  ultimately show ?thesis
    using step_fail_all [of s "conn_registry (conn s)" api codec js tk] by (auto split: if_splits)
qed (auto simp: in_phase_def wake_def Let_def intro: sys_step.intros
       split: if_splits prod.splits phase.splits call_kind.splits poll.splits)

lemma exec_run_run: "exec_run api codec js tk ls s = Some s' \<Longrightarrow> run (sys_step api codec js tk) s ls s'"
  by (induction ls arbitrary: s) (auto intro: run.intros dest: sys_exec_step split: option.splits)

end
