(* ===== verification/SessionInvariants.thy ===== *)
theory SessionInvariants
  imports Session
begin

text \<open>
  What holds in every reachable state of the running program, and what one step can change: the relation between the
  registry, the tasks and the calls made on senders (\<open>session_inv\<close>), the phases of the tasks
  (\<open>answers_inv\<close>) and the streams registered after the end (\<open>late_inv\<close>). Each is an interpretation of
  \<open>invariant_system\<close>; that the operations on the registry keep the first one is proved once, in the
  context of \<open>registry_op\<close>.
\<close>

section \<open>The invariant\<close>

text \<open>
  \<open>streams_ok\<close> relates the registry, the tasks and the calls made on senders: each registered stream is
  that of a task; each task that has a channel has one of its own, whose history is that of its
  stream. A task's id is the number of the tasks before it plus one, as a 32-bit word.
\<close>

definition task_entry :: "task \<Rightarrow> i32 \<times> stream_sink" where
  "task_entry t = (task_sid t, task_sink t)"

definition task_ok :: "registry \<Rightarrow> nat \<Rightarrow> effect list \<Rightarrow> task \<Rightarrow> bool" where
  "task_ok reg bound lg t \<longleftrightarrow> task_chan t < bound \<and>
     history (task_sid t) (task_sink t) (task_entry t \<in> set reg) (chan_events (task_chan t) lg)"

definition streams_ok :: "registry \<Rightarrow> nat \<Rightarrow> task list \<Rightarrow> effect list \<Rightarrow> bool" where
  "streams_ok reg bound ts lg \<longleftrightarrow>
     hm_wf reg \<and>
     set reg \<subseteq> task_entry ` {t \<in> set ts. has_channel t} \<and>
     (\<forall>t \<in> set ts. has_channel t \<longrightarrow> task_ok reg bound lg t) \<and>
     (\<forall>i < length ts. \<forall>j < length ts. has_channel (ts ! i) \<and> has_channel (ts ! j) \<and>
        task_chan (ts ! i) = task_chan (ts ! j) \<longrightarrow> i = j) \<and>
     (\<forall>e \<in> set lg. effect_chan e < bound)"

lemma sink_chan_sink_of_call [simp]: "sink_chan (sink_of_call cl ch) = ch"
  by (cases "call_kind cl") (simp_all add: sink_of_call_def)

lemma sink_chan_task_sink [simp]: "sink_chan (task_sink t) = task_chan t"
  by (simp add: task_sink_def)

lemma streams_okD:
  assumes "streams_ok reg bound ts lg"
  shows "hm_wf reg" "set reg \<subseteq> task_entry ` {t \<in> set ts. has_channel t}"
    "t \<in> set ts \<Longrightarrow> has_channel t \<Longrightarrow> task_ok reg bound lg t"
    "e \<in> set lg \<Longrightarrow> effect_chan e < bound"
  using assms by (simp_all add: streams_ok_def)

lemma streams_ok_index:
  assumes "streams_ok reg bound ts lg" "k < length ts" "l < length ts" "has_channel (ts ! k)"
    "has_channel (ts ! l)" "task_chan (ts ! k) = task_chan (ts ! l)"
  shows "k = l"
  using assms by (simp add: streams_ok_def)

lemma streams_okI:
  assumes "hm_wf reg" "set reg \<subseteq> task_entry ` {t \<in> set ts. has_channel t}"
    and "\<And>t. t \<in> set ts \<Longrightarrow> has_channel t \<Longrightarrow> task_ok reg bound lg t"
    and "\<And>k l. k < length ts \<Longrightarrow> l < length ts \<Longrightarrow> has_channel (ts ! k) \<Longrightarrow> has_channel (ts ! l) \<Longrightarrow>
      task_chan (ts ! k) = task_chan (ts ! l) \<Longrightarrow> k = l"
    and "\<And>e. e \<in> set lg \<Longrightarrow> effect_chan e < bound"
  shows "streams_ok reg bound ts lg"
  using assms by (simp add: streams_ok_def)

lemma streams_ok_entry:
  assumes "streams_ok reg bound ts lg" "e \<in> set reg"
  obtains t where "t \<in> set ts" "has_channel t" "e = task_entry t" "sink_chan (snd e) = task_chan t"
proof -
  from subsetD [OF streams_okD(2) [OF assms(1)] assms(2)] obtain t
    where "t \<in> set ts" "has_channel t" "e = task_entry t" by auto
  then show thesis by (intro that) (simp_all add: task_entry_def)
qed

lemma streams_ok_unique:
  assumes "streams_ok reg bound ts lg" "t \<in> set ts" "has_channel t" "t' \<in> set ts" "has_channel t'"
    "task_chan t = task_chan t'"
  shows "t = t'"
proof -
  obtain i j where "i < length ts" "t = ts ! i" "j < length ts" "t' = ts ! j"
    using assms(2,4) by (auto simp: in_set_conv_nth)
  then show ?thesis using assms by (auto simp: streams_ok_def)
qed

lemma streams_ok_distinct:
  assumes ok: "streams_ok reg bound ts lg"
  shows "chans_distinct reg"
proof -
  have "inj_on (sink_chan \<circ> snd) (set reg)"
  proof (rule inj_onI)
    fix e e' assume e: "e \<in> set reg" "e' \<in> set reg" "(sink_chan \<circ> snd) e = (sink_chan \<circ> snd) e'"
    obtain t where t: "t \<in> set ts" "has_channel t" "e = task_entry t" "sink_chan (snd e) = task_chan t"
      using streams_ok_entry [OF ok e(1)] by blast
    obtain t' where t': "t' \<in> set ts" "has_channel t'" "e' = task_entry t'" "sink_chan (snd e') = task_chan t'"
      using streams_ok_entry [OF ok e(2)] by blast
    from e(3) t t' have "t = t'" by (intro streams_ok_unique [OF ok]) simp_all
    then show "e = e'" using t t' by simp
  qed
  moreover have "distinct reg" using streams_okD(1) [OF ok] by (auto simp: hm_wf_def distinct_map)
  ultimately show ?thesis by (simp add: chans_distinct_def distinct_map)
qed

lemma streams_ok_chans:
  assumes ok: "streams_ok reg bound ts lg"
  shows "c \<in> reg_chans reg \<Longrightarrow> c < bound"
    and "t \<in> set ts \<Longrightarrow> has_channel t \<Longrightarrow> task_entry t \<notin> set reg \<Longrightarrow> task_chan t \<notin> reg_chans reg"
proof -
  assume "c \<in> reg_chans reg"
  then obtain e where "e \<in> set reg" "c = sink_chan (snd e)" by (auto simp: reg_chans_def)
  then show "c < bound"
    using streams_okD(3) [OF ok] by (elim streams_ok_entry [OF ok]) (simp add: task_ok_def)
next
  assume t: "t \<in> set ts" "has_channel t" "task_entry t \<notin> set reg"
  show "task_chan t \<notin> reg_chans reg"
  proof
    assume "task_chan t \<in> reg_chans reg"
    then obtain e where e: "e \<in> set reg" "task_chan t = sink_chan (snd e)" by (auto simp: reg_chans_def)
    obtain t' where t': "t' \<in> set ts" "has_channel t'" "e = task_entry t'" "sink_chan (snd e) = task_chan t'"
      using streams_ok_entry [OF ok e(1)] by blast
    have "t = t'" using t t' e by (intro streams_ok_unique [OF ok]) simp_all
    then show False using t(3) e t' by simp
  qed
qed

text \<open>An operation on the registry that keeps the contract keeps the invariant.\<close>

context registry_op begin

lemma rop_streams_ok:
  assumes ok: "streams_ok reg bound ts lg"
  shows "streams_ok (fst (rop reg)) bound ts (lg @ snd (rop reg))"
proof -
  have "task_ok (fst (rop reg)) bound (lg @ snd (rop reg)) t" if t: "t \<in> set ts" "has_channel t" for t
    using rop_history [OF streams_okD(1) [OF ok] streams_ok_distinct [OF ok],
        of "task_sid t" "task_sink t" "chan_events (task_chan t) lg"]
      streams_okD(3) [OF ok t] streams_ok_chans(2) [OF ok t]
    by (simp add: task_ok_def task_entry_def)
  moreover have "effect_chan e < bound" if "e \<in> set (lg @ snd (rop reg))" for e
    using that rop_effects_registered [of e reg] streams_okD(4) [OF ok] streams_ok_chans(1) [OF ok]
    by auto
  moreover have "set (fst (rop reg)) \<subseteq> task_entry ` {t \<in> set ts. has_channel t}"
    using rop_subset [OF streams_okD(1) [OF ok]] streams_okD(2) [OF ok] by blast
  ultimately show ?thesis
    using ok rop_wf by (simp add: streams_ok_def)
qed

end

lemma streams_ok_same_entries:
  assumes ok: "streams_ok reg bound ts lg" and "mset reg' = mset reg"
  shows "streams_ok reg' bound ts lg"
proof -
  have "set reg' = set reg" using assms(2) by (rule mset_eq_setD)
  moreover have "hm_wf reg'"
    using assms streams_okD(1) [OF ok] unfolding hm_wf_def
    by (metis mset_map mset_eq_imp_distinct_iff)
  ultimately show ?thesis using ok by (simp add: streams_ok_def task_ok_def)
qed

text \<open>A task that only changes its phase, a new task, and a task that registers its stream.\<close>

lemma streams_ok_phase:
  assumes ok: "streams_ok reg bound ts lg" and i: "i < length ts" "has_channel (ts ! i)" "p \<noteq> Allocated"
  shows "streams_ok reg bound (ts[i := (ts ! i)\<lparr>task_phase := p\<rparr>]) lg"
proof (rule streams_okI)
  let ?t = "(ts ! i)\<lparr>task_phase := p\<rparr>"
  have same: "task_entry ?t = task_entry (ts ! i)" "task_ok reg bound lg ?t = task_ok reg bound lg (ts ! i)"
    by (simp_all add: task_entry_def task_ok_def task_sink_def)
  have chan: "has_channel ?t" using i(3) by (simp add: has_channel_def)
  show "set reg \<subseteq> task_entry ` {t \<in> set (ts[i := ?t]). has_channel t}"
  proof
    fix e assume "e \<in> set reg"
    then obtain t where t: "t \<in> set ts" "has_channel t" "e = task_entry t"
      using streams_ok_entry [OF ok] by blast
    then obtain j where j: "j < length ts" "t = ts ! j" by (auto simp: in_set_conv_nth)
    show "e \<in> task_entry ` {t \<in> set (ts[i := ?t]). has_channel t}"
    proof (cases "j = i")
      case True
      then have "e = task_entry ?t" using t j same by simp
      moreover have "?t \<in> set (ts[i := ?t])" using i(1) by (rule set_update_memI)
      ultimately show ?thesis using chan by blast
    next
      case False
      then have "t \<in> set (ts[i := ?t])" using j by (metis length_list_update nth_list_update_neq nth_mem)
      then show ?thesis using t by blast
    qed
  qed
  show "task_ok reg bound lg t" if "t \<in> set (ts[i := ?t])" "has_channel t" for t
    using that streams_okD(3) [OF ok] same(2) i set_update_subset_insert [of ts i ?t] by auto
  show "k = l" if "k < length (ts[i := ?t])" "l < length (ts[i := ?t])"
    "has_channel (ts[i := ?t] ! k)" "has_channel (ts[i := ?t] ! l)"
    "task_chan (ts[i := ?t] ! k) = task_chan (ts[i := ?t] ! l)" for k l
    using that i streams_ok_index [OF ok, of k l] by (cases "k = i"; cases "l = i") simp_all
qed (use streams_okD [OF ok] in auto)

lemma streams_ok_start:
  assumes ok: "streams_ok reg bound ts lg" and "\<not> has_channel t"
  shows "streams_ok reg bound (ts @ [t]) lg"
  using assms by (auto simp: streams_ok_def nth_append less_Suc_eq)

lemma streams_ok_register:
  assumes ok: "streams_ok reg bound ts lg" and i: "i < length ts" "\<not> has_channel (ts ! i)"
    and t: "t = (ts ! i)\<lparr>task_chan := bound, task_phase := Registered\<rparr>"
    and ins: "reg_insert (task_sid t) (task_sink t) reg = (reg', eff)"
  shows "streams_ok reg' (Suc bound) (ts[i := t]) (lg @ eff)"
proof -
  let ?rop = "reg_remove (task_sid t) reg"
  have reg': "reg' = task_entry t # fst ?rop" "eff = snd ?rop"
    using ins by (simp_all add: reg_insert_remove task_entry_def)
  have ok': "streams_ok (fst ?rop) bound ts (lg @ eff)"
    unfolding reg'(2) by (rule removing.rop_streams_ok [OF ok])
  have new: "has_channel t" "task_chan t = bound" using t by (simp_all add: has_channel_def)
  have old: "task_chan u < bound" "task_entry u \<noteq> task_entry t" if "u \<in> set ts" "has_channel u" for u
  proof -
    show lt: "task_chan u < bound" using streams_okD(3) [OF ok that] by (simp add: task_ok_def)
    show "task_entry u \<noteq> task_entry t"
    proof
      assume "task_entry u = task_entry t"
      then have "sink_chan (snd (task_entry u)) = sink_chan (snd (task_entry t))" by simp
      then show False using lt new(2) by (simp add: task_entry_def)
    qed
  qed
  have others: "u \<in> set (ts[i := t])" if "u \<in> set ts" "has_channel u" for u
    using that i(2) by (metis in_set_conv_nth length_list_update nth_list_update_neq)
  have from_old: "u = t \<or> u \<in> set ts" if "u \<in> set (ts[i := t])" for u
    using that set_update_subset_insert [of ts i t] by auto
  have "hm_wf reg'"
    using streams_okD(1) [OF ok'] unfolding reg' hm_wf_def task_entry_def
    by (auto simp: reg_remove_def set_hm_remove)
  moreover have "set reg' \<subseteq> task_entry ` {u \<in> set (ts[i := t]). has_channel u}"
  proof -
    have "{u \<in> set ts. has_channel u} \<subseteq> {u \<in> set (ts[i := t]). has_channel u}" using others by blast
    then have "set (fst ?rop) \<subseteq> task_entry ` {u \<in> set (ts[i := t]). has_channel u}"
      using streams_okD(2) [OF ok'] by (blast dest: image_mono)
    moreover have "t \<in> set (ts[i := t])" using i(1) by (rule set_update_memI)
    then have "task_entry t \<in> task_entry ` {u \<in> set (ts[i := t]). has_channel u}" using new(1) by blast
    ultimately show ?thesis by (simp add: reg')
  qed
  moreover have "task_ok reg' (Suc bound) (lg @ eff) u" if u: "u \<in> set (ts[i := t])" "has_channel u" for u
  proof (cases "u = t")
    case True
    have "chan_events bound (lg @ eff) = []"
      using streams_okD(4) [OF ok'] by (auto simp: chan_events_eq_Nil simp del: chan_events_simps)
    then show ?thesis using True new(2) history_new by (simp add: task_ok_def reg')
  next
    case False
    then have "u \<in> set ts" using from_old u(1) by blast
    then show ?thesis
      using streams_okD(3) [OF ok' _ u(2)] old [OF _ u(2)] by (simp add: task_ok_def reg' less_Suc_eq)
  qed
  moreover have "\<forall>e \<in> set (lg @ eff). effect_chan e < Suc bound"
    using streams_okD(4) [OF ok'] by (auto simp: less_Suc_eq)
  moreover have "k = l" if kl: "k < length (ts[i := t])" "l < length (ts[i := t])"
    "has_channel (ts[i := t] ! k)" "has_channel (ts[i := t] ! l)"
    "task_chan (ts[i := t] ! k) = task_chan (ts[i := t] ! l)" for k l
    using kl streams_ok_index [OF ok, of k l] old(1) [of "ts ! k"] old(1) [of "ts ! l"] new(2)
    by (cases "k = i"; cases "l = i") auto
  ultimately show ?thesis by (intro streams_okI) simp_all
qed

text \<open>The fields that no operation but the ones meant for them touches.\<close>

definition conn_frame :: "connection \<Rightarrow> i32 \<times> bool \<times> duration \<times> chan" where
  "conn_frame c = (next_stream_id c, conn_closed c, request_timeout c, next_chan c)"

lemma conn_frame_eq [simp]:
  "conn_frame c' = conn_frame c \<longleftrightarrow> next_stream_id c' = next_stream_id c \<and> conn_closed c' = conn_closed c \<and>
     request_timeout c' = request_timeout c \<and> next_chan c' = next_chan c"
  by (auto simp: conn_frame_def)

lemma send_activate_frame:
  "send_activate api codec js sid operation model req out c = (outcome, c') \<Longrightarrow>
   conn_frame c' = conn_frame c \<and> conn_registry c' = conn_registry c"
  by (auto simp: send_activate_def split: sum.splits prod.splits)

lemma drop_activate_frame:
  "drop_activate api codec js sid operation model req n c = Some c' \<Longrightarrow>
   conn_frame c' = conn_frame c \<and> conn_registry c' = conn_registry c"
  by (auto simp: drop_activate_def split: sum.splits)

lemma send_terminate_frame:
  "conn_frame (send_terminate api codec sid out c) = conn_frame c \<and>
   conn_registry (send_terminate api codec sid out c) = conn_registry c"
  by (simp add: send_terminate_def split: prod.splits)

lemma unregister_frame:
  "conn_frame (fst (unregister sid c)) = conn_frame c"
  "conn_registry (fst (unregister sid c)) = fst (reg_remove sid (conn_registry c))"
  "snd (unregister sid c) = snd (reg_remove sid (conn_registry c))"
  by (simp_all add: unregister_def split: prod.splits)

lemma read_loop_fail_frame:
  "conn_frame (fst (read_loop_fail c)) = conn_frame c"
  "conn_registry (fst (read_loop_fail c)) = fst (fail_all ConnectionClosed (conn_registry c))"
  "snd (read_loop_fail c) = snd (fail_all ConnectionClosed (conn_registry c))"
  by (simp_all add: read_loop_fail_def split: prod.splits)

text \<open>The stream message a turn of the loop dispatches, if it dispatches one.\<close>

definition frame_rpc :: "('m, 'h, 'o) msg_api \<Rightarrow> error + 'm option \<Rightarrow> rpc_message option" where
  "frame_rpc api frame = (case frame of
      Inr (Some m) \<Rightarrow> (case parse api m of
          Inr rpc \<Rightarrow> if stream_id rpc = 0 then None else Some rpc
        | Inl _ \<Rightarrow> None)
    | _ \<Rightarrow> None)"

lemma read_loop_turn_frame:
  assumes "read_loop_turn api codec js frame out c = (flow, c', eff)"
  shows "conn_frame c' = conn_frame c"
    and "(conn_registry c', eff) = (case frame_rpc api frame of
           None \<Rightarrow> (conn_registry c, []) | Some rpc \<Rightarrow> dispatch js rpc (conn_registry c))"
  using assms
  by (auto simp: read_loop_turn_def frame_rpc_def split: sum.splits option.splits if_splits prod.splits)

lemma set_conn_simps [simp]:
  "conn (set_conn ce s) = fst ce" "log (set_conn ce s) = log s @ snd ce"
  "tasks (set_conn ce s) = tasks s" "reader (set_conn ce s) = reader s"
  by (simp_all add: set_conn_def)

lemma set_phase_simps [simp]:
  "conn (set_phase i p s) = conn s" "log (set_phase i p s) = log s" "reader (set_phase i p s) = reader s"
  "tasks (set_phase i p s) = (tasks s)[i := (tasks s ! i)\<lparr>task_phase := p\<rparr>]"
  by (simp_all add: set_phase_def)

definition session_streams_ok :: "session \<Rightarrow> bool" where
  "session_streams_ok s \<longleftrightarrow> streams_ok (conn_registry (conn s)) (next_chan (conn s)) (tasks s) (log s)"

definition session_inv :: "session \<Rightarrow> bool" where
  "session_inv s \<longleftrightarrow> session_streams_ok s \<and>
     (\<forall>i < length (tasks s). task_sid (tasks s ! i) = 1 + word_of_nat i) \<and>
     next_stream_id (conn s) = 1 + word_of_nat (length (tasks s)) \<and>
     (conn_closed (conn s) \<longleftrightarrow> reader s = TaskDone)"

lemma set_phase_streams_ok:
  "session_streams_ok s \<Longrightarrow> i < length (tasks s) \<Longrightarrow> has_channel (tasks s ! i) \<Longrightarrow> p \<noteq> Allocated \<Longrightarrow>
   session_streams_ok (set_phase i p s)"
  by (simp add: session_streams_ok_def streams_ok_phase)

lemma set_conn_streams_ok:
  assumes "session_streams_ok s"
  shows "conn_frame c = conn_frame (conn s) \<Longrightarrow> conn_registry c = conn_registry (conn s) \<Longrightarrow>
      session_streams_ok (set_conn (c, []) s)"
    and "session_streams_ok (set_conn (unregister sid (conn s)) s)"
  using assms removing.rop_streams_ok [of "conn_registry (conn s)" "next_chan (conn s)" "tasks s" "log s" sid]
    unregister_frame [of sid "conn s"]
  by (simp_all add: session_streams_ok_def)

lemma task_phase_has_channel: "task_phase t = p \<Longrightarrow> p \<noteq> Allocated \<Longrightarrow> has_channel t"
  by (simp add: has_channel_def)

lemma session_streams_ok_step:
  assumes "session_streams_ok s" "sys_step api codec js tk s l s'"
  shows "session_streams_ok s'"
  using assms(2,1)
proof cases
  case (step_start sid c cl)
  then show ?thesis using assms(1)
    by (auto simp: session_streams_ok_def alloc_stream_id_def has_channel_def intro!: streams_ok_start)
next
  case (step_register i t ch ce)
  have "streams_ok (conn_registry (fst ce)) (Suc (next_chan (conn s)))
      ((tasks s)[i := t\<lparr>task_chan := ch, task_phase := Registered\<rparr>]) (log s @ snd ce)"
    using assms(1) step_register
    by (intro streams_ok_register [where reg = "conn_registry (conn s)"])
       (auto simp: session_streams_ok_def has_channel_def register_def task_sink_def split: prod.splits)
  then show ?thesis using step_register
    by (auto simp: session_streams_ok_def register_def split: prod.splits)
next
  case (step_read frame out flow ce)
  obtain c' eff where ce: "ce = (c', eff)" by (cases ce)
  note fr = read_loop_turn_frame [OF step_read(4) [unfolded ce]]
  have "streams_ok (conn_registry c') (next_chan (conn s)) (tasks s) (log s @ eff)"
  proof (cases "frame_rpc api frame")
    case None
    then show ?thesis using fr(2) assms(1) by (simp add: session_streams_ok_def)
  next
    case (Some rpc)
    then show ?thesis using fr(2) assms(1) dispatching.rop_streams_ok [where js = js and rpc = rpc]
      by (metis (no_types, lifting) session_streams_ok_def fst_conv snd_conv option.simps(5))
  qed
  then show ?thesis using fr(1) ce step_read(1,2) by (simp add: session_streams_ok_def)
next
  case (step_fail_all drained)
  have "streams_ok drained (next_chan (conn s)) (tasks s) (log s)"
    using assms(1) step_fail_all by (auto simp: session_streams_ok_def intro: streams_ok_same_entries)
  then show ?thesis
    using step_fail_all failing.rop_streams_ok [of drained "next_chan (conn s)" "tasks s" "log s" ConnectionClosed]
      read_loop_fail_frame [of "(conn s)\<lparr>conn_registry := drained\<rparr>"]
    by (simp add: session_streams_ok_def)
next
  case step_signal
  then show ?thesis using assms(1) by (simp add: session_streams_ok_def read_loop_signal_def)
next
  case (step_cancel_send i t n c)
  note same = drop_activate_frame [OF step_cancel_send(6)]
  have "session_streams_ok (set_conn (c, []) s)"
    using same by (intro set_conn_streams_ok [OF assms(1)]) simp_all
  then show ?thesis using step_cancel_send by (auto intro!: set_phase_streams_ok simp: has_channel_def)
qed (auto intro!: set_phase_streams_ok set_conn_streams_ok send_activate_frame [THEN conjunct1]
   send_activate_frame [THEN conjunct2] send_terminate_frame [THEN conjunct1] send_terminate_frame [THEN conjunct2]
   simp: has_channel_def request_result_def subscribe_result_def
   split: sent.splits option.splits sum.splits if_splits simp del: conn_frame_eq)

lemma nth_task_sid_update [simp]:
  "task_sid t = task_sid (ts ! i) \<Longrightarrow> task_sid (ts[i := t] ! j) = task_sid (ts ! j)"
  by (cases "j = i"; cases "i < length ts") (simp_all add: list_update_beyond)

lemma session_inv_step:
  assumes "session_inv s" "sys_step api codec js tk s l s'"
  shows "session_inv s'"
proof -
  have "session_streams_ok s'"
    using assms session_streams_ok_step by (auto simp: session_inv_def)
  moreover have "(\<forall>i < length (tasks s'). task_sid (tasks s' ! i) = 1 + word_of_nat i) \<and>
     next_stream_id (conn s') = 1 + word_of_nat (length (tasks s')) \<and>
     (conn_closed (conn s') \<longleftrightarrow> reader s' = TaskDone)"
    using assms(2,1)
  proof cases
    case (step_start sid c cl)
    then show ?thesis using assms(1)
      by (auto simp: session_inv_def alloc_stream_id_def nth_append less_Suc_eq algebra_simps)
  next
    case (step_register i t ch ce)
    then show ?thesis using assms(1)
      by (auto simp: session_inv_def register_def split: prod.splits)
  next
    case (step_send i t out outcome c)
    then show ?thesis using assms(1) send_activate_frame [OF step_send(6)]
      by (simp add: session_inv_def)
  next
    case (step_cancel_send i t n c)
    then show ?thesis using assms(1) drop_activate_frame [OF step_cancel_send(6)]
      by (simp add: session_inv_def)
  next
    case (step_read frame out flow ce)
    then show ?thesis using assms(1) read_loop_turn_frame(1) [of api codec js frame out "conn s" flow "fst ce" "snd ce"]
      by (simp add: session_inv_def split: control_flow.split)
  next
    case (step_fail_all drained)
    then show ?thesis using assms(1) read_loop_fail_frame(1) [of "(conn s)\<lparr>conn_registry := drained\<rparr>"]
      by (simp add: session_inv_def)
  next
    case step_signal
    then show ?thesis using assms(1) by (simp add: session_inv_def read_loop_signal_def)
  next
    case (step_close_send i t out)
    then show ?thesis using assms(1) send_terminate_frame [of api codec "task_sid t" out "conn s"]
      by (simp add: session_inv_def)
  next
    case (step_cleanup i t err)
    then show ?thesis using assms(1) unregister_frame(1) [of "task_sid t" "conn s"]
      by (simp add: session_inv_def)
  next
    case (step_close_remove i t)
    then show ?thesis using assms(1) unregister_frame(1) [of "task_sid t" "conn s"]
      by (simp add: session_inv_def)
  qed (auto simp: session_inv_def)
  ultimately show ?thesis by (simp add: session_inv_def)
qed

lemma session_inv_init: "session_init s \<Longrightarrow> session_inv s"
  by (auto simp: session_init_def session_inv_def session_streams_ok_def new_connection_def intro!: streams_okI)

interpretation streams: invariant_system session_init "sys_step api codec js tk" session_inv
  for api :: "('m, 'h, 'o) msg_api" and codec :: "('m, 'd) codec" and js tk
  by unfold_locales (rule session_inv_init session_inv_step; assumption)+

section \<open>What one step may change\<close>

interpretation idling: registry_op "\<lambda>reg. (reg, [])"
  by unfold_locales (simp_all add: sink_step_def)

text \<open>
  Every step acts on the registry by one operation that keeps the contract, after which \<open>register\<close>
  also adds the entry of its task, on a channel of its own.
\<close>

lemma step_registry:
  assumes "sys_step api codec js tk s l s'"
  obtains rop regz new where "registry_op rop" "mset regz = mset (conn_registry (conn s))"
    "log s' = log s @ snd (rop regz)" "conn_registry (conn s') = new @ fst (rop regz)"
    "new = [] \<or> (\<exists>j. l = Register j \<and> j < length (tasks s) \<and> new = [task_entry (tasks s' ! j)] \<and>
        task_chan (tasks s' ! j) = next_chan (conn s))"
  using assms
proof cases
  case (step_register i t ch ce)
  then show thesis
    by (intro that [of "reg_remove (task_sid t)" "conn_registry (conn s)" "[task_entry (tasks s' ! i)]"] removing.registry_op_axioms)
       (auto simp: register_def reg_insert_remove task_entry_def task_sink_def split: prod.splits)
next
  case (step_read frame out flow ce)
  obtain c' eff where ce: "ce = (c', eff)" by (cases ce)
  note fr = read_loop_turn_frame(2) [OF step_read(4) [unfolded ce]]
  show thesis
  proof (cases "frame_rpc api frame")
    case None
    then show thesis using step_read(1,2) ce fr
      by (intro that [of "\<lambda>reg. (reg, [])" "conn_registry (conn s)" "[]"]
          idling.registry_op_axioms) auto
  next
    case (Some rpc)
    then show thesis using step_read(1,2) ce fr [symmetric]
      by (intro that [of "dispatch js rpc" "conn_registry (conn s)" "[]"]
          dispatching.registry_op_axioms) auto
  qed
next
  case (step_fail_all drained)
  then show thesis
    by (intro that [of "fail_all ConnectionClosed" drained "[]"]
        failing.registry_op_axioms) (auto simp: read_loop_fail_frame)
next
  case (step_cleanup i t err)
  then show thesis
    by (intro that [of "reg_remove (task_sid t)" "conn_registry (conn s)" "[]"]
        removing.registry_op_axioms) (auto simp: unregister_frame)
next
  case (step_close_remove i t)
  then show thesis
    by (intro that [of "reg_remove (task_sid t)" "conn_registry (conn s)" "[]"]
        removing.registry_op_axioms) (auto simp: unregister_frame)
qed (rule that [of "\<lambda>reg. (reg, [])" "conn_registry (conn s)" "[]",
       OF idling.registry_op_axioms],
     auto simp: alloc_stream_id_def send_activate_frame drop_activate_frame send_terminate_frame read_loop_signal_def)+

text \<open>A task keeps its call, its stream id and, once it has one, its channel.\<close>

lemma step_task:
  assumes "sys_step api codec js tk s l s'" "i < length (tasks s)"
  shows "i < length (tasks s')" "task_call (tasks s' ! i) = task_call (tasks s ! i)"
    "task_sid (tasks s' ! i) = task_sid (tasks s ! i)"
    "has_channel (tasks s ! i) \<Longrightarrow> has_channel (tasks s' ! i)"
    "has_channel (tasks s ! i) \<Longrightarrow> task_chan (tasks s' ! i) = task_chan (tasks s ! i)"
  using assms
  by (cases; auto simp: nth_list_update nth_append has_channel_def request_result_def subscribe_result_def
      split: sent.splits option.splits sum.splits; fail)+

lemma step_log: "sys_step api codec js tk s l s' \<Longrightarrow> \<exists>new. log s' = log s @ new"
  by (erule step_registry) blast

text \<open>The stream of task \<open>i\<close> is in the registry.\<close>

definition registered :: "session \<Rightarrow> nat \<Rightarrow> bool" where
  "registered s i \<longleftrightarrow> task_entry (tasks s ! i) \<in> set (conn_registry (conn s))"

lemma task_entry_step:
  assumes "sys_step api codec js tk s l s'" "i < length (tasks s)" "has_channel (tasks s ! i)"
  shows "task_entry (tasks s' ! i) = task_entry (tasks s ! i)"
  using step_task [OF assms(1,2)] assms(3) by (simp add: task_entry_def task_sink_def)

lemma session_inv_streams: "session_inv s \<Longrightarrow>
   streams_ok (conn_registry (conn s)) (next_chan (conn s)) (tasks s) (log s)"
  by (simp add: session_inv_def session_streams_ok_def)

text \<open>Once a stream has left the registry it never returns, and nothing more reaches its channel.\<close>

lemma step_unregistered:
  assumes step: "sys_step api codec js tk s l s'" and inv: "session_inv s"
    and i: "i < length (tasks s)" "has_channel (tasks s ! i)" "\<not> registered s i"
  shows "\<not> registered s' i" and "task_events s' i = task_events s i"
proof -
  let ?e = "task_entry (tasks s ! i)" and ?c = "task_chan (tasks s ! i)"
  note ok = session_inv_streams [OF inv]
  obtain rop regz new where rop: "registry_op rop" "mset regz = mset (conn_registry (conn s))"
    "log s' = log s @ snd (rop regz)" "conn_registry (conn s') = new @ fst (rop regz)"
    "new = [] \<or> (\<exists>j. l = Register j \<and> j < length (tasks s) \<and> new = [task_entry (tasks s' ! j)] \<and>
        task_chan (tasks s' ! j) = next_chan (conn s))"
    using step_registry [OF step] by metis
  note okz = streams_ok_same_entries [OF ok rop(2)]
  have "?e \<notin> set regz" using i(3) rop(2) by (auto simp: registered_def dest: mset_eq_setD)
  then have "?c \<notin> reg_chans regz" "?e \<notin> set (fst (rop regz))"
    using streams_ok_chans(2) [OF okz nth_mem [OF i(1)] i(2)]
      registry_op.rop_subset [OF rop(1) streams_okD(1) [OF okz]] by auto
  moreover have "?c < next_chan (conn s)"
    using streams_okD(3) [OF ok nth_mem [OF i(1)] i(2)] by (simp add: task_ok_def)
  then have "?e \<notin> set new"
    using rop(5) by (auto simp: task_entry_def dest!: arg_cong [where f = sink_chan])
  ultimately show "\<not> registered s' i" "task_events s' i = task_events s i"
    using task_entry_step [OF step i(1,2)] step_task(5) [OF step i(1,2)] rop(3,4)
      registry_op.rop_untouched [OF rop(1)]
    by (simp_all add: registered_def task_events_def)
qed

lemma final_events_iff:
  "final_events sid (Request c) evs \<longleftrightarrow>
     evs = [SenderDrop c] \<or> (\<exists>d. evs = [OneshotSend c d] \<and> delivery_ok sid d)"
  "final_events sid (Subscription c) evs \<longleftrightarrow>
     evs = [SenderDrop c] \<or> (\<exists>d. evs = [MpscSend c d, SenderDrop c] \<and> delivery_ok sid d)"
  by (cases "(sid, Request c, evs)" rule: final_events.cases; auto)
     (cases "(sid, Subscription c, evs)" rule: final_events.cases; auto)

lemma request_history:
  "history sid (Request c) reg evs \<longleftrightarrow>
     (if reg then evs = [] else evs = [SenderDrop c] \<or> (\<exists>d. evs = [OneshotSend c d] \<and> delivery_ok sid d))"
proof -
  have "history sid (Request c) reg evs \<longleftrightarrow> (if reg then evs = [] else final_events sid (Request c) evs)"
  proof
    assume "if reg then evs = [] else final_events sid (Request c) evs"
    then show "history sid (Request c) reg evs"
      unfolding history_def by (intro exI [of _ "[]"] exI [of _ evs]) auto
  qed (auto simp: history_def split: if_splits)
  then show ?thesis by (simp add: final_events_iff)
qed

lemma subscription_history:
  assumes "history sid (Subscription c) reg evs"
  shows "\<exists>opens fin. evs = map (\<lambda>rpc. MpscSend c (Inr rpc)) opens @ fin \<and>
    (\<forall>rpc \<in> set opens. \<not> terminates_stream rpc) \<and>
    (if reg then fin = [] else fin = [SenderDrop c] \<or> (\<exists>d. fin = [MpscSend c d, SenderDrop c]))"
proof -
  obtain opens fin where "evs = map (\<lambda>rpc. MpscSend c (Inr rpc)) opens @ fin"
    "list_all (open_message sid) opens" "if reg then fin = [] else final_events sid (Subscription c) fin"
    using assms by (auto simp: history_def)
  then show ?thesis
    by (intro exI [of _ opens] exI [of _ fin])
       (auto simp: final_events_iff open_message_def list_all_iff split: if_splits)
qed

lemma sent_values_append [simp]: "sent_values (xs @ ys) = sent_values xs @ sent_values ys"
  by (induction xs rule: sent_values.induct) simp_all

lemma sent_values_sent: "d \<in> set (sent_values evs) \<Longrightarrow> \<exists>c. MpscSend c d \<in> set evs"
  by (induction evs rule: sent_values.induct) auto

lemma session_history:
  assumes "session_inv s" "i < length (tasks s)" "has_channel (tasks s ! i)"
  shows "history (task_sid (tasks s ! i)) (task_sink (tasks s ! i)) (registered s i) (task_events s i)"
  using streams_okD(3) [OF session_inv_streams [OF assms(1)] nth_mem [OF assms(2)] assms(3)]
  by (simp add: task_ok_def registered_def task_events_def)

lemma task_sink_kind:
  "call_kind (task_call t) = RequestCall \<Longrightarrow> task_sink t = Request (task_chan t)"
  "call_kind (task_call t) = SubscribeCall \<Longrightarrow> task_sink t = Subscription (task_chan t)"
  by (simp_all add: task_sink_def sink_of_call_def)

definition phase_ok :: "session \<Rightarrow> nat \<Rightarrow> bool" where
  "phase_ok s i = (let t = tasks s ! i in case task_phase t of
      Returned (Inr rpc) \<Rightarrow> call_kind (task_call t) = RequestCall \<and>
        task_events s i = [OneshotSend (task_chan t) (Inr rpc)]
    | Returned (Inl err) \<Rightarrow> registered s i \<longrightarrow> (\<exists>e. err = Payload e)
    | Streaming n \<Rightarrow> call_kind (task_call t) = SubscribeCall \<and> 1 \<le> n \<and>
        n \<le> length (sent_values (task_events s i))
    | Closing \<Rightarrow> \<not> registered s i
    | Closed \<Rightarrow> \<not> registered s i
    | _ \<Rightarrow> True)"

definition answers_inv :: "tokio \<Rightarrow> session \<Rightarrow> bool" where
  "answers_inv tk s \<longleftrightarrow> tokio_laws tk \<and> session_inv s \<and> (\<forall>i < length (tasks s). phase_ok s i)"

lemma step_events:
  assumes "sys_step api codec js tk s l s'" "i < length (tasks s)" "has_channel (tasks s ! i)"
  shows "\<exists>new. task_events s' i = task_events s i @ new"
  using step_log [OF assms(1)] step_task(5) [OF assms(1-3)] by (auto simp: task_events_def)

lemma phase_ok_stable:
  assumes "phase_ok s i" "sys_step api codec js tk s l s'" "session_inv s" "i < length (tasks s)"
    and "tasks s' ! i = tasks s ! i"
  shows "phase_ok s' i"
proof (cases "has_channel (tasks s ! i)")
  case True
  note gone = step_unregistered [OF assms(2,3,4) True]
  obtain new where new: "task_events s' i = task_events s i @ new"
    using step_events [OF assms(2,4) True] by blast
  show ?thesis
  proof (cases "\<exists>rpc. task_phase (tasks s ! i) = Returned (Inr rpc)")
    case req: True
    then have "\<not> registered s i"
      using session_history [OF assms(3,4) True] assms(1)
      by (auto simp: phase_ok_def Let_def task_sink_kind request_history split: if_splits)
    then show ?thesis using assms(1,5) req gone by (auto simp: phase_ok_def)
  next
    case False
    then show ?thesis using assms(1,5) gone(1) new
      by (auto simp: phase_ok_def Let_def split: phase.splits sum.splits)
  qed
next
  case False
  then show ?thesis using assms(5) by (simp add: phase_ok_def has_channel_def)
qed

lemma tokio_lawsD:
  assumes "tokio_laws tk"
  shows "oneshot_poll tk [] = Pending" "oneshot_poll tk [OneshotSend c d] = Ready (Some d)"
    "oneshot_poll tk [SenderDrop c] = Ready None"
    "n < length (sent_values evs) \<Longrightarrow> mpsc_poll tk n evs = Ready (Some (sent_values evs ! n))"
    "length (sent_values evs) \<le> n \<Longrightarrow> mpsc_poll tk n evs =
      (if \<exists>c. SenderDrop c \<in> set evs then Ready None else Pending)"
  using assms by (simp_all add: tokio_laws_def)

text \<open>A receiver is ready exactly when its stream has left the registry or, for a subscription, has a message.\<close>

lemma oneshot_poll_history:
  assumes "tokio_laws tk" "history sid (Request c) reg evs"
  shows "oneshot_poll tk evs = (if reg then Pending else Ready (case evs of
      [OneshotSend _ d] \<Rightarrow> Some d | _ \<Rightarrow> None))"
  using assms(2) tokio_lawsD(1-3) [OF assms(1)] by (auto simp: request_history split: if_splits)

lemma mpsc_poll_Some: "tokio_laws tk \<Longrightarrow> mpsc_poll tk n evs = Ready (Some d) \<Longrightarrow>
    n < length (sent_values evs) \<and> d = sent_values evs ! n"
  using tokio_lawsD(4,5) [where tk = tk and n = n and evs = evs]
  by (cases "n < length (sent_values evs)") (auto split: if_splits)

text \<open>Which task a step is about.\<close>

definition label_task :: "'m label \<Rightarrow> nat option" where
  "label_task l = (case l of
      Register i \<Rightarrow> Some i | Send i _ \<Rightarrow> Some i | CancelSend i _ \<Rightarrow> Some i | Wake i \<Rightarrow> Some i | Expire i \<Rightarrow> Some i
    | Cancel i \<Rightarrow> Some i | Cleanup i \<Rightarrow> Some i | NextEvent i _ \<Rightarrow> Some i | DropStream i \<Rightarrow> Some i
    | CloseRemove i \<Rightarrow> Some i | CloseSend i _ \<Rightarrow> Some i | _ \<Rightarrow> None)"

lemma step_other_task:
  assumes "sys_step api codec js tk s l s'" "label_task l \<noteq> Some i" "i < length (tasks s)"
  shows "tasks s' ! i = tasks s ! i"
  using assms by cases (auto simp: label_task_def nth_append)

lemma step_new_task:
  assumes "sys_step api codec js tk s l s'" "i < length (tasks s')" "\<not> i < length (tasks s)"
  shows "task_phase (tasks s' ! i) = Allocated"
  using assms by cases (auto simp: nth_append)

lemma unregister_unregistered:
  "session_inv s \<Longrightarrow> i < length (tasks s) \<Longrightarrow>
   \<not> registered (set_phase i p (set_conn (unregister (task_sid (tasks s ! i)) (conn s)) s)) i"
  by (simp add: registered_def unregister_frame reg_remove_def set_hm_remove task_entry_def)

lemma phase_ok_acting:
  assumes step: "sys_step api codec js tk s l s'" and inv: "session_inv s" and tk: "tokio_laws tk"
    and i: "label_task l = Some i" "i < length (tasks s)" and ok: "phase_ok s i"
  shows "phase_ok s' i"
  using step
proof cases
  case (step_send j t out outcome c)
  then show ?thesis using i
    by (auto simp: phase_ok_def label_task_def send_activate_def split: sent.splits sum.splits prod.splits)
next
  case (step_wake_request j t r)
  then have hist: "history (task_sid t) (Request (task_chan t)) (registered s i) (task_events s i)"
    using session_history [OF inv i(2)] i by (simp add: label_task_def has_channel_def task_sink_kind)
  then show ?thesis
    using step_wake_request i oneshot_poll_history [OF tk hist] hist
    by (auto simp: phase_ok_def label_task_def request_result_def registered_def task_events_def
        task_entry_def task_sink_def request_history split: sum.splits if_splits)
next
  case (step_wake_subscribe j t r)
  then show ?thesis using i
    by (auto simp: phase_ok_def label_task_def subscribe_result_def task_events_def Suc_le_eq
        dest!: mpsc_poll_Some [OF tk] split: option.splits sum.splits)
next
  case (step_cleanup j t err)
  then show ?thesis using i unregister_unregistered [OF inv i(2), of "Returned (Inl err)"]
    by (simp add: phase_ok_def label_task_def)
next
  case (step_next_event j n item)
  then show ?thesis using i ok
    by (auto simp: phase_ok_def Let_def label_task_def task_events_def
        dest!: mpsc_poll_Some [OF tk] split: option.splits)
next
  case (step_close_remove j t)
  then show ?thesis using i unregister_unregistered [OF inv i(2), of Closing]
    by (simp add: phase_ok_def label_task_def)
next
  case (step_close_send j t out)
  then have "\<not> registered s i" using ok i by (simp add: phase_ok_def label_task_def)
  then show ?thesis using step_close_send i
    by (simp add: phase_ok_def label_task_def registered_def task_entry_def task_sink_def
        send_terminate_frame)
qed (use i in \<open>auto simp: phase_ok_def label_task_def\<close>)

lemma answers_inv_step:
  assumes "answers_inv tk s" "sys_step api codec js tk s l s'"
  shows "answers_inv tk s'"
proof -
  have inv: "tokio_laws tk" "session_inv s" using assms(1) by (simp_all add: answers_inv_def)
  have "phase_ok s' i" if "i < length (tasks s')" for i
  proof (cases "i < length (tasks s)")
    case True
    then have "phase_ok s i" using assms(1) by (simp add: answers_inv_def)
    then show ?thesis
      using phase_ok_acting [OF assms(2) inv(2,1) _ True] step_other_task [OF assms(2) _ True]
        phase_ok_stable [OF _ assms(2) inv(2) True] by blast
  next
    case False
    then show ?thesis using step_new_task [OF assms(2) that] by (simp add: phase_ok_def)
  qed
  then show ?thesis using inv session_inv_step [OF inv(2) assms(2)] by (simp add: answers_inv_def)
qed

interpretation answers: invariant_system "\<lambda>s. session_init s \<and> tokio_laws tk" "sys_step api codec js tk"
    "answers_inv tk"
  for api :: "('m, 'h, 'o) msg_api" and codec :: "('m, 'd) codec" and js tk
proof unfold_locales
  show "answers_inv tk s" if "session_init s \<and> tokio_laws tk" for s
    using that session_inv_init by (auto simp: answers_inv_def session_init_def)
qed (rule answers_inv_step)

section \<open>Waiting and waking\<close>

lemma open_events_shape:
  "history sid sink reg evs \<Longrightarrow> OneshotSend c (Inr rpc) \<in> set evs \<or> MpscSend c (Inr rpc) \<in> set evs \<Longrightarrow>
   stream_id rpc = sid \<and> message_type rpc \<noteq> ApplicationError"
  by (cases sink)
     (auto simp: history_def final_events_iff delivery_ok_def open_message_def list_all_iff split: if_splits)

lemma wake_enabled_iff:
  assumes "answers_inv tk s" and i: "i < length (tasks s)" "task_phase (tasks s ! i) = Waiting"
  shows "(\<exists>s'. sys_step api codec js tk s (Wake i) s') \<longleftrightarrow>
    \<not> registered s i \<or>
    (call_kind (task_call (tasks s ! i)) = SubscribeCall \<and> sent_values (task_events s i) \<noteq> [])"
proof -
  have tk: "tokio_laws tk" and inv: "session_inv s" using assms(1) by (simp_all add: answers_inv_def)
  have hist: "history (task_sid (tasks s ! i)) (task_sink (tasks s ! i)) (registered s i) (task_events s i)"
    using session_history [OF inv i(1)] i(2) by (simp add: has_channel_def)
  show ?thesis
  proof (cases "call_kind (task_call (tasks s ! i))")
    case RequestCall
    with oneshot_poll_history [OF tk] hist have
      "oneshot_poll tk (task_events s i) = Pending \<longleftrightarrow> registered s i"
      by (simp add: task_sink_kind)
    then have "(\<exists>r. oneshot_poll tk (task_events s i) = Ready r) \<longleftrightarrow> \<not> registered s i"
      by (metis poll.distinct(1) poll.exhaust)
    then show ?thesis using RequestCall i
      by (auto elim: sys_stepE intro: step_wake_request)
  next
    case SubscribeCall
    have "mpsc_poll tk 0 (task_events s i) = Pending \<longleftrightarrow>
        registered s i \<and> sent_values (task_events s i) = []"
    proof (cases "sent_values (task_events s i) = []")
      case True
      then have "(\<exists>c. SenderDrop c \<in> set (task_events s i)) \<longleftrightarrow> \<not> registered s i"
        using hist SubscribeCall by (auto simp: task_sink_kind history_def final_events_iff split: if_splits)
      then show ?thesis using True tokio_lawsD(5) [OF tk, of "task_events s i" 0] by simp
    next
      case False
      then show ?thesis using tokio_lawsD(4) [OF tk, of 0 "task_events s i"] by simp
    qed
    then have "(\<exists>r. mpsc_poll tk 0 (task_events s i) = Ready r) \<longleftrightarrow>
        \<not> (registered s i \<and> sent_values (task_events s i) = [])"
      by (metis poll.distinct(1) poll.exhaust)
    then show ?thesis using SubscribeCall i
      by (auto elim: sys_stepE intro: step_wake_subscribe)
  qed
qed

lemma reach_both: "reach init step s \<Longrightarrow> P \<Longrightarrow> reach (\<lambda>s. init s \<and> P) step s"
  by (induction rule: reach.induct) (auto intro: reach.intros)

lemma answers_inv_reach:
  "tokio_laws tk \<Longrightarrow> reach session_init (sys_step api codec js tk) s \<Longrightarrow> answers_inv tk s"
  by (rule answers.inv_reach [OF reach_both])

lemma run_unregistered:
  assumes "run (sys_step api codec js tk) s ls s'" "session_inv s" "i < length (tasks s)"
    "has_channel (tasks s ! i)" "\<not> registered s i"
  shows "i < length (tasks s') \<and> has_channel (tasks s' ! i) \<and> \<not> registered s' i \<and>
    task_events s' i = task_events s i"
  using assms
proof (induction rule: run.induct)
  case (run_Cons s l t ls u)
  note step = run_Cons.hyps(1)
  have "session_inv t" using run_Cons.prems(1) step by (rule session_inv_step)
  then show ?case
    using run_Cons.IH step_task(1,4) [OF step run_Cons.prems(2)] run_Cons.prems(3)
      step_unregistered [OF step run_Cons.prems] by simp
qed simp

lemma run_entry:
  assumes "run (sys_step api codec js tk) s ls s'" "i < length (tasks s)" "has_channel (tasks s ! i)"
  shows "task_entry (tasks s' ! i) = task_entry (tasks s ! i)"
  using assms
proof (induction rule: run.induct)
  case (run_Cons s l t ls u)
  then show ?case using step_task(1,4) [OF run_Cons.hyps(1)] task_entry_step [OF run_Cons.hyps(1)] by simp
qed simp

lemma run_chan:
  assumes "run (sys_step api codec js tk) s ls s'" "i < length (tasks s)" "has_channel (tasks s ! i)"
  shows "task_chan (tasks s' ! i) = task_chan (tasks s ! i)"
  using assms
proof (induction rule: run.induct)
  case (run_Cons s l t ls u)
  then show ?case using step_task(1,4,5) [OF run_Cons.hyps(1)] by simp
qed simp

lemma run_task_call:
  assumes "run (sys_step api codec js tk) s ls s'" "i < length (tasks s)"
  shows "task_call (tasks s' ! i) = task_call (tasks s ! i)"
  using assms
proof (induction rule: run.induct)
  case (run_Cons s l t ls u)
  then show ?case using step_task(1,2) [OF run_Cons.hyps(1)] by simp
qed simp

lemma remove_stays:
  assumes "chans_distinct reg" "(a, s) \<in> set (fst (reg_remove sid reg))"
  shows "chan_events (sink_chan s) (snd (reg_remove sid reg)) = [] \<and> (a, s) \<in> set reg"
proof -
  have "(a, s) \<in> set reg" "a \<noteq> sid" using assms(2) by (auto simp: reg_remove_def set_hm_remove)
  then show ?thesis using other_chan [OF assms(1), of a s sid]
    by (auto simp: reg_remove_def split: option.splits)
qed

lemma dispatch_stays:
  assumes "hm_wf reg" "chans_distinct reg" "(a, s) \<in> set (fst (dispatch js rpc reg))"
  shows "chan_events (sink_chan s) (snd (dispatch js rpc reg)) =
     (if stream_id rpc = a then [sink_send s (Inr rpc)] else []) \<and> (a, s) \<in> set reg"
proof -
  have mem: "(a, s) \<in> set reg" using assms(1,3) set_dispatch by blast
  show ?thesis
  proof (cases "stream_id rpc = a")
    case True
    then have "hm_get (stream_id rpc) reg = Some s" using mem assms(1) by (simp add: hm_get_Some_iff)
    then show ?thesis using True assms(3) mem
      by (auto simp: dispatch_eq delivery_of_def sink_stays_def set_hm_remove split: if_splits)
  next
    case False
    then show ?thesis using other_chan [OF assms(2) mem, of "stream_id rpc"] mem
      by (auto simp: dispatch_eq split: option.splits)
  qed
qed

text \<open>The stream message a label reads, and what a step sends to a stream that stays registered.\<close>

definition label_rpc :: "('m, 'h, 'o) msg_api \<Rightarrow> 'm label \<Rightarrow> rpc_message option" where
  "label_rpc api l = (case l of Read frame _ \<Rightarrow> frame_rpc api frame | _ \<Rightarrow> None)"

definition read_for :: "('m, 'h, 'o) msg_api \<Rightarrow> i32 \<Rightarrow> 'm label \<Rightarrow> rpc_message list" where
  "read_for api sid l = (case label_rpc api l of
      Some rpc \<Rightarrow> if stream_id rpc = sid then [rpc] else [] | None \<Rightarrow> [])"

lemma step_registered:
  assumes step: "sys_step api codec js tk s l s'" and inv: "session_inv s"
    and i: "i < length (tasks s)" "has_channel (tasks s ! i)" and reg: "registered s' i"
  shows "task_events s' i = task_events s i @
    map (\<lambda>rpc. sink_send (task_sink (tasks s ! i)) (Inr rpc)) (read_for api (task_sid (tasks s ! i)) l)"
proof -
  let ?e = "task_entry (tasks s ! i)"
  note ok = session_inv_streams [OF inv]
  note wf = streams_okD(1) [OF ok] and dist = streams_ok_distinct [OF ok]
  have chan: "task_events s' i = chan_events (sink_chan (snd ?e)) (log s')"
    using step_task(5) [OF step i] by (simp add: task_events_def task_entry_def)
  have mem: "?e \<in> set (conn_registry (conn s'))"
    using reg task_entry_step [OF step i] by (simp add: registered_def)
  have ev: "task_events s i = chan_events (sink_chan (snd ?e)) (log s)"
    by (simp add: task_events_def task_entry_def)
  have pair: "?e = (task_sid (tasks s ! i), task_sink (tasks s ! i))" by (simp add: task_entry_def)
  have lt: "task_chan (tasks s ! i) < next_chan (conn s)"
    using streams_okD(3) [OF ok nth_mem [OF i(1)] i(2)] by (simp add: task_ok_def)
  have stays: "chan_events (task_chan (tasks s ! i)) (snd (reg_remove sid (conn_registry (conn s)))) = []"
    if "?e \<in> set (fst (reg_remove sid (conn_registry (conn s))))" for sid
    using remove_stays [OF dist that [unfolded pair]] by simp
  show ?thesis
    using step
  proof cases
    case (step_read frame out flow ce)
    obtain c' eff where ce: "ce = (c', eff)" by (cases ce)
    note fr = read_loop_turn_frame(2) [OF step_read(4) [unfolded ce]]
    show ?thesis
    proof (cases "frame_rpc api frame")
      case None
      then show ?thesis using step_read(1,2) ce fr unfolding chan ev
        by (simp add: read_for_def label_rpc_def)
    next
      case (Some rpc)
      then have d: "dispatch js rpc (conn_registry (conn s)) = (conn_registry c', eff)" using fr by simp
      then have "?e \<in> set (fst (dispatch js rpc (conn_registry (conn s))))"
        using mem step_read(2) ce by simp
      from dispatch_stays [OF wf dist this [unfolded pair]] show ?thesis
        using step_read(1,2) ce Some d unfolding chan ev pair by (simp add: read_for_def label_rpc_def)
    qed
  next
    case (step_register j t ch ce)
    then have "?e \<noteq> task_entry (tasks s' ! j)"
      using lt by (auto simp: task_entry_def register_def dest!: arg_cong [where f = sink_chan] split: prod.splits)
    then have "?e \<in> set (fst (reg_remove (task_sid t) (conn_registry (conn s))))"
      using mem step_register by (auto simp: register_def reg_insert_remove task_entry_def task_sink_def)
    from stays [OF this] show ?thesis using step_register unfolding chan ev pair
      by (auto simp: register_def reg_insert_remove read_for_def label_rpc_def)
  next
    case (step_fail_all drained)
    then show ?thesis using mem by (simp add: read_loop_fail_frame fail_all_def)
  next
    case (step_cleanup j t err)
    then show ?thesis using mem stays unfolding chan ev pair
      by (auto simp: unregister_frame read_for_def label_rpc_def)
  next
    case (step_close_remove j t)
    then show ?thesis using mem stays unfolding chan ev pair
      by (auto simp: unregister_frame read_for_def label_rpc_def)
  qed (unfold chan ev, simp_all add: read_for_def label_rpc_def)
qed

section \<open>Calls made after the end\<close>

text \<open>After the streams were failed, no stream that is registered has been sent anything.\<close>

definition late_inv :: "session \<Rightarrow> bool" where
  "late_inv s \<longleftrightarrow> session_inv s \<and> (reader s \<in> {StreamsFailed, TaskDone} \<longrightarrow>
     (\<forall>i < length (tasks s). has_channel (tasks s ! i) \<and> registered s i \<longrightarrow> task_events s i = []))"

lemma new_channel_events:
  assumes step: "sys_step api codec js tk s l s'" and inv: "session_inv s"
    and i: "i < length (tasks s')" "has_channel (tasks s' ! i)"
    and new: "\<not> (i < length (tasks s) \<and> has_channel (tasks s ! i))"
  shows "task_events s' i = []"
  using step
proof cases
  case (step_register j t ch ce)
  then have "j = i" using i new by (cases "j = i") auto
  have "session_inv s'" using inv step by (rule session_inv_step)
  have lt: "effect_chan e < next_chan (conn s)" if "e \<in> set (log s')" for e
  proof -
    have "streams_ok (fst (reg_remove (task_sid t) (conn_registry (conn s)))) (next_chan (conn s)) (tasks s)
        (log s @ snd (reg_remove (task_sid t) (conn_registry (conn s))))"
      by (rule removing.rop_streams_ok [OF session_inv_streams [OF inv]])
    then show ?thesis using that step_register
      by (auto simp: register_def reg_insert_remove dest: streams_okD(4))
  qed
  then have "\<forall>e \<in> set (log s'). effect_chan e \<noteq> next_chan (conn s)" by (metis less_irrefl)
  then show ?thesis using step_register \<open>j = i\<close>
    by (auto simp: task_events_def register_def chan_events_eq_Nil simp del: chan_events_simps
        split: prod.splits)
qed (use i new in \<open>auto simp: has_channel_def nth_append nth_list_update less_Suc_eq split: if_splits\<close>)

lemma late_inv_step:
  assumes "late_inv s" "sys_step api codec js tk s l s'"
  shows "late_inv s'"
proof -
  have inv: "session_inv s" using assms(1) by (simp add: late_inv_def)
  have "task_events s' i = []"
    if late: "reader s' \<in> {StreamsFailed, TaskDone}" and i: "i < length (tasks s')" "has_channel (tasks s' ! i)"
      and reg: "registered s' i" for i
  proof (cases "i < length (tasks s) \<and> has_channel (tasks s ! i)")
    case True
    then have "registered s i" using step_unregistered(1) [OF assms(2) inv] reg by blast
    moreover have "reader s \<in> {StreamsFailed, TaskDone} \<and> label_rpc api l = None"
      using assms(2) late reg
      by cases (auto simp: label_rpc_def registered_def read_loop_fail_frame fail_all_def
          split: control_flow.splits)
    ultimately show ?thesis
      using step_registered [OF assms(2) inv _ _ reg] True assms(1) by (simp add: late_inv_def read_for_def)
  next
    case False
    then show ?thesis using new_channel_events [OF assms(2) inv i] by blast
  qed
  then show ?thesis using session_inv_step [OF inv assms(2)] by (simp add: late_inv_def)
qed

interpretation late: invariant_system session_init "sys_step api codec js tk" late_inv
  for api :: "('m, 'h, 'o) msg_api" and codec :: "('m, 'd) codec" and js tk
proof unfold_locales
  show "late_inv s" if "session_init s" for s
    using that session_inv_init by (auto simp: late_inv_def session_init_def)
qed (rule late_inv_step)

lemma task_sids_distinct:
  assumes "session_inv s" "length (tasks s) \<le> 2 ^ 32" "i < length (tasks s)" "j < length (tasks s)"
    "task_sid (tasks s ! i) = task_sid (tasks s ! j)"
  shows "i = j"
proof -
  have "(word_of_nat i :: i32) = word_of_nat j" using assms by (simp add: session_inv_def)
  then have "unat (word_of_nat i :: i32) = unat (word_of_nat j :: i32)" by simp
  moreover have "unat (word_of_nat k :: i32) = k" if "k < length (tasks s)" for k
    using that assms(2) by (simp add: unat_of_nat take_bit_nat_eq_self)
  ultimately show ?thesis using assms(3,4) by simp
qed

definition stranded :: "session \<Rightarrow> nat \<Rightarrow> bool" where
  "stranded s i \<longleftrightarrow> reader s \<in> {StreamsFailed, TaskDone} \<and> i < length (tasks s) \<and>
     task_phase (tasks s ! i) = Waiting \<and> registered s i"

lemma stranded_cannot_wake:
  assumes "answers_inv tk s" "late_inv s" "stranded s i"
  shows "\<not> sys_step api codec js tk s (Wake i) s'"
proof -
  have "has_channel (tasks s ! i)" using assms(3) by (simp add: stranded_def has_channel_def)
  then have "task_events s i = []" using assms(2,3) unfolding late_inv_def stranded_def by blast
  then show ?thesis using wake_enabled_iff [OF assms(1), of i api codec js] assms(3)
    by (auto simp: stranded_def)
qed

lemma stranded_step:
  assumes inv: "answers_inv tk s" "late_inv s" and str: "stranded s i"
    and step: "sys_step api codec js tk s l s'" and len: "length (tasks s) \<le> 2 ^ 32"
    and l: "l \<noteq> Expire i" "l \<noteq> Cancel i"
  shows "stranded s' i"
proof -
  have "l \<noteq> Wake i" using step stranded_cannot_wake [OF inv str] by blast
  have other: "task_sid (tasks s ! j) \<noteq> task_sid (tasks s ! i)"
    if "j < length (tasks s)" "task_phase (tasks s ! j) \<noteq> Waiting" for j
    using that task_sids_distinct [of s j i] inv(1) len str by (auto simp: answers_inv_def stranded_def)
  have here: "task_entry (tasks s ! i) \<in> set (conn_registry (conn s))" "task_phase (tasks s ! i) = Waiting"
      "i < length (tasks s)" "reader s \<in> {StreamsFailed, TaskDone}"
    using str by (simp_all add: stranded_def registered_def)
  show ?thesis
    using step
  proof cases
    case (step_start sid c cl)
    then show ?thesis using here by (auto simp: stranded_def registered_def nth_append alloc_stream_id_def)
  next
    case (step_register j t ch ce)
    then have "j \<noteq> i" using here by auto
    then show ?thesis using here step_register other [of j]
      by (auto simp: stranded_def registered_def register_def reg_insert_remove reg_remove_def
          set_hm_remove task_entry_def)
  next
    case (step_send j t out outcome c)
    then have "j \<noteq> i" using here by auto
    then show ?thesis using here step_send send_activate_frame [OF step_send(6)]
      by (simp add: stranded_def registered_def)
  next
    case (step_cancel_send j t n c)
    then have "j \<noteq> i" using here by auto
    then show ?thesis using here step_cancel_send drop_activate_frame [OF step_cancel_send(6)]
      by (simp add: stranded_def registered_def)
  next
    case (step_cleanup j t err)
    then have "j \<noteq> i" using here by auto
    then show ?thesis using here step_cleanup other [of j]
      by (simp add: stranded_def registered_def unregister_frame reg_remove_def set_hm_remove task_entry_def)
  next
    case (step_close_remove j t)
    then have "j \<noteq> i" using here by auto
    then show ?thesis using here step_close_remove other [of j]
      by (simp add: stranded_def registered_def unregister_frame reg_remove_def set_hm_remove task_entry_def)
  next
    case (step_close_send j t out)
    then have "j \<noteq> i" using here by auto
    then show ?thesis using here step_close_send
      by (simp add: stranded_def registered_def send_terminate_frame)
  next
    case (step_signal)
    then show ?thesis using here by (simp add: stranded_def registered_def read_loop_signal_def)
  qed (use here l \<open>l \<noteq> Wake i\<close> in \<open>auto simp: stranded_def registered_def nth_list_update\<close>)
qed

lemma run_tasks_grow:
  "run (sys_step api codec js tk) s ls s' \<Longrightarrow> length (tasks s) \<le> length (tasks s')"
proof (induction rule: run.induct)
  case (run_Cons s l t ls u)
  have "length (tasks s) \<le> length (tasks t)" using run_Cons.hyps(1) by cases simp_all
  then show ?case using run_Cons.IH by simp
qed simp

lemma run_stranded:
  assumes "run (sys_step api codec js tk) s ls s'" "answers_inv tk s" "late_inv s" "stranded s i"
    "length (tasks s') \<le> 2 ^ 32" "Expire i \<notin> set ls" "Cancel i \<notin> set ls"
  shows "answers_inv tk s' \<and> late_inv s' \<and> stranded s' i"
  using assms
proof (induction rule: run.induct)
  case (run_Cons s l t ls u)
  have "length (tasks s) \<le> 2 ^ 32"
    using run_tasks_grow [OF run.run_Cons [OF run_Cons.hyps]] run_Cons.prems(4) by simp
  then have "stranded t i"
    using run_Cons.prems by (intro stranded_step [OF _ _ _ run_Cons.hyps(1)]) auto
  then show ?case
    using run_Cons answers_inv_step [OF run_Cons.prems(1) run_Cons.hyps(1)]
      late_inv_step [OF run_Cons.prems(2) run_Cons.hyps(1)] by simp
qed simp

section \<open>Event streams\<close>

text \<open>The items an event stream gave its consumer during a run.\<close>

definition items_of :: "nat \<Rightarrow> 'm label \<Rightarrow> delivery list" where
  "items_of i l = (case l of NextEvent j (Some d) \<Rightarrow> if j = i then [d] else [] | _ \<Rightarrow> [])"

definition closing :: "session \<Rightarrow> nat \<Rightarrow> bool" where
  "closing s i \<longleftrightarrow> i < length (tasks s) \<and> task_phase (tasks s ! i) \<in> {Dropped, Closing, Closed}"

lemma run_closing: "run (sys_step api codec js tk) s ls s' \<Longrightarrow> closing s i \<Longrightarrow> closing s' i"
proof (induction rule: run.induct)
  case (run_Cons s l t ls u)
  have "closing t i" using run_Cons.hyps(1) run_Cons.prems
    by cases (auto simp: closing_def nth_append nth_list_update)
  then show ?case by (rule run_Cons.IH)
qed simp

lemma streaming_step:
  assumes "tokio_laws tk" "sys_step api codec js tk s l s'" "i < length (tasks s)"
    "task_phase (tasks s ! i) = Streaming n"
  shows "closing s' i \<or> (\<exists>m. task_phase (tasks s' ! i) = Streaming m \<and> n \<le> m \<and>
    m \<le> max n (length (sent_values (task_events s i))) \<and>
    items_of i l = take (m - n) (drop n (sent_values (task_events s i))))"
  using assms(2)
proof cases
  case (step_next_event j k item)
  then show ?thesis
  proof (cases "j = i")
    case True
    then show ?thesis using step_next_event assms(3,4)
      by (auto simp: items_of_def Cons_nth_drop_Suc [symmetric] dest!: mpsc_poll_Some [OF assms(1)]
          split: option.splits)
  qed (use assms(3,4) in \<open>auto simp: items_of_def split: option.splits\<close>)
qed (use assms(3,4) in \<open>auto simp: closing_def items_of_def nth_append nth_list_update\<close>)

lemma run_events:
  assumes "run (sys_step api codec js tk) s ls s'" "i < length (tasks s)" "has_channel (tasks s ! i)"
  shows "\<exists>new. task_events s' i = task_events s i @ new"
  using assms
proof (induction rule: run.induct)
  case (run_Cons s l t ls u)
  then show ?case
    using step_events [OF run_Cons.hyps(1) run_Cons.prems] step_task(1,4) [OF run_Cons.hyps(1) run_Cons.prems(1)]
    by fastforce
qed simp

lemma run_items:
  assumes "run (sys_step api codec js tk) s ls s'" "answers_inv tk s" "i < length (tasks s)"
    "task_phase (tasks s ! i) = Streaming n" "task_phase (tasks s' ! i) = Streaming m"
  shows "n \<le> m \<and> concat (map (items_of i) ls) = take (m - n) (drop n (sent_values (task_events s' i)))"
  using assms
proof (induction arbitrary: n rule: run.induct)
  case (run_Cons s l t ls u)
  note step = run_Cons.hyps(1) and tk = run_Cons.prems(1) [unfolded answers_inv_def, THEN conjunct1]
  have n: "n \<le> length (sent_values (task_events s i))"
    using run_Cons.prems(1-3) by (auto simp: answers_inv_def phase_ok_def Let_def)
  have "\<not> closing u i" using run_Cons.prems(4) by (simp add: closing_def)
  then have "\<not> closing t i" using run_closing [OF run_Cons.hyps(2)] by blast
  then obtain k where k: "task_phase (tasks t ! i) = Streaming k" "n \<le> k"
      "k \<le> max n (length (sent_values (task_events s i)))"
      "items_of i l = take (k - n) (drop n (sent_values (task_events s i)))"
    using streaming_step [OF tk step run_Cons.prems(2,3)] by blast
  have rest: "k \<le> m \<and> concat (map (items_of i) ls) = take (m - k) (drop k (sent_values (task_events u i)))"
    by (rule run_Cons.IH [OF answers_inv_step [OF run_Cons.prems(1) step] step_task(1) [OF step run_Cons.prems(2)]
          k(1) run_Cons.prems(4)])
  have "has_channel (tasks s ! i)" using run_Cons.prems(3) by (simp add: has_channel_def)
  then obtain new where new: "task_events u i = task_events s i @ new"
    using run_events [OF run.run_Cons [OF run_Cons.hyps] run_Cons.prems(2)] by blast
  let ?V = "sent_values (task_events u i)"
  have "items_of i l = take (k - n) (drop n ?V)" using k(2-4) n by (simp add: new)
  then have "concat (map (items_of i) (l # ls)) = take (k - n) (drop n ?V) @ take (m - k) (drop (k - n) (drop n ?V))"
    using rest k(2) by simp
  also have "\<dots> = take ((k - n) + (m - k)) (drop n ?V)" by (simp only: take_add)
  also have "(k - n) + (m - k) = m - n" using rest k(2) by simp
  finally show ?case using rest k(2) by simp
qed simp

end
