(* ===== verification/SessionProperties.thy ===== *)
theory SessionProperties
  imports SessionInvariants
begin

text \<open>
  The guarantees of the running program, for every interleaving: no crosstalk, at most one answer, no
  lost wakeup, complete and ordered event streams, what the end of the connection does, and what
  happens to calls made after it.
\<close>

lemma response_steps:
  assumes "tokio_laws tk" and "reach session_init (sys_step api codec js tk) s"
    and "reader s = Reading" and "i < length (tasks s)" and "t = tasks s ! i"
    and "task_phase t = Waiting" and "call_kind (task_call t) = RequestCall"
    and "task_entry t \<in> set (conn_registry (conn s))"
    and "parse api m = Inr rpc" and "stream_id rpc = task_sid t" and "stream_id rpc \<noteq> 0"
  shows "\<exists>s1 s2. sys_step api codec js tk s (Read (Inr (Some m)) out) s1 \<and>
    sys_step api codec js tk s1 (Wake i) s2 \<and>
    task_phase (tasks s2 ! i) = Returned (delivery_of js rpc) \<and>
    task_entry t \<notin> set (conn_registry (conn s2)) \<and>
    (\<forall>j < length (tasks s). j \<noteq> i \<longrightarrow> tasks s2 ! j = tasks s ! j \<and>
       (has_channel (tasks s ! j) \<longrightarrow>
          chan_events (task_chan (tasks s ! j)) (log s2) = chan_events (task_chan (tasks s ! j)) (log s)))"
proof -
  have inv: "session_inv s" by (rule streams.inv_reach [OF assms(2)])
  note ok = session_inv_streams [OF inv]
  let ?c = "task_chan t" and ?d = "delivery_of js rpc" and ?reg = "conn_registry (conn s)"
  have chan: "has_channel t" using assms(6) by (simp add: has_channel_def)
  have "task_events s i = []"
    using session_history [OF inv assms(4)] chan assms(5,7,8)
    by (simp add: task_sink_kind registered_def request_history)
  then have none: "chan_events ?c (log s) = []" using assms(5) by (simp add: task_events_def)
  have "hm_get (stream_id rpc) ?reg = Some (Request ?c)"
    using assms(7,8,10) streams_okD(1) [OF ok] by (simp add: hm_get_Some_iff task_entry_def task_sink_kind)
  then have disp: "dispatch js rpc ?reg = (hm_remove (stream_id rpc) ?reg, [OneshotSend ?c ?d])"
    by (auto simp: dispatch_eq sink_stays_def)
  let ?conn = "(conn s)\<lparr>conn_registry := hm_remove (stream_id rpc) ?reg\<rparr>"
  define s1 where "s1 = set_conn (?conn, [OneshotSend ?c ?d]) (s\<lparr>reader := Reading\<rparr>)"
  define s2 where "s2 = set_phase i (request_result (Some ?d)) s1"
  have "read_loop_turn api codec js (Inr (Some m)) out (conn s) = (Continue, ?conn, [OneshotSend ?c ?d])"
    using assms(9,11) disp by (simp add: read_loop_turn_def)
  then have "sys_step api codec js tk s (Read (Inr (Some m)) out) s1"
    using step_read [OF assms(3), of api codec js "Inr (Some m)" out Continue] by (simp add: s1_def)
  moreover have "sys_step api codec js tk s1 (Wake i) s2"
    unfolding s2_def
    using assms(4-7) none tokio_lawsD(2) [OF assms(1)]
    by (intro step_wake_request) (simp_all add: s1_def task_events_def)
  moreover have "task_entry t \<notin> set (conn_registry (conn s2))"
    using assms(10) by (simp add: s2_def s1_def set_hm_remove task_entry_def)
  moreover have other: "task_chan (tasks s ! j) \<noteq> ?c"
    if "j < length (tasks s)" "j \<noteq> i" "has_channel (tasks s ! j)" for j
    using streams_ok_index [OF ok that(1) assms(4) that(3)] chan that(2) assms(5) by auto
  have "\<forall>j < length (tasks s). j \<noteq> i \<longrightarrow> tasks s2 ! j = tasks s ! j \<and>
       (has_channel (tasks s ! j) \<longrightarrow>
          chan_events (task_chan (tasks s ! j)) (log s2) = chan_events (task_chan (tasks s ! j)) (log s))"
    using other by (auto simp: s2_def s1_def dest: sym)
  moreover have "task_phase (tasks s2 ! i) = Returned ?d"
    using assms(4) by (simp add: s2_def s1_def request_result_def)
  ultimately show ?thesis by blast
qed

text \<open>
  C6. The answer reaches its caller, and nobody else: while the loop is reading, whenever a frame
  arrives on the stream of a waiting request, reading it and waking the task makes the call return
  what the frame says (the message, or the service error it describes) and takes the stream out of
  the registry; no other task changes and nothing is sent on any other task's channel.
\<close>

theorem response_resolves_its_request:
  assumes "tokio_laws tk" and "reach session_init (sys_step api codec js tk) s"
    and "reader s = Reading" and "i < length (tasks s)" and "t = tasks s ! i"
    and "task_phase t = Waiting" and "call_kind (task_call t) = RequestCall"
    and "task_entry t \<in> set (conn_registry (conn s))"
    and "parse api m = Inr rpc" and "stream_id rpc = task_sid t" and "stream_id rpc \<noteq> 0"
  shows "\<exists>s1 s2. sys_step api codec js tk s (Read (Inr (Some m)) out) s1 \<and>
    sys_step api codec js tk s1 (Wake i) s2 \<and>
    task_phase (tasks s2 ! i) = Returned (delivery_of js rpc) \<and>
    task_entry t \<notin> set (conn_registry (conn s2)) \<and>
    (\<forall>j < length (tasks s). j \<noteq> i \<longrightarrow> tasks s2 ! j = tasks s ! j \<and>
       (has_channel (tasks s ! j) \<longrightarrow>
          chan_events (task_chan (tasks s ! j)) (log s2) = chan_events (task_chan (tasks s ! j)) (log s)))"
  by (rule response_steps [OF assms])

text \<open>
  C5. No crosstalk, at most one answer. In every reachable state of any interleaving, each task that
  has registered its stream has a channel no other task has, and the calls made on that channel's
  sender are: for a request, none while it is registered, and then exactly one (its answer, or the
  sender dropped unsent); for a subscription, messages of its own stream that leave it open and, once
  it is no longer registered, at most one last delivery followed by the drop of the sender. Every
  message that reaches a channel carries the stream id of its task and is no application error.
\<close>

theorem no_crosstalk_and_at_most_one_answer:
  assumes "reach session_init (sys_step api codec js tk) s"
    and "i < length (tasks s)" and "has_channel (tasks s ! i)"
    and "t = tasks s ! i" and "evs = chan_events (task_chan t) (log s)"
    and "open = (task_entry t \<in> set (conn_registry (conn s)))"
  shows "(\<forall>j < length (tasks s). has_channel (tasks s ! j) \<and> task_chan (tasks s ! j) = task_chan t \<longrightarrow> j = i) \<and>
    (\<forall>c rpc. OneshotSend c (Inr rpc) \<in> set evs \<or> MpscSend c (Inr rpc) \<in> set evs \<longrightarrow>
       stream_id rpc = task_sid t \<and> message_type rpc \<noteq> ApplicationError) \<and>
    (call_kind (task_call t) = RequestCall \<longrightarrow>
       (if open then evs = []
        else evs = [SenderDrop (task_chan t)] \<or> (\<exists>d. evs = [OneshotSend (task_chan t) d]))) \<and>
    (call_kind (task_call t) = SubscribeCall \<longrightarrow>
       (\<exists>opens fin. evs = map (\<lambda>rpc. MpscSend (task_chan t) (Inr rpc)) opens @ fin \<and>
          (\<forall>rpc \<in> set opens. \<not> terminates_stream rpc) \<and>
          (if open then fin = []
           else fin = [SenderDrop (task_chan t)] \<or>
             (\<exists>d. fin = [MpscSend (task_chan t) d, SenderDrop (task_chan t)]))))"
proof -
  have inv: "session_inv s" by (rule streams.inv_reach [OF assms(1)])
  have hist: "history (task_sid t) (task_sink t) open evs"
    using session_history [OF inv assms(2,3)] assms(4-6) by (simp add: registered_def task_events_def)
  have "call_kind (task_call t) = SubscribeCall \<Longrightarrow>
      (\<exists>opens fin. evs = map (\<lambda>rpc. MpscSend (task_chan t) (Inr rpc)) opens @ fin \<and>
          (\<forall>rpc \<in> set opens. \<not> terminates_stream rpc) \<and>
          (if open then fin = []
           else fin = [SenderDrop (task_chan t)] \<or>
             (\<exists>d. fin = [MpscSend (task_chan t) d, SenderDrop (task_chan t)])))"
    using hist by (intro subscription_history) (simp add: task_sink_kind)
  moreover have "call_kind (task_call t) = RequestCall \<Longrightarrow>
       (if open then evs = []
        else evs = [SenderDrop (task_chan t)] \<or> (\<exists>d. evs = [OneshotSend (task_chan t) d]))"
    using hist by (auto simp: task_sink_kind request_history)
  ultimately show ?thesis
    using streams_ok_index [OF session_inv_streams [OF inv] _ assms(2) _ assms(3)]
      open_events_shape [OF hist] assms(4) by blast
qed

text \<open>
  C17. No lost wakeup: in every reachable state, a task that awaits its response can take it at once
  exactly when its stream has left the registry, or (a subscription) when a message was sent to it.
  So a waiting call is woken by its answer, by the drop of its sender and by the end of the
  connection, and by nothing else.
\<close>

theorem waiting_task_can_wake_iff:
  assumes "tokio_laws tk" and "reach session_init (sys_step api codec js tk) s"
    and "i < length (tasks s)" and "task_phase (tasks s ! i) = Waiting" and "t = tasks s ! i"
  shows "(\<exists>s'. sys_step api codec js tk s (Wake i) s') \<longleftrightarrow>
    task_entry t \<notin> set (conn_registry (conn s)) \<or>
    (call_kind (task_call t) = SubscribeCall \<and> sent_values (chan_events (task_chan t) (log s)) \<noteq> [])"
  using wake_enabled_iff [OF answers_inv_reach [OF assms(1,2)] assms(3,4)] assms(5)
  by (simp add: registered_def task_events_def)

text \<open>
  C11. The end of the connection reaches everyone: the step that fails all streams leaves none
  registered, and every task whose stream was registered before it and that is still waiting, at any
  later point of any run, can take its result at once.
\<close>

theorem end_of_connection_wakes_everyone:
  assumes "tokio_laws tk" and "reach session_init (sys_step api codec js tk) s"
    and "sys_step api codec js tk s FailAll s1" and "run (sys_step api codec js tk) s1 ls s2"
    and "i < length (tasks s)" and "has_channel (tasks s ! i)" and "task_phase (tasks s2 ! i) = Waiting"
  shows "conn_registry (conn s1) = [] \<and> (\<exists>s3. sys_step api codec js tk s2 (Wake i) s3)"
proof -
  have empty: "conn_registry (conn s1) = []"
    using assms(3) by cases (simp add: read_loop_fail_frame fail_all_def)
  have "reach session_init (sys_step api codec js tk) s1" using assms(2,3) by (rule reach_step)
  then have inv: "answers_inv tk s1" by (rule answers_inv_reach [OF assms(1)])
  then have "\<not> registered s2 i \<and> i < length (tasks s2)"
    using run_unregistered [OF assms(4), of i] step_task(1,4) [OF assms(3,5)] assms(6) empty
    by (simp add: answers_inv_def registered_def)
  moreover have "answers_inv tk s2" using answers.inv_run [OF assms(4) inv] .
  ultimately show ?thesis using empty wake_enabled_iff [of tk s2 i api codec js] assms(7) by blast
qed

text \<open>
  C12. A subscription gets everything, once and in order: between any two points of a run at which
  its stream is registered, what was sent to its channel is exactly the sequence of the frames that the
  loop read for its stream in between, in the order they were read, whatever the other tasks did.
\<close>

theorem subscription_gets_everything_in_order:
  assumes "reach session_init (sys_step api codec js tk) s" and "run (sys_step api codec js tk) s ls s'"
    and "i < length (tasks s)" and "has_channel (tasks s ! i)" and "t = tasks s ! i"
    and "call_kind (task_call t) = SubscribeCall"
    and "task_entry t \<in> set (conn_registry (conn s'))"
  shows "chan_events (task_chan t) (log s') = chan_events (task_chan t) (log s) @
    map (\<lambda>rpc. MpscSend (task_chan t) (Inr rpc)) (concat (map (read_for api (task_sid t)) ls))"
proof -
  have inv: "session_inv s" by (rule streams.inv_reach [OF assms(1)])
  have "task_events s' i = task_events s i @
      map (\<lambda>rpc. sink_send (task_sink (tasks s ! i)) (Inr rpc))
        (concat (map (read_for api (task_sid (tasks s ! i))) ls)) \<and>
      task_chan (tasks s' ! i) = task_chan (tasks s ! i)"
    if "task_entry (tasks s ! i) \<in> set (conn_registry (conn s'))"
    using assms(2) inv assms(3,4) that
  proof (induction rule: run.induct)
    case (run_Cons s l v ls u)
    note step = run_Cons.hyps(1) and same = step_task [OF run_Cons.hyps(1) run_Cons.prems(2)]
    have invv: "session_inv v" using run_Cons.prems(1) step by (rule session_inv_step)
    have entry: "task_entry (tasks v ! i) = task_entry (tasks s ! i)"
      by (rule task_entry_step [OF step run_Cons.prems(2,3)])
    have "registered v i"
    proof (rule ccontr)
      assume "\<not> registered v i"
      then have "\<not> registered u i" "task_entry (tasks u ! i) = task_entry (tasks v ! i)"
        using run_unregistered [OF run_Cons.hyps(2) invv same(1) same(4)] run_Cons.prems(3)
          run_entry [OF run_Cons.hyps(2) same(1) same(4)] by auto
      then show False using run_Cons.prems(4) entry by (simp add: registered_def)
    qed
    from step_registered [OF step run_Cons.prems(1-3) this]
    show ?case using run_Cons.IH [OF invv same(1) same(4)] run_Cons.prems(3,4) entry same
      by (simp add: task_sink_def)
  qed simp
  then have "task_events s' i = task_events s i @ map (\<lambda>rpc. sink_send (task_sink t) (Inr rpc))
      (concat (map (read_for api (task_sid t)) ls))"
    and chan: "task_chan (tasks s' ! i) = task_chan t" using assms(5,7) by blast+
  then show ?thesis unfolding task_events_def chan using assms(5,6) by (simp add: task_sink_kind)
qed

text \<open>
  C24. A call made after the end gets no answer: once the streams have been failed, a task that is
  waiting on a stream registered since then keeps waiting in every continuation (up to \<open>2 ^ 32\<close> streams,
  after which ids repeat), until its own timeout fires or its caller gives up. A request so returns only
  \<open>Timeout\<close>, never \<open>ConnectionClosed\<close>; a subscribe, which has no timeout, never returns.
\<close>

theorem call_after_the_end_gets_no_answer:
  assumes "tokio_laws tk" and "reach session_init (sys_step api codec js tk) s"
    and "reader s \<in> {StreamsFailed, TaskDone}" and "i < length (tasks s)"
    and "task_phase (tasks s ! i) = Waiting" and "t = tasks s ! i"
    and "task_entry t \<in> set (conn_registry (conn s))"
    and "run (sys_step api codec js tk) s ls s'" and "length (tasks s') \<le> 2 ^ 32"
    and "Expire i \<notin> set ls" and "Cancel i \<notin> set ls"
  shows "task_phase (tasks s' ! i) = Waiting \<and>
    (\<forall>l s''. label_task l = Some i \<and> sys_step api codec js tk s' l s'' \<longrightarrow>
       l = Cancel i \<or> (l = Expire i \<and> call_kind (task_call t) = RequestCall))"
proof -
  have "stranded s i" using assms(3-7) by (simp add: stranded_def registered_def)
  then have after: "answers_inv tk s'" "late_inv s'" "stranded s' i"
    using run_stranded [OF assms(8) answers_inv_reach [OF assms(1,2)] late.inv_reach [OF assms(2)] _ assms(9-11)]
    by simp_all
  have "task_entry (tasks s' ! i) = task_entry t \<and> task_call (tasks s' ! i) = task_call t"
    using run_entry [OF assms(8,4)] run_task_call [OF assms(8,4)] assms(5,6) by (simp add: has_channel_def)
  moreover have "l = Cancel i \<or> (l = Expire i \<and> call_kind (task_call (tasks s' ! i)) = RequestCall)"
    if "label_task l = Some i" "sys_step api codec js tk s' l s''" for l s''
  proof -
    have "l \<noteq> Wake i" using that(2) stranded_cannot_wake [OF after, of api codec js s''] by auto
    with that(2,1) after(3) show ?thesis by cases (auto simp: label_task_def stranded_def)
  qed
  ultimately show ?thesis using after(3) by (auto simp: stranded_def)
qed

text \<open>
  C25. What calls return, and what they leave behind, in every reachable state: \<open>Ok\<close> is the one
  message the loop sent to the request's own channel, of its own stream and no application error; a
  call that returned and whose stream is nevertheless still in the registry failed to serialize its
  request (the one path that does not remove it); a closed event stream is never in the registry.
\<close>

theorem results_and_leftovers:
  assumes "tokio_laws tk" and "reach session_init (sys_step api codec js tk) s"
    and "i < length (tasks s)" and "t = tasks s ! i"
  shows "(\<forall>rpc. task_phase t = Returned (Inr rpc) \<longrightarrow>
       call_kind (task_call t) = RequestCall \<and> stream_id rpc = task_sid t \<and>
       message_type rpc \<noteq> ApplicationError \<and>
       chan_events (task_chan t) (log s) = [OneshotSend (task_chan t) (Inr rpc)]) \<and>
    (\<forall>d. task_phase t = Returned d \<and> task_entry t \<in> set (conn_registry (conn s)) \<longrightarrow>
       (\<exists>e. d = Inl (Payload e))) \<and>
    (task_phase t \<in> {Closing, Closed} \<longrightarrow> task_entry t \<notin> set (conn_registry (conn s)))"
proof -
  have inv: "answers_inv tk s" using answers_inv_reach [OF assms(1,2)] .
  then have ok: "phase_ok s i" and sinv: "session_inv s" using assms(3) by (simp_all add: answers_inv_def)
  have "stream_id rpc = task_sid t \<and> message_type rpc \<noteq> ApplicationError \<and> \<not> registered s i"
    if "task_phase t = Returned (Inr rpc)" for rpc
  proof -
    have ev: "task_events s i = [OneshotSend (task_chan t) (Inr rpc)]" "call_kind (task_call t) = RequestCall"
      using ok that assms(4) by (simp_all add: phase_ok_def Let_def)
    have hist: "history (task_sid t) (task_sink t) (registered s i) (task_events s i)"
      using session_history [OF sinv assms(3)] that assms(4) by (simp add: has_channel_def)
    then show ?thesis using open_events_shape [OF hist, of "task_chan t" rpc] ev
      by (auto simp: task_sink_kind request_history split: if_splits)
  qed
  then show ?thesis using ok assms(4)
    by (auto simp: phase_ok_def Let_def task_events_def registered_def split: sum.splits)
qed

text \<open>
  The guard in \<open>subscribe\<close> that looks for an application error in the acknowledgement never
  fires: whatever the first message on the channel is, an application error has already arrived as
  \<open>Err\<close>, so waking from an acknowledgement always yields the event stream.
\<close>

theorem subscribe_ack_is_never_an_error_message:
  assumes "tokio_laws tk" and "reach session_init (sys_step api codec js tk) s"
    and "i < length (tasks s)" and "task_phase (tasks s ! i) = Waiting"
    and "call_kind (task_call (tasks s ! i)) = SubscribeCall"
    and "mpsc_poll tk 0 (chan_events (task_chan (tasks s ! i)) (log s)) = Ready (Some (Inr ack))"
  shows "subscribe_result js (Some (Inr ack)) = Streaming 1"
proof -
  have sinv: "session_inv s" by (rule streams.inv_reach [OF assms(2)])
  have hist: "history (task_sid (tasks s ! i)) (task_sink (tasks s ! i)) (registered s i) (task_events s i)"
    using session_history [OF sinv assms(3)] assms(4) by (simp add: has_channel_def)
  have "Inr ack \<in> set (sent_values (task_events s i))"
    using mpsc_poll_Some [OF assms(1,6)] by (simp add: task_events_def)
  then obtain c where "MpscSend c (Inr ack) \<in> set (task_events s i)"
    using sent_values_sent by blast
  then show ?thesis using open_events_shape [OF hist] by (auto simp: subscribe_result_def)
qed

text \<open>
  An event stream yields the messages sent to its channel in order, skipping and repeating none:
  what its consumer gets during any run is the contiguous part of them between its two positions.
\<close>

theorem event_stream_items_in_order:
  assumes "tokio_laws tk" and "reach session_init (sys_step api codec js tk) s"
    and "run (sys_step api codec js tk) s ls s'" and "i < length (tasks s)" and "t = tasks s ! i"
    and "task_phase t = Streaming n" and "task_phase (tasks s' ! i) = Streaming m"
  shows "n \<le> m \<and> concat (map (items_of i) ls) =
    take (m - n) (drop n (sent_values (chan_events (task_chan t) (log s'))))"
  using run_items [OF assms(3) answers_inv_reach [OF assms(1,2)] assms(4) _ assms(7)] assms(5,6)
    run_entry [OF assms(3,4)] run_chan [OF assms(3,4)]
  by (simp add: task_events_def has_channel_def)

section \<open>A concrete schedule\<close>

fun sender_dropped :: "effect list \<Rightarrow> bool" where
  "sender_dropped [] = False"
| "sender_dropped (SenderDrop c # evs) = True"
| "sender_dropped (OneshotSend c d # evs) = sender_dropped evs"
| "sender_dropped (MpscSend c d # evs) = sender_dropped evs"

lemma sender_dropped_iff: "sender_dropped evs \<longleftrightarrow> (\<exists>c. SenderDrop c \<in> set evs)"
  by (induction evs rule: sender_dropped.induct) auto

definition demo_tokio :: tokio where
  "demo_tokio = \<lparr>
     oneshot_poll = (\<lambda>evs. case evs of
         [] \<Rightarrow> Pending | OneshotSend _ d # _ \<Rightarrow> Ready (Some d) | _ \<Rightarrow> Ready None),
     mpsc_poll = (\<lambda>n evs.
         if n < length (sent_values evs) then Ready (Some (sent_values evs ! n))
         else if sender_dropped evs then Ready None else Pending)\<rparr>"

lemma demo_tokio_laws [simp]: "tokio_laws demo_tokio"
  by (auto simp: tokio_laws_def demo_tokio_def sender_dropped_iff)

text \<open>A subscription and a request whose registrations cross, and the frames that answer them.\<close>

definition demo_call :: "call_kind \<Rightarrow> call" where
  "demo_call k = \<lparr>call_kind = k, call_operation = ''op'', call_model = ''model'', call_payload = JObj []\<rparr>"

definition demo_rpc :: "i32 \<Rightarrow> byte \<Rightarrow> rpc_message" where
  "demo_rpc sid b = \<lparr>message_type = ApplicationMessage, flags = 0, stream_id = sid,
     service_model_type = None, payload = [b]\<rparr>"

type_synonym demo_label = "((string \<times> unit header_value) list \<times> bytes) label"

definition demo_read :: "i32 \<Rightarrow> byte \<Rightarrow> demo_label" where
  "demo_read sid b = Read (Inr (Some (frame_of ApplicationMessage 0 sid [b]))) WriteOk"

definition demo_exec :: "demo_label list \<Rightarrow> session \<Rightarrow> session option" where
  "demo_exec = exec_run pair_api sink_codec demo_json demo_tokio"

definition demo_conn :: "registry \<Rightarrow> i32 \<Rightarrow> nat \<Rightarrow> bool \<Rightarrow> connection" where
  "demo_conn reg sid ch cl = \<lparr>conn_writer = \<lparr>wire = [], shut = False\<rparr>, conn_registry = reg,
     next_stream_id = sid, conn_closed = cl, request_timeout = duration_from_secs 30, next_chan = ch\<rparr>"

definition demo_task :: "call_kind \<Rightarrow> i32 \<Rightarrow> nat \<Rightarrow> phase \<Rightarrow> task" where
  "demo_task k sid ch p = \<lparr>task_call = demo_call k, task_sid = sid, task_chan = ch, task_phase = p\<rparr>"

definition demo_start :: session where
  "demo_start = \<lparr>conn = demo_conn [] 1 0 False, reader = Reading, tasks = [], log = []\<rparr>"

definition demo_waiting :: session where
  "demo_waiting = \<lparr>conn = demo_conn [(1, Subscription 1), (2, Request 0)] 3 2 False, reader = Reading,
     tasks = [demo_task SubscribeCall 1 1 Waiting, demo_task RequestCall 2 0 Waiting], log = []\<rparr>"

definition demo_acked :: session where
  "demo_acked = \<lparr>conn = demo_conn [(1, Subscription 1), (2, Request 0)] 3 2 False, reader = Reading,
     tasks = [demo_task SubscribeCall 1 1 Waiting, demo_task RequestCall 2 0 Waiting],
     log = [MpscSend 1 (Inr (demo_rpc 1 1))]\<rparr>"

definition demo_answered :: session where
  "demo_answered = \<lparr>conn = demo_conn [(1, Subscription 1)] 3 2 False, reader = Reading,
     tasks = [demo_task SubscribeCall 1 1 (Streaming 1),
       demo_task RequestCall 2 0 (Returned (Inr (demo_rpc 2 2)))],
     log = [MpscSend 1 (Inr (demo_rpc 1 1)), OneshotSend 0 (Inr (demo_rpc 2 2)),
       MpscSend 1 (Inr (demo_rpc 1 3))]\<rparr>"

definition demo_stranded :: session where
  "demo_stranded = \<lparr>conn = demo_conn [(1, Subscription 0)] 2 1 True, reader = TaskDone,
     tasks = [demo_task SubscribeCall 1 0 Waiting], log = []\<rparr>"

lemmas demo_defs =
  demo_exec_def demo_conn_def demo_task_def demo_read_def demo_rpc_def demo_call_def
  alloc_stream_id_def in_phase_def register_def reg_insert_def hm_insert_def sink_of_call_def set_conn_def
  set_phase_def send_activate_def demo_json_def table_json_def to_vec_def sink_codec_def
  write_message_def socket_write_def Let_def read_loop_turn_def dispatch_eq sink_stays_def
  delivery_of_def terminates_stream_def wake_def task_events_def demo_tokio_def hm_remove_def hm_get_def
  request_result_def subscribe_result_def read_loop_fail_def read_loop_signal_def fail_all_def fail_sink_def

lemma demo_to_waiting:
  "demo_exec [Start (demo_call SubscribeCall), Start (demo_call RequestCall), Register 1, Register 0,
     Send 0 WriteOk, Send 1 WriteOk] demo_start = Some demo_waiting"
  by (simp add: demo_start_def demo_waiting_def demo_defs)

lemma demo_to_acked: "demo_exec [demo_read 1 1] demo_waiting = Some demo_acked"
  by (simp add: demo_waiting_def demo_acked_def demo_defs)

lemma demo_to_answered:
  "demo_exec [Wake 0, demo_read 2 2, demo_read 1 3, Wake 1] demo_acked = Some demo_answered"
  by (simp add: demo_acked_def demo_answered_def demo_defs image_iff)

lemma demo_to_stranded:
  "demo_exec [Read (Inr None) WriteOk, FailAll, Signal, Start (demo_call SubscribeCall), Register 0,
     Send 0 WriteOk] demo_start = Some demo_stranded"
  by (simp add: demo_start_def demo_stranded_def demo_defs)

lemma demo_run: "demo_exec ls s = Some s' \<Longrightarrow> run (sys_step pair_api sink_codec demo_json demo_tokio) s ls s'"
  unfolding demo_exec_def by (rule exec_run_run)

lemma demo_start_init: "session_init demo_start"
  by (auto simp: session_init_def demo_start_def demo_conn_def new_connection_def)

lemma demo_reach:
  "reach session_init (sys_step pair_api sink_codec demo_json demo_tokio) demo_start"
  "reach session_init (sys_step pair_api sink_codec demo_json demo_tokio) demo_waiting"
  "reach session_init (sys_step pair_api sink_codec demo_json demo_tokio) demo_acked"
  "reach session_init (sys_step pair_api sink_codec demo_json demo_tokio) demo_answered"
  "reach session_init (sys_step pair_api sink_codec demo_json demo_tokio) demo_stranded"
proof -
  show start: "reach session_init (sys_step pair_api sink_codec demo_json demo_tokio) demo_start"
    using demo_start_init by (rule reach_init)
  show waiting: "reach session_init (sys_step pair_api sink_codec demo_json demo_tokio) demo_waiting"
    by (rule reach_run [OF demo_run [OF demo_to_waiting] start])
  show acked: "reach session_init (sys_step pair_api sink_codec demo_json demo_tokio) demo_acked"
    by (rule reach_run [OF demo_run [OF demo_to_acked] waiting])
  show "reach session_init (sys_step pair_api sink_codec demo_json demo_tokio) demo_answered"
    by (rule reach_run [OF demo_run [OF demo_to_answered] acked])
  show "reach session_init (sys_step pair_api sink_codec demo_json demo_tokio) demo_stranded"
    by (rule reach_run [OF demo_run [OF demo_to_stranded] start])
qed

lemmas demo_states =
  demo_waiting_def demo_acked_def demo_answered_def demo_stranded_def demo_conn_def demo_task_def
  demo_call_def has_channel_def task_entry_def task_sink_def sink_of_call_def

theorem no_crosstalk_and_at_most_one_answer_witness:
  "chan_events 0 (log demo_answered) = [SenderDrop 0] \<or>
   (\<exists>d. chan_events 0 (log demo_answered) = [OneshotSend 0 d])"
  using no_crosstalk_and_at_most_one_answer [OF demo_reach(4), of 1 "tasks demo_answered ! 1"
      "chan_events 0 (log demo_answered)" False]
  by (simp add: demo_states)

theorem waiting_task_can_wake_iff_witness:
  "(\<nexists>s'. sys_step pair_api sink_codec demo_json demo_tokio demo_acked (Wake 1) s') \<and>
   (\<exists>s'. sys_step pair_api sink_codec demo_json demo_tokio demo_acked (Wake 0) s')"
  using waiting_task_can_wake_iff [OF demo_tokio_laws demo_reach(3), of 0 "tasks demo_acked ! 0"]
    waiting_task_can_wake_iff [OF demo_tokio_laws demo_reach(3), of 1 "tasks demo_acked ! 1"]
  by (simp add: demo_states)

definition demo_stopping :: session where
  "demo_stopping = demo_waiting\<lparr>reader := LoopLeft\<rparr>"

definition demo_failed :: session where
  "demo_failed = demo_waiting\<lparr>reader := StreamsFailed, conn := demo_conn [] 3 2 False,
     log := [MpscSend 1 (Inl ConnectionClosed), SenderDrop 1, OneshotSend 0 (Inl ConnectionClosed)]\<rparr>"

lemma demo_to_failed:
  "demo_exec [Read (Inr None) WriteOk] demo_waiting = Some demo_stopping"
  "demo_exec [FailAll] demo_stopping = Some demo_failed"
  by (simp_all add: demo_waiting_def demo_stopping_def demo_failed_def demo_defs)

theorem end_of_connection_wakes_everyone_witness:
  "conn_registry (conn demo_failed) = [] \<and>
   (\<exists>s3. sys_step pair_api sink_codec demo_json demo_tokio demo_failed (Wake 1) s3)"
proof -
  have "reach session_init (sys_step pair_api sink_codec demo_json demo_tokio) demo_stopping"
    by (rule reach_run [OF demo_run [OF demo_to_failed(1)] demo_reach(2)])
  moreover have "sys_step pair_api sink_codec demo_json demo_tokio demo_stopping FailAll demo_failed"
    using demo_run [OF demo_to_failed(2)] by blast
  ultimately show ?thesis
    by (rule end_of_connection_wakes_everyone [OF demo_tokio_laws _ _ run_Nil])
       (simp_all add: demo_stopping_def demo_failed_def demo_states)
qed

lemma demo_to_answered_all:
  "demo_exec [demo_read 1 1, Wake 0, demo_read 2 2, demo_read 1 3, Wake 1] demo_waiting = Some demo_answered"
  by (simp add: demo_waiting_def demo_answered_def demo_defs image_iff)

theorem subscription_gets_everything_in_order_witness:
  "chan_events 1 (log demo_answered) = [MpscSend 1 (Inr (demo_rpc 1 1)), MpscSend 1 (Inr (demo_rpc 1 3))]"
  using subscription_gets_everything_in_order [OF demo_reach(2) demo_run [OF demo_to_answered_all],
      of 0 "tasks demo_waiting ! 0"]
  by (simp add: demo_states demo_read_def read_for_def label_rpc_def frame_rpc_def demo_rpc_def)

definition demo_stranded_later :: session where
  "demo_stranded_later = demo_stranded\<lparr>conn := demo_conn [(1, Subscription 0)] 3 1 True,
     tasks := [demo_task SubscribeCall 1 0 Waiting, demo_task RequestCall 2 0 Allocated]\<rparr>"

theorem call_after_the_end_gets_no_answer_witness:
  "\<nexists>s''. sys_step pair_api sink_codec demo_json demo_tokio demo_stranded_later (Expire 0) s'' \<or>
     sys_step pair_api sink_codec demo_json demo_tokio demo_stranded_later (Wake 0) s''"
proof -
  have "demo_exec [Start (demo_call RequestCall)] demo_stranded = Some demo_stranded_later"
    by (simp add: demo_stranded_later_def demo_stranded_def demo_defs)
  from call_after_the_end_gets_no_answer [OF demo_tokio_laws demo_reach(5) _ _ _ _ _ demo_run [OF this],
      of 0 "tasks demo_stranded ! 0"]
  have only: "label_task l = Some 0 \<Longrightarrow>
      sys_step pair_api sink_codec demo_json demo_tokio demo_stranded_later l s'' \<Longrightarrow> l = Cancel 0" for l s''
    by (auto simp: demo_stranded_later_def demo_states)
  show ?thesis using only [of "Expire 0"] only [of "Wake 0"] by (auto simp: label_task_def)
qed

theorem results_and_leftovers_witness:
  "stream_id (demo_rpc 2 2) = 2 \<and>
   chan_events 0 (log demo_answered) = [OneshotSend 0 (Inr (demo_rpc 2 2))]"
  using results_and_leftovers [OF demo_tokio_laws demo_reach(4), of 1 "tasks demo_answered ! 1"]
  by (simp add: demo_states)

theorem subscribe_ack_is_never_an_error_message_witness:
  "subscribe_result demo_json (Some (Inr (demo_rpc 1 1))) = Streaming 1"
  using subscribe_ack_is_never_an_error_message [OF demo_tokio_laws demo_reach(3), of 0 "demo_rpc 1 1"]
  by (simp add: demo_states demo_tokio_def)

definition demo_consumed :: session where
  "demo_consumed = demo_answered\<lparr>tasks := [demo_task SubscribeCall 1 1 (Streaming 2),
     demo_task RequestCall 2 0 (Returned (Inr (demo_rpc 2 2)))]\<rparr>"

theorem event_stream_items_in_order_witness:
  "concat (map (items_of 0) ([NextEvent 0 (Some (Inr (demo_rpc 1 3)))] :: demo_label list)) =
     take 1 (drop 1 (sent_values (chan_events 1 (log demo_consumed))))"
proof -
  have "demo_exec [NextEvent 0 (Some (Inr (demo_rpc 1 3)))] demo_answered = Some demo_consumed"
    by (simp add: demo_answered_def demo_consumed_def demo_defs)
  from event_stream_items_in_order [OF demo_tokio_laws demo_reach(4) demo_run [OF this],
      of 0 "tasks demo_answered ! 0" 1 2]
  show ?thesis by (simp add: demo_states demo_consumed_def)
qed

theorem response_resolves_its_request_witness:
  "\<exists>s1 s2. sys_step pair_api sink_codec demo_json demo_tokio demo_acked
      (Read (Inr (Some (frame_of ApplicationMessage 0 2 [2]))) WriteOk) s1 \<and>
    sys_step pair_api sink_codec demo_json demo_tokio s1 (Wake 1) s2 \<and>
    task_phase (tasks s2 ! 1) = Returned (Inr (demo_rpc 2 2))"
  using response_resolves_its_request [OF demo_tokio_laws demo_reach(3), of 1 "tasks demo_acked ! 1"
      "frame_of ApplicationMessage 0 2 [2]" "demo_rpc 2 2" WriteOk]
  by (auto simp: demo_states demo_rpc_def delivery_of_def)

end
