(* ===== verification/Calls.thy ===== *)
theory Calls
  imports SessionProperties
begin

text \<open>
  The operations as runs of the program. \<open>Connection\<close> and \<open>ReadLoop\<close> give \<open>request\<close>, \<open>subscribe\<close>,
  \<open>close_stream\<close> and \<open>read_loop\<close> as whole functions, \<open>Session\<close> their atomic steps in every interleaving.
  Here the two are the same code: each function's result, connection and effects are those of a run of
  the steps; what others do while a call waits may come in between.
\<close>

section \<open>Runs\<close>

lemma run_append:
  assumes "run step s ls t" "run step t ms u"
  shows "run step s (ls @ ms) u"
  using assms by (induction rule: run.induct) (auto intro: run.intros)

section \<open>Calls\<close>

text \<open>The phase a task is in after it sent, or failed to send, its message.\<close>

definition sent_phase :: "sent \<Rightarrow> phase" where
  "sent_phase outcome = (case outcome of
      Sent \<Rightarrow> Waiting | SerializeFailed err \<Rightarrow> Returned (Inl err) | WriteFailed err \<Rightarrow> Cleaning err)"

text \<open>What \<open>request\<close> and \<open>subscribe\<close> have in common: everything before the wait.\<close>

definition begin_call ::
  "('m, 'h, 'o) msg_api \<Rightarrow> ('m, 'd) codec \<Rightarrow> json_api \<Rightarrow> call \<Rightarrow> write_outcome \<Rightarrow> connection \<Rightarrow>
   i32 \<times> chan \<times> sent \<times> connection \<times> effect list" where
  "begin_call api codec js cl out c =
     (let (sid, c1) = alloc_stream_id c;
          (ch, c2, eff) = register (sink_of_call cl) sid c1;
          (outcome, c3) = send_activate api codec js sid (call_operation cl) (call_model cl) (call_payload cl) out c2
      in (sid, ch, outcome, c3, eff))"

lemma request_begin:
  "call_kind cl = RequestCall \<Longrightarrow>
   request api codec js (call_operation cl) (call_model cl) (call_payload cl) out w c =
     (case begin_call api codec js cl out c of
        (sid, ch, Sent, c3, eff) \<Rightarrow>
          (let (result, c4, eff') = finish_request (call_operation cl) sid w c3 in (result, c4, eff @ eff'))
      | (sid, ch, SerializeFailed err, c3, eff) \<Rightarrow> (Inl err, c3, eff)
      | (sid, ch, WriteFailed err, c3, eff) \<Rightarrow>
          (let (c4, eff') = unregister sid c3 in (Inl err, c4, eff @ eff')))"
  by (simp add: request_def begin_call_def sink_of_call_def split: prod.split sent.split)

lemma subscribe_begin:
  "call_kind cl = SubscribeCall \<Longrightarrow>
   subscribe api codec js (call_operation cl) (call_model cl) (call_payload cl) out first c =
     (case begin_call api codec js cl out c of
        (sid, ch, Sent, c3, eff) \<Rightarrow>
          (let (result, c4, eff') = finish_subscribe js sid ch first c3 in (result, c4, eff @ eff'))
      | (sid, ch, SerializeFailed err, c3, eff) \<Rightarrow> (Inl err, c3, eff)
      | (sid, ch, WriteFailed err, c3, eff) \<Rightarrow>
          (let (c4, eff') = unregister sid c3 in (Inl err, c4, eff @ eff')))"
  by (simp add: subscribe_def begin_call_def sink_of_call_def split: prod.split sent.split)

lemma run_begin_call:
  assumes "i = length (tasks s)" and "begin_call api codec js cl out (conn s) = (sid, ch, outcome, c, eff)"
  shows "run (sys_step api codec js tk) s [Start cl, Register i, Send i out]
    \<lparr>conn = c, reader = reader s,
     tasks = tasks s @ [\<lparr>task_call = cl, task_sid = sid, task_chan = ch, task_phase = sent_phase outcome\<rparr>],
     log = log s @ eff\<rparr>"
proof -
  have "exec_run api codec js tk [Start cl, Register i, Send i out] s = Some
    \<lparr>conn = c, reader = reader s,
     tasks = tasks s @ [\<lparr>task_call = cl, task_sid = sid, task_chan = ch, task_phase = sent_phase outcome\<rparr>],
     log = log s @ eff\<rparr>"
    using assms
    by (auto simp: begin_call_def alloc_stream_id_def in_phase_def set_conn_def set_phase_def sent_phase_def
        Let_def split: prod.splits)
  then show ?thesis by (rule exec_run_run)
qed

text \<open>How a wait can end in a state: what the task's receiver gives there, or its timer.\<close>

definition wait_ends :: "tokio \<Rightarrow> session \<Rightarrow> nat \<Rightarrow> request_wait \<Rightarrow> bool" where
  "wait_ends tk s i w \<longleftrightarrow> (case w of
      Received d \<Rightarrow> oneshot_poll tk (task_events s i) = Ready (Some d)
    | SenderGone \<Rightarrow> oneshot_poll tk (task_events s i) = Ready None
    | Elapsed \<Rightarrow> True)"

definition finish_labels :: "nat \<Rightarrow> request_wait \<Rightarrow> 'm label list" where
  "finish_labels i w = (case w of Elapsed \<Rightarrow> [Expire i, Cleanup i] | _ \<Rightarrow> [Wake i])"

lemma run_finish_request:
  assumes "i < length (tasks s)" "task_phase (tasks s ! i) = Waiting"
    and "call_kind (task_call (tasks s ! i)) = RequestCall" "wait_ends tk s i w"
    and "finish_request (call_operation (task_call (tasks s ! i))) (task_sid (tasks s ! i)) w (conn s) = (d, c, eff)"
  shows "run (sys_step api codec js tk) s (finish_labels i w)
    \<lparr>conn = c, reader = reader s, tasks = (tasks s)[i := (tasks s ! i)\<lparr>task_phase := Returned d\<rparr>], log = log s @ eff\<rparr>"
proof -
  have "exec_run api codec js tk (finish_labels i w) s = Some
    \<lparr>conn = c, reader = reader s, tasks = (tasks s)[i := (tasks s ! i)\<lparr>task_phase := Returned d\<rparr>], log = log s @ eff\<rparr>"
    using assms
    by (auto simp: finish_labels_def wait_ends_def finish_request_def in_phase_def wake_def request_result_def
        set_phase_def set_conn_def split: request_wait.splits prod.splits)
  then show ?thesis by (rule exec_run_run)
qed

lemma run_cleanup:
  assumes "i < length (tasks s)" "task_phase (tasks s ! i) = Cleaning err"
    and "unregister (task_sid (tasks s ! i)) (conn s) = (c, eff)"
  shows "run (sys_step api codec js tk) s [Cleanup i]
    \<lparr>conn = c, reader = reader s, tasks = (tasks s)[i := (tasks s ! i)\<lparr>task_phase := Returned (Inl err)\<rparr>],
     log = log s @ eff\<rparr>"
proof -
  have "exec_run api codec js tk [Cleanup i] s = Some
    \<lparr>conn = c, reader = reader s, tasks = (tasks s)[i := (tasks s ! i)\<lparr>task_phase := Returned (Inl err)\<rparr>],
     log = log s @ eff\<rparr>"
    using assms by (simp add: set_phase_def set_conn_def)
  then show ?thesis by (rule exec_run_run)
qed

text \<open>A run that brings a task to a phase, with the connection and the log it leaves.\<close>

definition arrives ::
  "('m, 'h, 'o) msg_api \<Rightarrow> ('m, 'd) codec \<Rightarrow> json_api \<Rightarrow> tokio \<Rightarrow> session \<Rightarrow> 'm label list \<Rightarrow>
   nat \<Rightarrow> phase \<Rightarrow> connection \<Rightarrow> effect list \<Rightarrow> bool" where
  "arrives api codec js tk s ls i p c lg \<longleftrightarrow>
     (\<exists>s'. run (sys_step api codec js tk) s ls s' \<and> i < length (tasks s') \<and>
        task_phase (tasks s' ! i) = p \<and> conn s' = c \<and> log s' = lg)"

lemma arrivesI:
  "run (sys_step api codec js tk) s ls \<lparr>conn = c, reader = rd, tasks = ts, log = lg\<rparr> \<Longrightarrow>
   i < length ts \<Longrightarrow> task_phase (ts ! i) = p \<Longrightarrow> arrives api codec js tk s ls i p c lg"
  unfolding arrives_def by (intro exI [of _ "\<lparr>conn = c, reader = rd, tasks = ts, log = lg\<rparr>"]) simp

text \<open>The calls \<open>request\<close> and \<open>subscribe\<close> make when the message could not be sent.\<close>

definition failed_labels :: "nat \<Rightarrow> phase \<Rightarrow> 'm label list" where
  "failed_labels i p = (case p of Cleaning _ \<Rightarrow> [Cleanup i] | _ \<Rightarrow> [])"

lemma arrives_failed:
  assumes "i < length (tasks s)" "task_phase (tasks s ! i) = sent_phase outcome"
  shows "outcome = SerializeFailed err \<Longrightarrow>
      arrives api codec js tk s (failed_labels i (sent_phase outcome)) i (Returned (Inl err)) (conn s) (log s)"
    and "outcome = WriteFailed err \<Longrightarrow> unregister (task_sid (tasks s ! i)) (conn s) = (c, eff) \<Longrightarrow>
      arrives api codec js tk s (failed_labels i (sent_phase outcome)) i (Returned (Inl err)) c (log s @ eff)"
proof -
  assume "outcome = SerializeFailed err"
  then show "arrives api codec js tk s (failed_labels i (sent_phase outcome)) i (Returned (Inl err)) (conn s) (log s)"
    unfolding arrives_def using assms
    by (intro exI [of _ s]) (simp add: failed_labels_def sent_phase_def run_Nil)
next
  assume failed: "outcome = WriteFailed err" "unregister (task_sid (tasks s ! i)) (conn s) = (c, eff)"
  have "run (sys_step api codec js tk) s [Cleanup i]
    \<lparr>conn = c, reader = reader s, tasks = (tasks s)[i := (tasks s ! i)\<lparr>task_phase := Returned (Inl err)\<rparr>],
     log = log s @ eff\<rparr>"
    using assms failed by (intro run_cleanup) (simp_all add: sent_phase_def)
  then have "arrives api codec js tk s [Cleanup i] i (Returned (Inl err)) c (log s @ eff)"
    by (rule arrivesI) (simp_all add: assms(1))
  then show "arrives api codec js tk s (failed_labels i (sent_phase outcome)) i (Returned (Inl err)) c (log s @ eff)"
    using failed(1) by (simp add: failed_labels_def sent_phase_def)
qed


text \<open>The end of a subscribe: it returns the event stream, or cleans up and returns the error.\<close>

definition subscribed_phase :: "error + i32 \<times> chan \<Rightarrow> phase" where
  "subscribed_phase r = (case r of Inl err \<Rightarrow> Returned (Inl err) | Inr _ \<Rightarrow> Streaming 1)"

definition subscribed_labels :: "nat \<Rightarrow> error + i32 \<times> chan \<Rightarrow> 'm label list" where
  "subscribed_labels i r = Wake i # (case r of Inl err \<Rightarrow> [Cleanup i] | Inr _ \<Rightarrow> [])"

lemma run_finish_subscribe:
  assumes "i < length (tasks s)" "task_phase (tasks s ! i) = Waiting"
    and "call_kind (task_call (tasks s ! i)) = SubscribeCall" "mpsc_poll tk 0 (task_events s i) = Ready first"
    and "finish_subscribe js (task_sid (tasks s ! i)) (task_chan (tasks s ! i)) first (conn s) = (r, c, eff)"
  shows "run (sys_step api codec js tk) s (subscribed_labels i r)
    \<lparr>conn = c, reader = reader s, tasks = (tasks s)[i := (tasks s ! i)\<lparr>task_phase := subscribed_phase r\<rparr>],
     log = log s @ eff\<rparr>"
proof -
  have "exec_run api codec js tk (subscribed_labels i r) s = Some
    \<lparr>conn = c, reader = reader s, tasks = (tasks s)[i := (tasks s ! i)\<lparr>task_phase := subscribed_phase r\<rparr>],
     log = log s @ eff\<rparr>"
    using assms
    by (auto simp: subscribed_labels_def subscribed_phase_def finish_subscribe_def in_phase_def wake_def
        subscribe_result_def set_phase_def set_conn_def split: option.splits sum.splits if_splits prod.splits)
  then show ?thesis by (rule exec_run_run)
qed


text \<open>Dropping the event stream: the task it spawns runs \<open>close_stream\<close>.\<close>

lemma close_stream_is_its_steps:
  assumes "i < length (tasks s)" "task_phase (tasks s ! i) = Dropped"
    and "close_stream api codec (task_sid (tasks s ! i)) out (conn s) = (c, eff)"
  shows "arrives api codec js tk s [CloseRemove i, CloseSend i out] i Closed c (log s @ eff)"
proof -
  have "exec_run api codec js tk [CloseRemove i, CloseSend i out] s = Some
    \<lparr>conn = c, reader = reader s, tasks = (tasks s)[i := (tasks s ! i)\<lparr>task_phase := Closed\<rparr>], log = log s @ eff\<rparr>"
    using assms
    by (auto simp: close_stream_def in_phase_def set_phase_def set_conn_def split: prod.splits)
  from exec_run_run [OF this] show ?thesis by (rule arrivesI) (simp_all add: assms(1))
qed

section \<open>The read loop\<close>

text \<open>The results of the successive \<open>next_frame\<close> calls on a script, up to the one that is still waiting.\<close>

fun next_frames ::
  "('m, 'd) codec \<Rightarrow> nat \<Rightarrow> 'd framed_reader \<Rightarrow> read_result list \<Rightarrow> (error + 'm option) list" where
  "next_frames codec 0 r reads = []"
| "next_frames codec (Suc n) r reads = (case next_frame codec r reads of
      (Pending, _, _) \<Rightarrow> []
    | (Ready frame, r', reads') \<Rightarrow> frame # next_frames codec n r' reads')"

text \<open>The labels of a loop that saw these results, starting at turn \<open>i\<close>.\<close>

fun loop_labels :: "(nat \<Rightarrow> write_outcome) \<Rightarrow> nat \<Rightarrow> (error + 'm option) list \<Rightarrow> 'm label list" where
  "loop_labels outs i [] = []"
| "loop_labels outs i (frame # frames) = Read frame (outs i) # loop_labels outs (Suc i) frames"

lemma run_last_turn:
  assumes "read_loop_turn api codec js frame out (conn s) = (Break, c1, eff1)" "reader s = Reading"
    and "read_loop_fail c1 = (c2, eff2)"
  shows "run (sys_step api codec js tk) s [Read frame out, FailAll, Signal]
    \<lparr>conn = read_loop_signal c2, reader = TaskDone, tasks = tasks s, log = log s @ eff1 @ eff2\<rparr>"
  by (rule exec_run_run) (simp add: assms set_conn_def)

lemma read_loop_steps:
  assumes "read_loop api codec js outs i fuel rd reads (conn s) = (ended, c, eff)" and "reader s = Reading"
  shows "\<exists>k. run (sys_step api codec js tk) s
    (loop_labels outs i (take k (next_frames codec fuel rd reads)) @ (if ended then [FailAll, Signal] else []))
    \<lparr>conn = c, reader = (if ended then TaskDone else Reading), tasks = tasks s, log = log s @ eff\<rparr>"
  using assms
proof (induction fuel arbitrary: i rd reads s eff)
  case 0
  then show ?case by (cases s) (auto intro: run_Nil)
next
  case (Suc fuel)
  show ?case
  proof (cases "next_frame codec rd reads")
    case (fields st rd' reads')
    show ?thesis
    proof (cases st)
      case Pending
      with Suc.prems fields show ?thesis by (cases s) (auto intro!: exI [of _ 0] run_Nil)
    next
      case (Ready frame)
      obtain flow c1 eff1 where turn: "read_loop_turn api codec js frame (outs i) (conn s) = (flow, c1, eff1)"
        by (metis prod_cases3)
      define s1 where "s1 = set_conn (c1, eff1)
        (s\<lparr>reader := (case flow of Continue \<Rightarrow> Reading | Break \<Rightarrow> LoopLeft)\<rparr>)"
      have step: "sys_step api codec js tk s (Read frame (outs i)) s1"
        using step_read [OF Suc.prems(2) turn] by (simp add: s1_def)
      show ?thesis
      proof (cases flow)
        case Continue
        then obtain eff2 where rest: "read_loop api codec js outs (Suc i) fuel rd' reads' (conn s1) = (ended, c, eff2)"
          "eff = eff1 @ eff2"
          using Suc.prems(1) fields Ready turn by (auto simp: s1_def split: prod.splits)
        moreover have "reader s1 = Reading" using Continue by (simp add: s1_def)
        ultimately obtain k where "run (sys_step api codec js tk) s1
          (loop_labels outs (Suc i) (take k (next_frames codec fuel rd' reads')) @ (if ended then [FailAll, Signal] else []))
          \<lparr>conn = c, reader = (if ended then TaskDone else Reading), tasks = tasks s1, log = log s1 @ eff2\<rparr>"
          using Suc.IH by blast
        from run_Cons [OF step this] show ?thesis
          using fields Ready rest(2) by (intro exI [of _ "Suc k"]) (simp add: s1_def)
      next
        case Break
        then obtain c2 eff2 where "read_loop_fail c1 = (c2, eff2)" "ended" "c = read_loop_signal c2" "eff = eff1 @ eff2"
          using Suc.prems(1) fields Ready turn by (auto split: prod.splits)
        then show ?thesis
          using run_last_turn [OF turn [unfolded Break] Suc.prems(2)] fields Ready
          by (intro exI [of _ "Suc 0"]) simp
      qed
    qed
  qed
qed


section \<open>Concrete calls\<close>

lemma begin_deterministic:
  assumes "run (sys_step api codec js tk) s [Start cl, Register i, Send i out] s1"
    and "exec_run api codec js tk [Start cl, Register i, Send i out] s = Some s2"
  shows "s1 = s2"
  using assms
  by (auto elim!: start_stepE register_stepE send_stepE simp: in_phase_def Let_def)

definition demo_sent :: "call_kind \<Rightarrow> session" where
  "demo_sent k = demo_start\<lparr>conn := demo_conn [(1, sink_of_call (demo_call k) 0)] 2 1 False,
     tasks := [demo_task k 1 0 Waiting]\<rparr>"

lemma demo_to_sent:
  "exec_run pair_api sink_codec demo_json demo_tokio [Start (demo_call k), Register 0, Send 0 WriteOk] demo_start =
     Some (demo_sent k)"
  by (cases k) (simp_all add: demo_start_def demo_sent_def demo_defs)

lemma demo_request_elapsed:
  "request pair_api sink_codec demo_json ''op'' ''model'' (JObj []) WriteOk Elapsed (demo_conn [] 1 0 False) =
     (Inl (Timeout ''op'' (duration_from_secs 30)), demo_conn [] 2 1 False, [SenderDrop 0])"
  by (simp add: request_def finish_request_def unregister_def reg_remove_def demo_defs)


lemma demo_subscribe_ended:
  "subscribe pair_api sink_codec demo_json ''op'' ''model'' (JObj []) WriteOk None (demo_conn [] 1 0 False) =
     (Inl ConnectionClosed, demo_conn [] 2 1 False, [SenderDrop 0])"
  by (simp add: subscribe_def finish_subscribe_def unregister_def reg_remove_def demo_defs)

text \<open>The subscribe, after the loop has ended and failed its stream.\<close>

definition demo_subscribe_failed :: session where
  "demo_subscribe_failed = (demo_sent SubscribeCall)\<lparr>conn := demo_conn [] 2 1 False, reader := StreamsFailed,
     log := [MpscSend 0 (Inl ConnectionClosed), SenderDrop 0]\<rparr>"


text \<open>The loop over two chunks: a frame for the request's stream and the end of the socket.\<close>

definition demo_loop :: "bool \<times> connection \<times> effect list" where
  "demo_loop = read_loop pair_api demo_codec demo_json (\<lambda>_. WriteOk) 0 9 (framed_reader_new demo_codec)
     (map Inr [[1], [0]] @ [Inr []]) (conn (demo_sent RequestCall))"


end
