(* ===== verification/Handles.thy ===== *)
theory Handles
  imports SessionProperties
begin

text \<open>
  The life of the connection itself: the \<open>Client\<close> values that share it by \<open>Arc\<close>, the event streams and the tasks
  their drop spawns, which hold it too, and \<open>Drop for Connection\<close>, which aborts the read task when the last of
  them is gone.
\<close>

section \<open>The program with its handles\<close>

text \<open>
  \<open>clients\<close> counts the \<open>Client\<close> values; \<open>dropped\<close>: \<open>Connection::drop\<close> has run; \<open>aborted\<close>: the read task it asked
  to abort has stopped. A call borrows the client it was made on until it is over; an event stream and the task that
  closes it hold the connection themselves.
\<close>

record program =
  shared :: session
  clients :: nat
  dropped :: bool
  aborted :: bool

fun borrows_client :: "phase \<Rightarrow> bool" where
  "borrows_client Allocated \<longleftrightarrow> True"
| "borrows_client Registered \<longleftrightarrow> True"
| "borrows_client Waiting \<longleftrightarrow> True"
| "borrows_client (Cleaning _) \<longleftrightarrow> True"
| "borrows_client _ \<longleftrightarrow> False"

fun holds_connection :: "phase \<Rightarrow> bool" where
  "holds_connection (Streaming _) \<longleftrightarrow> True"
| "holds_connection Dropped \<longleftrightarrow> True"
| "holds_connection Closing \<longleftrightarrow> True"
| "holds_connection _ \<longleftrightarrow> False"

definition strong_count :: "program \<Rightarrow> nat" where
  "strong_count p = clients p + length (filter (\<lambda>t. holds_connection (task_phase t)) (tasks (shared p)))"

text \<open>
  The registry is freed, and the senders in it with it, when the connection and the read task, which share it, are
  both gone.
\<close>

definition free_registry :: "session \<Rightarrow> session" where
  "free_registry s = s\<lparr>conn := (conn s)\<lparr>conn_registry := []\<rparr>,
     log := log s @ map (\<lambda>(_, sink). SenderDrop (sink_chan sink)) (conn_registry (conn s))\<rparr>"

definition release :: "program \<Rightarrow> program" where
  "release p =
     (let gone = dropped p \<or> strong_count p = 0 in
      if gone \<and> (aborted p \<or> reader (shared p) = TaskDone)
      then p\<lparr>dropped := True, shared := free_registry (shared p)\<rparr>
      else p\<lparr>dropped := gone\<rparr>)"

datatype 'm program_label = Step "'m label" | CloneClient | DropClient | AbortReader

text \<open>
  An aborted read task stops where it awaits, that is in a turn of its loop; once it has left the loop it runs to
  its end.
\<close>

inductive program_step ::
  "('m, 'h, 'o) msg_api \<Rightarrow> ('m, 'd) codec \<Rightarrow> json_api \<Rightarrow> tokio \<Rightarrow>
   program \<Rightarrow> 'm program_label \<Rightarrow> program \<Rightarrow> bool"
  for api :: "('m, 'h, 'o) msg_api" and codec :: "('m, 'd) codec" and js :: json_api and tk :: tokio
where
  program_run: "sys_step api codec js tk (shared p) l s' \<Longrightarrow>
    ((\<exists>cl. l = Start cl) \<longrightarrow> 0 < clients p) \<Longrightarrow> (label_task l = None \<and> (\<forall>cl. l \<noteq> Start cl) \<longrightarrow> \<not> aborted p) \<Longrightarrow>
    program_step api codec js tk p (Step l) (release (p\<lparr>shared := s'\<rparr>))"
| program_clone: "0 < clients p \<Longrightarrow> program_step api codec js tk p CloneClient (p\<lparr>clients := Suc (clients p)\<rparr>)"
| program_drop: "clients p = Suc n \<Longrightarrow>
    (n = 0 \<longrightarrow> (\<forall>t \<in> set (tasks (shared p)). \<not> borrows_client (task_phase t))) \<Longrightarrow>
    program_step api codec js tk p DropClient (release (p\<lparr>clients := n\<rparr>))"
| program_abort: "dropped p \<Longrightarrow> \<not> aborted p \<Longrightarrow> reader (shared p) = Reading \<Longrightarrow>
    program_step api codec js tk p AbortReader (release (p\<lparr>aborted := True\<rparr>))"

definition program_init :: "program \<Rightarrow> bool" where
  "program_init p \<longleftrightarrow> session_init (shared p) \<and> clients p = 1 \<and> \<not> dropped p \<and> \<not> aborted p"

section \<open>The invariant\<close>

definition program_inv :: "program \<Rightarrow> bool" where
  "program_inv p \<longleftrightarrow> (dropped p \<longleftrightarrow> strong_count p = 0) \<and> (aborted p \<longrightarrow> dropped p) \<and>
     (clients p = 0 \<longrightarrow> (\<forall>t \<in> set (tasks (shared p)). \<not> borrows_client (task_phase t))) \<and>
     (dropped p \<and> (aborted p \<or> reader (shared p) = TaskDone) \<longrightarrow> conn_registry (conn (shared p)) = [])"

lemma release_simps [simp]:
  "clients (release p) = clients p" "aborted (release p) = aborted p" "tasks (shared (release p)) = tasks (shared p)"
  "dropped (release p) \<longleftrightarrow> dropped p \<or> strong_count p = 0" "strong_count (release p) = strong_count p"
  by (simp_all add: release_def free_registry_def strong_count_def Let_def)

lemma release_not_dropped: "\<not> dropped (release p) \<Longrightarrow> shared (release p) = shared p"
  by (simp add: release_def Let_def split: if_splits)

lemma release_frees:
  "dropped (release p) \<Longrightarrow> aborted (release p) \<or> reader (shared (release p)) = TaskDone \<Longrightarrow>
   conn_registry (conn (shared (release p))) = []"
  by (auto simp: release_def free_registry_def Let_def split: if_splits)

lemma no_holder:
  "strong_count p = 0 \<longleftrightarrow> clients p = 0 \<and> (\<forall>t \<in> set (tasks (shared p)). \<not> holds_connection (task_phase t))"
  by (auto simp: strong_count_def filter_empty_conv)

text \<open>A step of the session begins a borrow only with a new call, and needs a task that is not over.\<close>

lemma step_borrows:
  assumes "sys_step api codec js tk s l s'" "\<forall>cl. l \<noteq> Start cl" "i < length (tasks s')"
    "borrows_client (task_phase (tasks s' ! i))"
  shows "i < length (tasks s) \<and> borrows_client (task_phase (tasks s ! i))"
  using assms
  by cases (simp_all add: nth_list_update request_result_def subscribe_result_def split: if_splits sent.splits
      option.splits sum.splits)

lemma step_needs_task:
  assumes "sys_step api codec js tk s l s'" "label_task l = Some i"
  shows "i < length (tasks s)" "borrows_client (task_phase (tasks s ! i)) \<or> holds_connection (task_phase (tasks s ! i))"
  using assms by (cases; auto simp: label_task_def)+

lemma reader_step_tasks:
  assumes "sys_step api codec js tk s l s'" "label_task l = None" "\<forall>cl. l \<noteq> Start cl"
  shows "tasks s' = tasks s"
  using assms by cases (auto simp: label_task_def)

lemma program_inv_init: "program_init p \<Longrightarrow> program_inv p"
  by (auto simp: program_init_def program_inv_def session_init_def strong_count_def)

lemma program_inv_step:
  assumes "program_inv p" "program_step api codec js tk p l p'"
  shows "program_inv p'"
  using assms(2)
proof cases
  case (program_run l s')
  show ?thesis
  proof (cases "dropped p")
    case True
    then have over: "clients p = 0" "\<forall>t \<in> set (tasks (shared p)). \<not> borrows_client (task_phase t) \<and> \<not> holds_connection (task_phase t)"
      using assms(1) by (auto simp: program_inv_def no_holder)
    then have "label_task l = None" "\<forall>cl. l \<noteq> Start cl"
      using step_needs_task [OF program_run(3)] program_run(4) by (force simp: option.expand)+
    then have "tasks s' = tasks (shared p)" "\<not> aborted p" using reader_step_tasks program_run(3,5) by blast+
    then show ?thesis using True over program_run(2) by (auto simp: program_inv_def no_holder release_frees)
  next
    case False
    have "\<forall>t \<in> set (tasks s'). \<not> borrows_client (task_phase t)" if none: "clients p = 0"
    proof (intro ballI notI)
      fix t assume "t \<in> set (tasks s')" "borrows_client (task_phase t)"
      then obtain i where "i < length (tasks s')" "borrows_client (task_phase (tasks s' ! i))"
        by (auto simp: in_set_conv_nth)
      moreover have "\<forall>cl. l \<noteq> Start cl" using program_run(4) none by simp
      ultimately show False
        using step_borrows [OF program_run(3)] assms(1) none nth_mem unfolding program_inv_def by blast
    qed
    then show ?thesis using False assms(1) program_run(2) by (auto simp: program_inv_def no_holder release_frees)
  qed
qed (use assms(1) in \<open>auto simp: program_inv_def no_holder release_frees\<close>)

definition live_session :: "program \<Rightarrow> session option" where
  "live_session p = (if dropped p then None else Some (shared p))"

interpretation handles: simulation program_init "program_step api codec js tk" program_inv
    session_init "sys_step api codec js tk" live_session
  for api :: "('m, 'h, 'o) msg_api" and codec :: "('m, 'd) codec" and js tk
proof unfold_locales
  show "program_inv t" if "program_inv s" "program_step api codec js tk s l t" for s l t
    by (rule program_inv_step [OF that])
  show "session_init a" if "program_init s" "live_session s = Some a" for s a
    using that by (simp add: program_init_def live_session_def)
  show "\<exists>a. live_session s = Some a \<and> (b = a \<or> (\<exists>m. sys_step api codec js tk a m b))"
    if "program_inv s" "program_step api codec js tk s l t" "live_session t = Some b" for s l t b
    using that(2,3) by cases (auto simp: live_session_def release_not_dropped split: if_splits)
qed (rule program_inv_init)

section \<open>The connection outlives its users\<close>

lemma phase_over:
  "\<not> borrows_client ph \<Longrightarrow> \<not> holds_connection ph \<Longrightarrow> ph \<in> {Cancelled, Closed} \<union> range Returned"
  by (cases ph) auto

text \<open>
  C21. The connection lives exactly as long as somebody uses it. It is dropped, and its read task asked to stop, at
  the moment the last client, event stream and closing task are gone and not before; while a call, an event
  stream or a closing task is still there the read loop is not aborted, and the state is one the session reaches without
  any drop, so everything proved of the session holds for it; once it is dropped every call is over, the
  read task can stop wherever it waits, and with it the registry is freed: nothing is leaked and nobody is cut off.
\<close>

theorem connection_outlives_its_users:
  assumes "reach program_init (program_step api codec js tk) p" and "s = shared p"
  shows "(dropped p \<longleftrightarrow> clients p = 0 \<and> (\<forall>t \<in> set (tasks s). \<not> holds_connection (task_phase t))) \<and>
    ((\<exists>t \<in> set (tasks s). borrows_client (task_phase t) \<or> holds_connection (task_phase t)) \<longrightarrow>
       \<not> dropped p \<and> \<not> aborted p \<and> reach session_init (sys_step api codec js tk) s) \<and>
    (dropped p \<longrightarrow> (\<forall>t \<in> set (tasks s). task_phase t \<in> {Cancelled, Closed} \<union> range Returned)) \<and>
    (dropped p \<and> \<not> aborted p \<and> reader s = Reading \<longrightarrow>
       (\<exists>p'. program_step api codec js tk p AbortReader p' \<and> conn_registry (conn (shared p')) = [])) \<and>
    (dropped p \<and> (aborted p \<or> reader s = TaskDone) \<longrightarrow> conn_registry (conn s) = [])"
proof -
  have inv: "program_inv p" by (rule handles.inv_reach [OF assms(1)])
  then have gone: "dropped p \<longleftrightarrow> clients p = 0 \<and> (\<forall>t \<in> set (tasks s). \<not> holds_connection (task_phase t))"
    and unused: "dropped p \<Longrightarrow> t \<in> set (tasks s) \<Longrightarrow> \<not> borrows_client (task_phase t) \<and> \<not> holds_connection (task_phase t)" for t
    using assms(2) by (auto simp: program_inv_def no_holder)
  have "reach session_init (sys_step api codec js tk) s" if "\<not> dropped p"
    using handles.view_reach [OF assms(1)] that assms(2) by (simp add: live_session_def)
  moreover have "\<exists>p'. program_step api codec js tk p AbortReader p' \<and> conn_registry (conn (shared p')) = []"
    if "dropped p" "\<not> aborted p" "reader s = Reading"
    using program_abort [OF that(1,2)] that assms(2) release_frees [of "p\<lparr>aborted := True\<rparr>"]
    by (intro exI [of _ "release (p\<lparr>aborted := True\<rparr>)"]) simp
  moreover have "aborted p \<longrightarrow> dropped p"
    "dropped p \<and> (aborted p \<or> reader s = TaskDone) \<longrightarrow> conn_registry (conn s) = []"
    using inv assms(2) unfolding program_inv_def by blast+
  ultimately show ?thesis using gone unused phase_over by blast
qed

text \<open>A program that drops its only client.\<close>

definition demo_handles :: program where
  "demo_handles = \<lparr>shared = demo_start, clients = 1, dropped = False, aborted = False\<rparr>"

theorem connection_outlives_its_users_witness:
  "\<exists>p. program_step pair_api sink_codec demo_json demo_tokio (demo_handles\<lparr>clients := 0, dropped := True\<rparr>) AbortReader p \<and>
     conn_registry (conn (shared p)) = []"
proof -
  have "program_step pair_api sink_codec demo_json demo_tokio demo_handles DropClient
      (release (demo_handles\<lparr>clients := 0\<rparr>))"
    by (rule program_drop) (simp_all add: demo_handles_def demo_start_def)
  moreover have "release (demo_handles\<lparr>clients := 0\<rparr>) = demo_handles\<lparr>clients := 0, dropped := True\<rparr>"
    by (simp add: release_def demo_handles_def demo_start_def strong_count_def)
  moreover have "program_init demo_handles"
    using demo_start_init by (simp add: program_init_def demo_handles_def)
  ultimately have "reach program_init (program_step pair_api sink_codec demo_json demo_tokio)
      (demo_handles\<lparr>clients := 0, dropped := True\<rparr>)"
    by (metis reach_init reach_step)
  from connection_outlives_its_users [OF this refl] show ?thesis
    by (simp add: demo_handles_def demo_start_def)
qed

end
