(* ===== verification/Lifecycle.thy ===== *)
theory Lifecycle
  imports Json
begin

text \<open>
  \<open>src/model/lifecycle.rs\<close>: the shapes of the lifecycle and update-management operations. A struct is a
  record; its \<open>Serialize\<close> is \<open>ser_...\<close>, its \<open>Deserialize\<close> is \<open>de_...\<close>, with the member names and
  attributes of the source. A struct with no fields is the unit.
\<close>

section \<open>The lifecycle state\<close>

datatype lifecycle_state =
    Running | Errored | New | Finished | Installed | Broken | Starting | Stopping

instantiation lifecycle_state :: enum
begin

definition enum_lifecycle_state :: "lifecycle_state list" where
  "enum_class.enum = [Running, Errored, New, Finished, Installed, Broken, Starting, Stopping]"

definition enum_all_lifecycle_state :: "(lifecycle_state \<Rightarrow> bool) \<Rightarrow> bool" where
  "enum_class.enum_all P \<longleftrightarrow> list_all P (enum_class.enum :: lifecycle_state list)"

definition enum_ex_lifecycle_state :: "(lifecycle_state \<Rightarrow> bool) \<Rightarrow> bool" where
  "enum_class.enum_ex P \<longleftrightarrow> list_ex P (enum_class.enum :: lifecycle_state list)"

instance
proof
  have all: "t \<in> set enum_class.enum" for t :: lifecycle_state by (cases t) (simp_all add: enum_lifecycle_state_def)
  then show "UNIV = set (enum_class.enum :: lifecycle_state list)" by blast
  show "distinct (enum_class.enum :: lifecycle_state list)" by (simp add: enum_lifecycle_state_def)
  fix P :: "lifecycle_state \<Rightarrow> bool"
  show "enum_class.enum_all P \<longleftrightarrow> Ball UNIV P" "enum_class.enum_ex P \<longleftrightarrow> Bex UNIV P"
    using all by (auto simp: enum_all_lifecycle_state_def enum_ex_lifecycle_state_def list_all_iff list_ex_iff)
qed

end

fun lifecycle_state_name :: "lifecycle_state \<Rightarrow> string" where
  "lifecycle_state_name Running = ''RUNNING''"
| "lifecycle_state_name Errored = ''ERRORED''"
| "lifecycle_state_name New = ''NEW''"
| "lifecycle_state_name Finished = ''FINISHED''"
| "lifecycle_state_name Installed = ''INSTALLED''"
| "lifecycle_state_name Broken = ''BROKEN''"
| "lifecycle_state_name Starting = ''STARTING''"
| "lifecycle_state_name Stopping = ''STOPPING''"

definition ser_lifecycle_state :: "lifecycle_state \<Rightarrow> json" where
  "ser_lifecycle_state st = JStr (lifecycle_state_name st)"

definition lifecycle_state_of_name :: "json_api \<Rightarrow> string \<Rightarrow> json_error + lifecycle_state" where
  "lifecycle_state_of_name js name =
     (if name = ''RUNNING'' then Inr Running
      else if name = ''ERRORED'' then Inr Errored
      else if name = ''NEW'' then Inr New
      else if name = ''FINISHED'' then Inr Finished
      else if name = ''INSTALLED'' then Inr Installed
      else if name = ''BROKEN'' then Inr Broken
      else if name = ''STARTING'' then Inr Starting
      else if name = ''STOPPING'' then Inr Stopping
      else Inl (json_data_error js))"

text \<open>A derived enum reader also takes a unit variant in its map form, \<open>{"RUNNING": null}\<close>.\<close>

definition de_lifecycle_state :: "json_api \<Rightarrow> json \<Rightarrow> json_error + lifecycle_state" where
  "de_lifecycle_state js doc = (case doc of
      JStr name \<Rightarrow> lifecycle_state_of_name js name
    | JObj [(name, JNull)] \<Rightarrow> lifecycle_state_of_name js name
    | _ \<Rightarrow> Inl (json_data_error js))"

lemma lifecycle_state_name_inject [simp]: "lifecycle_state_name a = lifecycle_state_name b \<longleftrightarrow> a = b"
  by (rule inj_eq [OF inj_enumI]) code_simp

lemma lifecycle_state_of_name_iff:
  "lifecycle_state_of_name js name = Inr st \<longleftrightarrow> name = lifecycle_state_name st"
  by (cases st) (auto simp: lifecycle_state_of_name_def)

section \<open>Requests and responses\<close>

record update_state_request =
  usr_state :: lifecycle_state

definition ser_update_state_request :: "update_state_request \<Rightarrow> json" where
  "ser_update_state_request r = JObj (ser_member ''state'' (ser_lifecycle_state (usr_state r)))"

definition de_update_state_response :: "json_api \<Rightarrow> json \<Rightarrow> json_error + unit" where
  "de_update_state_response js doc = and_then (de_struct js [] doc) (\<lambda>_. Inr ())"

definition ser_subscribe_to_component_updates_request :: "unit \<Rightarrow> json" where
  "ser_subscribe_to_component_updates_request r = JObj []"

definition de_subscribe_to_component_updates_response :: "json_api \<Rightarrow> json \<Rightarrow> json_error + unit" where
  "de_subscribe_to_component_updates_response js doc = and_then (de_struct js [] doc) (\<lambda>_. Inr ())"

record defer_component_update_request =
  dcu_deployment_id :: string
  dcu_message :: "string option"
  dcu_recheck_after_ms :: "i64 option"

definition ser_defer_component_update_request :: "defer_component_update_request \<Rightarrow> json" where
  "ser_defer_component_update_request r = JObj (
     ser_member ''deploymentId'' (JStr (dcu_deployment_id r)) @
     ser_opt_member ''message'' JStr (dcu_message r) @
     ser_opt_member ''recheckAfterMs'' ser_i64 (dcu_recheck_after_ms r))"

definition de_defer_component_update_response :: "json_api \<Rightarrow> json \<Rightarrow> json_error + unit" where
  "de_defer_component_update_response js doc = and_then (de_struct js [] doc) (\<lambda>_. Inr ())"

record pause_component_request =
  pcr_component_name :: string

definition ser_pause_component_request :: "pause_component_request \<Rightarrow> json" where
  "ser_pause_component_request r = JObj (ser_member ''componentName'' (JStr (pcr_component_name r)))"

definition de_pause_component_response :: "json_api \<Rightarrow> json \<Rightarrow> json_error + unit" where
  "de_pause_component_response js doc = and_then (de_struct js [] doc) (\<lambda>_. Inr ())"

record resume_component_request =
  rcr_component_name :: string

definition ser_resume_component_request :: "resume_component_request \<Rightarrow> json" where
  "ser_resume_component_request r = JObj (ser_member ''componentName'' (JStr (rcr_component_name r)))"

definition de_resume_component_response :: "json_api \<Rightarrow> json \<Rightarrow> json_error + unit" where
  "de_resume_component_response js doc = and_then (de_struct js [] doc) (\<lambda>_. Inr ())"

record restart_component_request =
  rsr_component_name :: string

definition ser_restart_component_request :: "restart_component_request \<Rightarrow> json" where
  "ser_restart_component_request r = JObj (ser_member ''componentName'' (JStr (rsr_component_name r)))"

record restart_component_response =
  rsp_restart_status :: "string option"
  rsp_message :: "string option"

definition de_restart_component_response :: "json_api \<Rightarrow> json \<Rightarrow> json_error + restart_component_response" where
  "de_restart_component_response js doc =
     and_then (de_struct js [''restartStatus'', ''message''] doc) (\<lambda>fs.
     and_then (de_default_field None (de_option (de_string js)) ''restartStatus'' fs) (\<lambda>status.
     and_then (de_default_field None (de_option (de_string js)) ''message'' fs) (\<lambda>msg.
     Inr \<lparr>rsp_restart_status = status, rsp_message = msg\<rparr>)))"

section \<open>Events\<close>

record pre_component_update_event =
  pre_deployment_id :: string
  pre_is_ggc_restarting :: bool

definition de_pre_component_update_event :: "json_api \<Rightarrow> json \<Rightarrow> json_error + pre_component_update_event" where
  "de_pre_component_update_event js doc =
     and_then (de_struct js [''deploymentId'', ''isGgcRestarting''] doc) (\<lambda>fs.
     and_then (de_field js (de_string js) ''deploymentId'' fs) (\<lambda>deployment.
     and_then (de_default_field False (de_bool js) ''isGgcRestarting'' fs) (\<lambda>restarting.
     Inr \<lparr>pre_deployment_id = deployment, pre_is_ggc_restarting = restarting\<rparr>)))"

record post_component_update_event =
  post_deployment_id :: string

definition de_post_component_update_event :: "json_api \<Rightarrow> json \<Rightarrow> json_error + post_component_update_event" where
  "de_post_component_update_event js doc =
     and_then (de_struct js [''deploymentId''] doc) (\<lambda>fs.
     and_then (de_field js (de_string js) ''deploymentId'' fs) (\<lambda>deployment.
     Inr \<lparr>post_deployment_id = deployment\<rparr>))"

record component_update_policy_events =
  pre_update_event :: "pre_component_update_event option"
  post_update_event :: "post_component_update_event option"

definition de_component_update_policy_events ::
  "json_api \<Rightarrow> json \<Rightarrow> json_error + component_update_policy_events" where
  "de_component_update_policy_events js doc =
     and_then (de_struct js [''preUpdateEvent'', ''postUpdateEvent''] doc) (\<lambda>fs.
     and_then (de_default_field None (de_option (de_pre_component_update_event js)) ''preUpdateEvent'' fs) (\<lambda>pre.
     and_then (de_default_field None (de_option (de_post_component_update_event js)) ''postUpdateEvent'' fs) (\<lambda>post.
     Inr \<lparr>pre_update_event = pre, post_update_event = post\<rparr>)))"

lemma deferral_document:
  "ser_defer_component_update_request
      \<lparr>dcu_deployment_id = d, dcu_message = None, dcu_recheck_after_ms = Some 30000\<rparr> =
    JObj [(''deploymentId'', JStr d), (''recheckAfterMs'', JNum ''30000'')]"
proof -
  have "show_int (sint (30000 :: i64)) = ''30000''"
    by (simp add: show_int_def show_nat.simps digit_char_def) code_simp
  then show ?thesis
    by (simp add: ser_defer_component_update_request_def ser_member_def ser_opt_member_def ser_i64_def
        del: sint_numeral)
qed

end
