(* ===== verification/Configuration.thy ===== *)
theory Configuration
  imports Json
begin

text \<open>\<open>src/model/config.rs\<close>: the shapes of the configuration operations.\<close>

record get_configuration_request =
  gcr_component_name :: "string option"
  gcr_key_path :: "string list"

definition ser_get_configuration_request :: "get_configuration_request \<Rightarrow> json" where
  "ser_get_configuration_request r = JObj (
     ser_opt_member ''componentName'' JStr (gcr_component_name r) @
     ser_member ''keyPath'' (ser_strings (gcr_key_path r)))"

record get_configuration_response =
  gcs_component_name :: "string option"
  gcs_value :: "json option"

definition de_get_configuration_response :: "json_api \<Rightarrow> json \<Rightarrow> json_error + get_configuration_response" where
  "de_get_configuration_response js doc =
     and_then (de_struct js [''componentName'', ''value''] doc) (\<lambda>fs.
     and_then (de_default_field None (de_option (de_string js)) ''componentName'' fs) (\<lambda>name.
     and_then (de_default_field None (de_option (de_value js)) ''value'' fs) (\<lambda>val.
     Inr \<lparr>gcs_component_name = name, gcs_value = val\<rparr>)))"

record update_configuration_request =
  ucr_key_path :: "string list option"
  ucr_timestamp :: "64 word"
  ucr_value_to_merge :: json

definition ser_update_configuration_request :: "json_api \<Rightarrow> update_configuration_request \<Rightarrow> json" where
  "ser_update_configuration_request js r = JObj (
     ser_opt_member ''keyPath'' ser_strings (ucr_key_path r) @
     ser_member ''timestamp'' (ser_f64 js (ucr_timestamp r)) @
     ser_member ''valueToMerge'' (ucr_value_to_merge r))"

definition de_update_configuration_response :: "json_api \<Rightarrow> json \<Rightarrow> json_error + unit" where
  "de_update_configuration_response js doc = and_then (de_struct js [] doc) (\<lambda>_. Inr ())"

record subscribe_to_configuration_update_request =
  scu_component_name :: "string option"
  scu_key_path :: "string list"

definition ser_subscribe_to_configuration_update_request ::
  "subscribe_to_configuration_update_request \<Rightarrow> json" where
  "ser_subscribe_to_configuration_update_request r = JObj (
     ser_opt_member ''componentName'' JStr (scu_component_name r) @
     ser_member ''keyPath'' (ser_strings (scu_key_path r)))"

definition de_subscribe_to_configuration_update_response :: "json_api \<Rightarrow> json \<Rightarrow> json_error + unit" where
  "de_subscribe_to_configuration_update_response js doc = and_then (de_struct js [] doc) (\<lambda>_. Inr ())"

record configuration_update_event =
  cue_component_name :: string
  cue_key_path :: "string list"

definition de_configuration_update_event :: "json_api \<Rightarrow> json \<Rightarrow> json_error + configuration_update_event" where
  "de_configuration_update_event js doc =
     and_then (de_struct js [''componentName'', ''keyPath''] doc) (\<lambda>fs.
     and_then (de_field js (de_string js) ''componentName'' fs) (\<lambda>name.
     and_then (de_field js (de_strings js) ''keyPath'' fs) (\<lambda>path.
     Inr \<lparr>cue_component_name = name, cue_key_path = path\<rparr>)))"

record configuration_update_events =
  configuration_update_event :: "configuration_update_event option"

definition de_configuration_update_events :: "json_api \<Rightarrow> json \<Rightarrow> json_error + configuration_update_events" where
  "de_configuration_update_events js doc =
     and_then (de_struct js [''configurationUpdateEvent''] doc) (\<lambda>fs.
     and_then (de_default_field None (de_option (de_configuration_update_event js))
       ''configurationUpdateEvent'' fs) (\<lambda>ev.
     Inr \<lparr>configuration_update_event = ev\<rparr>))"

end
