(* ===== verification/PubSub.thy ===== *)
theory PubSub
  imports Json
begin

text \<open>
  \<open>src/model/pubsub.rs\<close>: the shapes of local publish/subscribe. Binary messages travel as base64
  strings.
\<close>

record message_context =
  mc_topic :: string

definition de_message_context :: "json_api \<Rightarrow> json \<Rightarrow> json_error + message_context" where
  "de_message_context js doc =
     and_then (de_struct js [''topic''] doc) (\<lambda>fs.
     and_then (de_field js (de_string js) ''topic'' fs) (\<lambda>topic.
     Inr \<lparr>mc_topic = topic\<rparr>))"

record binary_message =
  bm_message :: bytes
  bm_context :: "message_context option"

record json_message =
  jm_message :: "json option"
  jm_context :: "message_context option"

definition de_json_message :: "json_api \<Rightarrow> json \<Rightarrow> json_error + json_message" where
  "de_json_message js doc =
     and_then (de_struct js [''message'', ''context''] doc) (\<lambda>fs.
     and_then (de_default_field None (de_option (de_value js)) ''message'' fs) (\<lambda>msg.
     and_then (de_default_field None (de_option (de_message_context js)) ''context'' fs) (\<lambda>ctx.
     Inr \<lparr>jm_message = msg, jm_context = ctx\<rparr>)))"

record json_message_out =
  jmo_message :: json

definition ser_json_message_out :: "json_message_out \<Rightarrow> json" where
  "ser_json_message_out m = JObj (ser_member ''message'' (jmo_message m))"

record binary_message_out =
  bmo_message :: bytes

definition ser_binary_message_out :: "base64_api \<Rightarrow> binary_message_out \<Rightarrow> json" where
  "ser_binary_message_out b64 m =
     (let encoded = b64_encode b64 (bmo_message m) in JObj [(''message'', JStr encoded)])"

record publish_message =
  pm_json_message :: "json_message_out option"
  pm_binary_message :: "binary_message_out option"

definition ser_publish_message :: "base64_api \<Rightarrow> publish_message \<Rightarrow> json" where
  "ser_publish_message b64 m = JObj (
     ser_opt_member ''jsonMessage'' ser_json_message_out (pm_json_message m) @
     ser_opt_member ''binaryMessage'' (ser_binary_message_out b64) (pm_binary_message m))"

record publish_to_topic_request =
  ptr_topic :: string
  ptr_publish_message :: publish_message

definition ser_publish_to_topic_request :: "base64_api \<Rightarrow> publish_to_topic_request \<Rightarrow> json" where
  "ser_publish_to_topic_request b64 r = JObj (
     ser_member ''topic'' (JStr (ptr_topic r)) @
     ser_member ''publishMessage'' (ser_publish_message b64 (ptr_publish_message r)))"

definition de_publish_to_topic_response :: "json_api \<Rightarrow> json \<Rightarrow> json_error + unit" where
  "de_publish_to_topic_response js doc = and_then (de_struct js [] doc) (\<lambda>_. Inr ())"

record subscribe_to_topic_request =
  str_topic :: string
  str_receive_mode :: "string option"

definition ser_subscribe_to_topic_request :: "subscribe_to_topic_request \<Rightarrow> json" where
  "ser_subscribe_to_topic_request r = JObj (
     ser_member ''topic'' (JStr (str_topic r)) @
     ser_opt_member ''receiveMode'' JStr (str_receive_mode r))"

record subscribe_to_topic_response =
  sts_topic_name :: "string option"

definition de_subscribe_to_topic_response :: "json_api \<Rightarrow> json \<Rightarrow> json_error + subscribe_to_topic_response" where
  "de_subscribe_to_topic_response js doc =
     and_then (de_struct js [''topicName''] doc) (\<lambda>fs.
     and_then (de_default_field None (de_option (de_string js)) ''topicName'' fs) (\<lambda>name.
     Inr \<lparr>sts_topic_name = name\<rparr>))"

record binary_message_in =
  bmi_message :: bytes
  bmi_context :: "message_context option"

text \<open>The reader goes through the private struct \<open>Raw\<close>, then decodes its base64 text.\<close>

record raw_binary_message =
  raw_message :: "string option"
  raw_context :: "message_context option"

definition de_raw_binary_message :: "json_api \<Rightarrow> json \<Rightarrow> json_error + raw_binary_message" where
  "de_raw_binary_message js doc =
     and_then (de_struct js [''message'', ''context''] doc) (\<lambda>fs.
     and_then (de_default_field None (de_option (de_string js)) ''message'' fs) (\<lambda>msg.
     and_then (de_default_field None (de_option (de_message_context js)) ''context'' fs) (\<lambda>ctx.
     Inr \<lparr>raw_message = msg, raw_context = ctx\<rparr>)))"

definition de_binary_message_in :: "json_api \<Rightarrow> base64_api \<Rightarrow> json \<Rightarrow> json_error + binary_message_in" where
  "de_binary_message_in js b64 doc =
     and_then (de_raw_binary_message js doc) (\<lambda>raw.
     and_then (case raw_message raw of
         Some text \<Rightarrow> map_err (\<lambda>_. json_data_error js) (b64_decode b64 (bytes_of_str text))
       | None \<Rightarrow> Inr []) (\<lambda>message.
     Inr \<lparr>bmi_message = message, bmi_context = raw_context raw\<rparr>))"

record subscription_response_message =
  srm_json_message :: "json_message option"
  srm_binary_message :: "binary_message_in option"

definition de_subscription_response_message ::
  "json_api \<Rightarrow> base64_api \<Rightarrow> json \<Rightarrow> json_error + subscription_response_message" where
  "de_subscription_response_message js b64 doc =
     and_then (de_struct js [''jsonMessage'', ''binaryMessage''] doc) (\<lambda>fs.
     and_then (de_default_field None (de_option (de_json_message js)) ''jsonMessage'' fs) (\<lambda>jm.
     and_then (de_default_field None (de_option (de_binary_message_in js b64)) ''binaryMessage'' fs) (\<lambda>bm.
     Inr \<lparr>srm_json_message = jm, srm_binary_message = bm\<rparr>)))"

end
