(* ===== verification/IotCore.thy ===== *)
theory IotCore
  imports Json
begin

text \<open>\<open>src/model/iotcore.rs\<close>: the shapes of publish/subscribe through AWS IoT Core.\<close>

datatype qos = AtMostOnce | AtLeastOnce

definition ser_qos :: "qos \<Rightarrow> json" where
  "ser_qos q = JStr (case q of AtMostOnce \<Rightarrow> ''0'' | AtLeastOnce \<Rightarrow> ''1'')"

definition de_qos :: "json_api \<Rightarrow> json \<Rightarrow> json_error + qos" where
  "de_qos js doc = and_then (de_string js doc) (\<lambda>s.
     if s = ''0'' then Inr AtMostOnce
     else if s = ''1'' then Inr AtLeastOnce
     else Inl (json_data_error js))"

datatype blob = Blob bytes

definition ser_blob :: "base64_api \<Rightarrow> blob \<Rightarrow> json" where
  "ser_blob b64 b = (case b of Blob v \<Rightarrow> JStr (b64_encode b64 v))"

definition de_blob :: "json_api \<Rightarrow> base64_api \<Rightarrow> json \<Rightarrow> json_error + blob" where
  "de_blob js b64 doc =
     and_then (de_string js doc) (\<lambda>s.
     and_then (map_err (\<lambda>_. json_data_error js) (b64_decode b64 (bytes_of_str s))) (\<lambda>v.
     Inr (Blob v)))"

record publish_to_iot_core_request =
  pic_topic_name :: string
  pic_qos :: qos
  pic_payload :: "blob option"

definition ser_publish_to_iot_core_request :: "base64_api \<Rightarrow> publish_to_iot_core_request \<Rightarrow> json" where
  "ser_publish_to_iot_core_request b64 r = JObj (
     ser_member ''topicName'' (JStr (pic_topic_name r)) @
     ser_member ''qos'' (ser_qos (pic_qos r)) @
     ser_opt_member ''payload'' (ser_blob b64) (pic_payload r))"

definition de_publish_to_iot_core_response :: "json_api \<Rightarrow> json \<Rightarrow> json_error + unit" where
  "de_publish_to_iot_core_response js doc = and_then (de_struct js [] doc) (\<lambda>_. Inr ())"

record subscribe_to_iot_core_request =
  sic_topic_name :: string
  sic_qos :: qos

definition ser_subscribe_to_iot_core_request :: "subscribe_to_iot_core_request \<Rightarrow> json" where
  "ser_subscribe_to_iot_core_request r = JObj (
     ser_member ''topicName'' (JStr (sic_topic_name r)) @
     ser_member ''qos'' (ser_qos (sic_qos r)))"

definition de_subscribe_to_iot_core_response :: "json_api \<Rightarrow> json \<Rightarrow> json_error + unit" where
  "de_subscribe_to_iot_core_response js doc = and_then (de_struct js [] doc) (\<lambda>_. Inr ())"

record mqtt_message =
  mqtt_topic_name :: string
  mqtt_payload :: "blob option"

definition de_mqtt_message :: "json_api \<Rightarrow> base64_api \<Rightarrow> json \<Rightarrow> json_error + mqtt_message" where
  "de_mqtt_message js b64 doc =
     and_then (de_struct js [''topicName'', ''payload''] doc) (\<lambda>fs.
     and_then (de_field js (de_string js) ''topicName'' fs) (\<lambda>topic.
     and_then (de_default_field None (de_option (de_blob js b64)) ''payload'' fs) (\<lambda>p.
     Inr \<lparr>mqtt_topic_name = topic, mqtt_payload = p\<rparr>)))"

record iot_core_message =
  icm_message :: "mqtt_message option"

definition de_iot_core_message :: "json_api \<Rightarrow> base64_api \<Rightarrow> json \<Rightarrow> json_error + iot_core_message" where
  "de_iot_core_message js b64 doc =
     and_then (de_struct js [''message''] doc) (\<lambda>fs.
     and_then (de_default_field None (de_option (de_mqtt_message js b64)) ''message'' fs) (\<lambda>m.
     Inr \<lparr>icm_message = m\<rparr>))"

end
