(* ===== verification/Schemas.thy ===== *)
theory Schemas
  imports Lifecycle Configuration PubSub IotCore
begin

text \<open>
  The types of the documents on the wire, as data: a schema lists the members of a shape with their
  presence and their own schemas, and \<open>conforms\<close> says when a document has it. The readers of
  \<open>src/model\<close>, which the attributes of the source spell out, accept exactly the documents of their schema,
  and what the client writes has the schema of its request.
\<close>

section \<open>Schemas\<close>

text \<open>
  \<open>Required\<close>: a field without attributes. \<open>Defaulted\<close>: one with \<open>default\<close>. \<open>Nullable\<close>: an \<open>Option\<close> with
  \<open>default\<close>, which may also be \<open>null\<close>.
\<close>

datatype presence = Required | Defaulted | Nullable

datatype schema =
    SAny | SString | SBool | SNumber | SBase64 | SOneOf "string list" | SList schema
  | SStruct "(string \<times> presence \<times> schema) list"

text \<open>The members a struct of these names finds in a document: by name in an object, by position in an array.\<close>

definition struct_view :: "string list \<Rightarrow> json \<Rightarrow> (string \<Rightarrow> json option) option" where
  "struct_view names doc = (case doc of
      JObj members \<Rightarrow>
        (if distinct (map fst (known_members names members)) then Some (map_of members) else None)
    | JArr docs \<Rightarrow> (if length docs \<le> length names then Some (map_of (zip names docs)) else None)
    | _ \<Rightarrow> None)"

fun conforms :: "base64_api \<Rightarrow> schema \<Rightarrow> json \<Rightarrow> bool"
  and fields_conform :: "base64_api \<Rightarrow> (string \<times> presence \<times> schema) list \<Rightarrow> (string \<Rightarrow> json option) \<Rightarrow> bool" where
  "conforms b64 SAny doc = True"
| "conforms b64 SString doc = (case doc of JStr _ \<Rightarrow> True | _ \<Rightarrow> False)"
| "conforms b64 SBool doc = (case doc of JBool _ \<Rightarrow> True | _ \<Rightarrow> False)"
| "conforms b64 SNumber doc = (case doc of JNum _ \<Rightarrow> True | _ \<Rightarrow> False)"
| "conforms b64 SBase64 doc = (case doc of
     JStr s \<Rightarrow> (case b64_decode b64 (bytes_of_str s) of Inl _ \<Rightarrow> False | Inr _ \<Rightarrow> True) | _ \<Rightarrow> False)"
| "conforms b64 (SOneOf names) doc = (case doc of JStr s \<Rightarrow> s \<in> set names | _ \<Rightarrow> False)"
| "conforms b64 (SList sch) doc = (case doc of JArr docs \<Rightarrow> (\<forall>d \<in> set docs. conforms b64 sch d) | _ \<Rightarrow> False)"
| "conforms b64 (SStruct fs) doc = (case struct_view (map fst fs) doc of
     None \<Rightarrow> False | Some view \<Rightarrow> fields_conform b64 fs view)"
| "fields_conform b64 [] view = True"
| "fields_conform b64 ((name, p, sch) # fs) view =
     ((case view name of
         None \<Rightarrow> p \<noteq> Required
       | Some doc \<Rightarrow> (p = Nullable \<and> doc = JNull) \<or> conforms b64 sch doc) \<and> fields_conform b64 fs view)"

section \<open>The readers\<close>

definition readable :: "(json \<Rightarrow> json_error + 'a) \<Rightarrow> json \<Rightarrow> bool" where
  "readable de doc \<longleftrightarrow> (\<exists>v. de doc = Inr v)"

text \<open>Each combinator readable what its part of a schema says.\<close>

lemma struct_view_eq:
  "struct_view names doc = (case de_struct js names doc of Inl _ \<Rightarrow> None | Inr fs \<Rightarrow> Some (field fs))"
  by (simp add: struct_view_def de_struct_def distinct_known_members split: json.split)

lemma struct_accepted:
  assumes "\<And>fs. (\<exists>v. k fs = Inr v) \<longleftrightarrow> fields_conform b64 sch (field fs)"
  shows "readable (\<lambda>doc. and_then (de_struct js (map fst sch) doc) k) = conforms b64 (SStruct sch)"
  using assms by (auto simp: fun_eq_iff readable_def and_then_Inr_iff struct_view_eq [of _ _ js] split: sum.split)

lemma option_accepted: "(\<exists>v. de_option de doc = Inr v) \<longleftrightarrow> doc = JNull \<or> (\<exists>v. de doc = Inr v)"
  by (cases doc; cases "de doc") (simp_all add: de_option_def)

lemma field_accepted:
  assumes "readable de = conforms b64 sch"
  shows "(\<exists>v. de_field js de name fs = Inr v) \<longleftrightarrow> fields_conform b64 [(name, Required, sch)] (field fs)"
    and "(\<exists>v. de_default_field d de name fs = Inr v) \<longleftrightarrow> fields_conform b64 [(name, Defaulted, sch)] (field fs)"
    and "(\<exists>v. de_default_field None (de_option de) name fs = Inr v) \<longleftrightarrow>
      fields_conform b64 [(name, Nullable, sch)] (field fs)"
  using assms [THEN fun_cong]
  by (auto simp: de_field_def de_default_field_def option_accepted readable_def split: option.splits)

lemma fields_conform_Cons:
  "fields_conform b64 (f # g # fs) view \<longleftrightarrow> fields_conform b64 [f] view \<and> fields_conform b64 (g # fs) view"
  by (cases f) simp

lemma accepted_primitives:
  "readable (de_string js) = conforms b64 SString" "readable (de_bool js) = conforms b64 SBool"
  "readable (de_value js) = conforms b64 SAny" "readable (de_blob js b64) = conforms b64 SBase64"
  by (auto simp: fun_eq_iff readable_def de_string_def de_bool_def de_value_def de_blob_def map_err_def
      split: json.splits sum.splits)

lemma de_list_accepted: "readable de = p \<Longrightarrow> (\<exists>v. de_list de docs = Inr v) \<longleftrightarrow> (\<forall>d \<in> set docs. p d)"
  by (induction docs) (auto simp: readable_def split: sum.splits)

lemma de_strings_accepted: "readable (de_strings js) = conforms b64 (SList SString)"
  using de_list_accepted [OF accepted_primitives(1) [of js b64]]
  by (auto simp: fun_eq_iff readable_def de_strings_def split: json.splits)

section \<open>The shapes\<close>

definition restart_component_response_schema :: schema where
  "restart_component_response_schema = SStruct
     [(''restartStatus'', Nullable, SString), (''message'', Nullable, SString)]"

definition pre_update_schema :: schema where
  "pre_update_schema = SStruct [(''deploymentId'', Required, SString), (''isGgcRestarting'', Defaulted, SBool)]"

definition post_update_schema :: schema where
  "post_update_schema = SStruct [(''deploymentId'', Required, SString)]"

definition component_update_policy_events_schema :: schema where
  "component_update_policy_events_schema = SStruct
     [(''preUpdateEvent'', Nullable, pre_update_schema), (''postUpdateEvent'', Nullable, post_update_schema)]"

definition get_configuration_response_schema :: schema where
  "get_configuration_response_schema = SStruct [(''componentName'', Nullable, SString), (''value'', Nullable, SAny)]"

definition configuration_update_schema :: schema where
  "configuration_update_schema = SStruct
     [(''componentName'', Required, SString), (''keyPath'', Required, SList SString)]"

definition configuration_update_events_schema :: schema where
  "configuration_update_events_schema = SStruct [(''configurationUpdateEvent'', Nullable, configuration_update_schema)]"

definition message_context_schema :: schema where
  "message_context_schema = SStruct [(''topic'', Required, SString)]"

definition subscription_response_message_schema :: schema where
  "subscription_response_message_schema = SStruct
     [(''jsonMessage'', Nullable, SStruct
         [(''message'', Nullable, SAny), (''context'', Nullable, message_context_schema)]),
      (''binaryMessage'', Nullable, SStruct
         [(''message'', Nullable, SBase64), (''context'', Nullable, message_context_schema)])]"

definition subscribe_to_topic_response_schema :: schema where
  "subscribe_to_topic_response_schema = SStruct [(''topicName'', Nullable, SString)]"

definition iot_core_message_schema :: schema where
  "iot_core_message_schema = SStruct [(''message'', Nullable, SStruct
     [(''topicName'', Required, SString), (''payload'', Nullable, SBase64)])]"

lemmas schema_defs =
  restart_component_response_schema_def pre_update_schema_def post_update_schema_def
  component_update_policy_events_schema_def get_configuration_response_schema_def
  configuration_update_schema_def configuration_update_events_schema_def message_context_schema_def
  subscription_response_message_schema_def subscribe_to_topic_response_schema_def iot_core_message_schema_def

text \<open>A reader that is a struct of one or two fields.\<close>

lemma struct1_accepted:
  assumes "\<And>fs. (\<exists>v. a fs = Inr v) \<longleftrightarrow> fields_conform b64 [(n, p, sch)] (field fs)"
  shows "readable (\<lambda>doc. and_then (de_struct js [n] doc) (\<lambda>fs. and_then (a fs) (\<lambda>x. Inr (mk x)))) =
    conforms b64 (SStruct [(n, p, sch)])"
  using struct_accepted [of "\<lambda>fs. and_then (a fs) (\<lambda>x. Inr (mk x))" b64 "[(n, p, sch)]" js] assms
  by (simp add: and_then_Inr_iff)

lemma struct2_accepted:
  assumes "\<And>fs. (\<exists>v. a fs = Inr v) \<longleftrightarrow> fields_conform b64 [(n, p, sch)] (field fs)"
    and "\<And>fs. (\<exists>v. b fs = Inr v) \<longleftrightarrow> fields_conform b64 [(m, q, sch')] (field fs)"
  shows "readable (\<lambda>doc. and_then (de_struct js [n, m] doc) (\<lambda>fs.
      and_then (a fs) (\<lambda>x. and_then (b fs) (\<lambda>y. Inr (mk x y))))) =
    conforms b64 (SStruct [(n, p, sch), (m, q, sch')])"
proof -
  have "(\<exists>v. and_then (a fs) (\<lambda>x. and_then (b fs) (\<lambda>y. Inr (mk x y))) = Inr v) \<longleftrightarrow>
      (\<exists>v. a fs = Inr v) \<and> (\<exists>v. b fs = Inr v)" for fs
    by (auto simp: and_then_Inr_iff)
  then have "(\<exists>v. and_then (a fs) (\<lambda>x. and_then (b fs) (\<lambda>y. Inr (mk x y))) = Inr v) \<longleftrightarrow>
      fields_conform b64 [(n, p, sch), (m, q, sch')] (field fs)" for fs
    using assms by simp
  from struct_accepted [OF this, of js] show ?thesis by simp
qed

lemma events_accepted:
  "readable (de_restart_component_response js) = conforms b64 restart_component_response_schema"
  "readable (de_pre_component_update_event js) = conforms b64 pre_update_schema"
  "readable (de_post_component_update_event js) = conforms b64 post_update_schema"
  "readable (de_get_configuration_response js) = conforms b64 get_configuration_response_schema"
  "readable (de_configuration_update_event js) = conforms b64 configuration_update_schema"
  "readable (de_message_context js) = conforms b64 message_context_schema"
  "readable (de_json_message js) = conforms b64
     (SStruct [(''message'', Nullable, SAny), (''context'', Nullable, message_context_schema)])"
  "readable (de_subscribe_to_topic_response js) = conforms b64 subscribe_to_topic_response_schema"
  "readable (de_mqtt_message js b64) = conforms b64
     (SStruct [(''topicName'', Required, SString), (''payload'', Nullable, SBase64)])"
  unfolding schema_defs de_restart_component_response_def [abs_def] de_pre_component_update_event_def [abs_def]
    de_post_component_update_event_def [abs_def] de_get_configuration_response_def [abs_def]
    de_configuration_update_event_def [abs_def] de_message_context_def [abs_def] de_json_message_def [abs_def]
    de_subscribe_to_topic_response_def [abs_def] de_mqtt_message_def [abs_def]
  by (rule struct1_accepted struct2_accepted field_accepted accepted_primitives de_strings_accepted)+

text \<open>A binary message: the reader decodes the text after it has read the struct.\<close>

lemma base64_field_accepted:
  "(\<exists>m. de_default_field None (de_option (de_string js)) name fs = Inr m \<and>
      (case m of Some text \<Rightarrow> b64_decode b64 (bytes_of_str text) \<in> range Inr | None \<Rightarrow> True)) \<longleftrightarrow>
   fields_conform b64 [(name, Nullable, SBase64)] (field fs)"
  by (cases "field fs name"; cases "the (field fs name)")
     (auto simp: de_default_field_def de_option_def de_string_def image_iff split: sum.split)

lemma de_binary_message_in_accepted:
  "readable (de_binary_message_in js b64) = conforms b64 (SStruct
     [(''message'', Nullable, SBase64), (''context'', Nullable, message_context_schema)])"
proof -
  let ?msg = "de_default_field None (de_option (de_string js)) ''message''"
  let ?ctx = "de_default_field None (de_option (de_message_context js)) ''context''"
  let ?decoded = "\<lambda>m. case m of Some text \<Rightarrow> b64_decode b64 (bytes_of_str text) \<in> range Inr | None \<Rightarrow> True"
  define k where "k = (\<lambda>fs. and_then (?msg fs) (\<lambda>m. and_then (?ctx fs) (\<lambda>ctx. and_then
      (case m of Some text \<Rightarrow> map_err (\<lambda>_. json_data_error js) (b64_decode b64 (bytes_of_str text)) | None \<Rightarrow> Inr [])
      (\<lambda>message. Inr \<lparr>bmi_message = message, bmi_context = ctx\<rparr>))))"
  have reader: "de_binary_message_in js b64 = (\<lambda>doc. and_then (de_struct js [''message'', ''context''] doc) k)"
    by (auto simp: fun_eq_iff de_binary_message_in_def de_raw_binary_message_def k_def and_then_def
        split: sum.split option.split)
  have "(\<exists>v. k fs = Inr v) \<longleftrightarrow> (\<exists>m. ?msg fs = Inr m \<and> ?decoded m) \<and> (\<exists>ctx. ?ctx fs = Inr ctx)" for fs
  proof (cases "?msg fs")
    case (Inr m)
    then show ?thesis by (cases m) (auto simp: k_def and_then_Inr_iff image_iff)
  qed (simp add: k_def)
  then have "(\<exists>v. k fs = Inr v) \<longleftrightarrow> fields_conform b64
      [(''message'', Nullable, SBase64), (''context'', Nullable, message_context_schema)] (field fs)" for fs
    using field_accepted(3) [OF events_accepted(6) [of js b64], where name = "''context''" and fs = fs]
      base64_field_accepted [of js "''message''" fs b64]
    by simp
  from struct_accepted [OF this, of js] show ?thesis by (simp add: reader)
qed

lemma more_events_accepted:
  "readable (de_component_update_policy_events js) = conforms b64 component_update_policy_events_schema"
  "readable (de_configuration_update_events js) = conforms b64 configuration_update_events_schema"
  "readable (de_subscription_response_message js b64) = conforms b64 subscription_response_message_schema"
  "readable (de_iot_core_message js b64) = conforms b64 iot_core_message_schema"
  unfolding component_update_policy_events_schema_def configuration_update_events_schema_def
    subscription_response_message_schema_def iot_core_message_schema_def
    de_component_update_policy_events_def [abs_def] de_configuration_update_events_def [abs_def]
    de_subscription_response_message_def [abs_def] de_iot_core_message_def [abs_def]
  by (rule struct1_accepted struct2_accepted field_accepted events_accepted de_binary_message_in_accepted)+

text \<open>
  C39. Every reader of an event or of a response that carries data reads exactly the documents of its
  schema: required members there and of their type, defaulted ones absent or of their type, \<open>Option\<close>
  ones absent, \<open>null\<close> or of their type, binary ones valid base64, no own member twice, other members
  ignored; or the same by position in an array.
\<close>

theorem readers_accept_their_schema:
  "((\<exists>v. de_component_update_policy_events js doc = Inr v) \<longleftrightarrow>
      conforms b64 component_update_policy_events_schema doc) \<and>
   ((\<exists>v. de_configuration_update_events js doc = Inr v) \<longleftrightarrow> conforms b64 configuration_update_events_schema doc) \<and>
   ((\<exists>v. de_subscription_response_message js b64 doc = Inr v) \<longleftrightarrow>
      conforms b64 subscription_response_message_schema doc) \<and>
   ((\<exists>v. de_iot_core_message js b64 doc = Inr v) \<longleftrightarrow> conforms b64 iot_core_message_schema doc) \<and>
   ((\<exists>v. de_get_configuration_response js doc = Inr v) \<longleftrightarrow> conforms b64 get_configuration_response_schema doc) \<and>
   ((\<exists>v. de_restart_component_response js doc = Inr v) \<longleftrightarrow> conforms b64 restart_component_response_schema doc) \<and>
   ((\<exists>v. de_subscribe_to_topic_response js doc = Inr v) \<longleftrightarrow> conforms b64 subscribe_to_topic_response_schema doc)"
  using events_accepted(1,4,8) [of js b64, THEN fun_cong, of doc] more_events_accepted [of js b64, THEN fun_cong, of doc]
  by (simp add: readable_def)

section \<open>The requests\<close>

text \<open>What the client writes has the schema of its request; an optional member is left out, never \<open>null\<close>.\<close>

definition lifecycle_state_schema :: schema where
  "lifecycle_state_schema = SOneOf
     [''RUNNING'', ''ERRORED'', ''NEW'', ''FINISHED'', ''INSTALLED'', ''BROKEN'', ''STARTING'', ''STOPPING'']"

definition publish_message_schema :: schema where
  "publish_message_schema = SStruct
     [(''jsonMessage'', Defaulted, SStruct [(''message'', Required, SAny)]),
      (''binaryMessage'', Defaulted, SStruct [(''message'', Required, SBase64)])]"

lemma requests_conform:
  assumes "base64_roundtrip b64"
  shows "conforms b64 (SStruct [(''state'', Required, lifecycle_state_schema)]) (ser_update_state_request r1)"
    and "conforms b64 (SStruct [(''deploymentId'', Required, SString), (''message'', Defaulted, SString),
           (''recheckAfterMs'', Defaulted, SNumber)]) (ser_defer_component_update_request r2)"
    and "conforms b64 (SStruct [(''componentName'', Defaulted, SString), (''keyPath'', Required, SList SString)])
           (ser_get_configuration_request r3)"
    and "conforms b64 (SStruct [(''componentName'', Defaulted, SString), (''keyPath'', Required, SList SString)])
           (ser_subscribe_to_configuration_update_request r4)"
    and "conforms b64 (SStruct [(''topic'', Required, SString), (''publishMessage'', Required, publish_message_schema)])
           (ser_publish_to_topic_request b64 r5)"
    and "conforms b64 (SStruct [(''topic'', Required, SString), (''receiveMode'', Defaulted, SString)])
           (ser_subscribe_to_topic_request r6)"
    and "conforms b64 (SStruct [(''topicName'', Required, SString), (''qos'', Required, SOneOf [''0'', ''1'']),
           (''payload'', Defaulted, SBase64)]) (ser_publish_to_iot_core_request b64 r7)"
    and "conforms b64 (SStruct [(''topicName'', Required, SString), (''qos'', Required, SOneOf [''0'', ''1''])])
           (ser_subscribe_to_iot_core_request r8)"
proof -
  note request_defs = serde_defs lifecycle_state_schema_def publish_message_schema_def struct_view_def
    known_members_def ser_update_state_request_def ser_lifecycle_state_def ser_defer_component_update_request_def
    ser_get_configuration_request_def ser_subscribe_to_configuration_update_request_def
    ser_publish_to_topic_request_def ser_publish_message_def ser_json_message_out_def ser_binary_message_out_def
    ser_subscribe_to_topic_request_def ser_publish_to_iot_core_request_def ser_subscribe_to_iot_core_request_def
    ser_qos_def ser_blob_def
  have b64: "b64_decode b64 (bytes_of_str (b64_encode b64 b)) = Inr b" for b
    using assms by (simp add: base64_roundtrip_def)
  show "conforms b64 (SStruct [(''state'', Required, lifecycle_state_schema)]) (ser_update_state_request r1)"
    by (cases "usr_state r1") (simp_all add: request_defs)
  show "conforms b64 (SStruct [(''deploymentId'', Required, SString), (''message'', Defaulted, SString),
      (''recheckAfterMs'', Defaulted, SNumber)]) (ser_defer_component_update_request r2)"
    by (simp add: request_defs split: option.split)
  show "conforms b64 (SStruct [(''componentName'', Defaulted, SString), (''keyPath'', Required, SList SString)])
      (ser_get_configuration_request r3)"
    by (auto simp: request_defs split: option.split)
  show "conforms b64 (SStruct [(''componentName'', Defaulted, SString), (''keyPath'', Required, SList SString)])
      (ser_subscribe_to_configuration_update_request r4)"
    by (auto simp: request_defs split: option.split)
  show "conforms b64 (SStruct [(''topic'', Required, SString), (''publishMessage'', Required, publish_message_schema)])
      (ser_publish_to_topic_request b64 r5)"
    by (simp add: request_defs b64 split: option.split)
  show "conforms b64 (SStruct [(''topic'', Required, SString), (''receiveMode'', Defaulted, SString)])
      (ser_subscribe_to_topic_request r6)"
    by (simp add: request_defs split: option.split)
  show "conforms b64 (SStruct [(''topicName'', Required, SString), (''qos'', Required, SOneOf [''0'', ''1'']),
      (''payload'', Defaulted, SBase64)]) (ser_publish_to_iot_core_request b64 r7)"
    by (cases "pic_qos r7"; cases "pic_payload r7"; cases "the (pic_payload r7)") (simp_all add: request_defs b64)
  show "conforms b64 (SStruct [(''topicName'', Required, SString), (''qos'', Required, SOneOf [''0'', ''1''])])
      (ser_subscribe_to_iot_core_request r8)"
    by (cases "sic_qos r8") (simp_all add: request_defs)
qed

end
