(* ===== verification/Writer.thy ===== *)
theory Writer
  imports Framing "HOL-Library.Sublist"
begin

text \<open>
  The write half under its lock, byte by byte: \<open>src/connection.rs\<close> keeps it in a tokio mutex, and
  \<open>Connection::write_message\<close> and the ping branch of \<open>handle_protocol_message\<close> hold the lock across \<open>write_all\<close> and
  \<open>flush\<close>, between whose polls every other task runs. \<open>Framing\<close> and \<open>Session\<close> take a write as one step; this
  theory gives the steps in between, shows that the lock makes them one, and what happens while a holder
  makes no progress.
\<close>

section \<open>The lock and the bytes\<close>

text \<open>
  A write that was asked for: the frame it writes, already encoded, and whose it is. A failing \<open>write_message\<close>
  shuts the write half down, the answer to a ping does not.
\<close>

datatype write_kind = CallerWrite | PongWrite

record job =
  job_id :: nat
  job_kind :: write_kind
  job_frame :: bytes

text \<open>How a write ended: complete, failed after some bytes, or dropped with its caller's future after some bytes.\<close>

datatype job_end = AllOut | IoFailed nat io_error | DroppedAt nat

text \<open>
  The mutex serves its waiters in the order they asked, as tokio documents. The holder is kept with the number of
  bytes the socket has taken from it.
\<close>

record lane =
  lane_half :: writer
  lane_holder :: "(job \<times> nat) option"
  lane_waiting :: "job list"
  lane_ended :: "(job \<times> job_end) list"

definition lane_new :: "writer \<Rightarrow> lane" where
  "lane_new wr = \<lparr>lane_half = wr, lane_holder = None, lane_waiting = [], lane_ended = []\<rparr>"

definition lane_jobs :: "lane \<Rightarrow> job list" where
  "lane_jobs l = map fst (lane_ended l) @ (case lane_holder l of None \<Rightarrow> [] | Some (j, _) \<Rightarrow> [j]) @ lane_waiting l"

text \<open>The end of a write, however it comes, drops the guard.\<close>

definition settle :: "job \<Rightarrow> job_end \<Rightarrow> lane \<Rightarrow> lane" where
  "settle j e l = l\<lparr>lane_holder := None, lane_ended := lane_ended l @ [(j, e)]\<rparr>"

text \<open>
  \<open>Ask\<close>: \<open>lock().await\<close> begins; \<open>Take\<close>: it returns; \<open>Accept k\<close>: a poll of \<open>write_all\<close> in which the socket takes \<open>k\<close> bytes,
  which a half that was shut down never does; \<open>Finish\<close>: \<open>write_all\<close> and \<open>flush\<close> are done; \<open>BreakWith\<close>: one of them
  fails; \<open>GiveUp\<close>: a caller's future is dropped, while it waits for the lock or while it holds it.
\<close>

datatype lane_label = Ask job | Take | Accept nat | Finish | BreakWith io_error | GiveUp nat

fun lane_do :: "lane_label \<Rightarrow> lane \<Rightarrow> lane option" where
  "lane_do (Ask j) l =
     (if job_id j \<in> job_id ` set (lane_jobs l) then None else Some (l\<lparr>lane_waiting := lane_waiting l @ [j]\<rparr>))"
| "lane_do Take l = (case (lane_holder l, lane_waiting l) of
      (None, j # js) \<Rightarrow> Some (l\<lparr>lane_holder := Some (j, 0), lane_waiting := js\<rparr>)
    | _ \<Rightarrow> None)"
| "lane_do (Accept k) l = (case lane_holder l of
      None \<Rightarrow> None
    | Some (j, n) \<Rightarrow>
        if \<not> shut (lane_half l) \<and> 0 < k \<and> n + k \<le> length (job_frame j)
        then Some (l\<lparr>lane_half := (lane_half l)\<lparr>wire := wire (lane_half l) @ take k (drop n (job_frame j))\<rparr>,
               lane_holder := Some (j, n + k)\<rparr>)
        else None)"
| "lane_do Finish l = (case lane_holder l of
      None \<Rightarrow> None
    | Some (j, n) \<Rightarrow> if n = length (job_frame j) then Some (settle j AllOut l) else None)"
| "lane_do (BreakWith err) l = (case lane_holder l of
      None \<Rightarrow> None
    | Some (j, n) \<Rightarrow> Some (settle j (IoFailed n err)
        (case job_kind j of
           CallerWrite \<Rightarrow> l\<lparr>lane_half := (lane_half l)\<lparr>shut := True\<rparr>\<rparr>
         | PongWrite \<Rightarrow> l)))"
| "lane_do (GiveUp i) l = (case find (\<lambda>j. job_id j = i \<and> job_kind j = CallerWrite) (lane_waiting l) of
      Some j \<Rightarrow> Some (l\<lparr>lane_waiting := remove1 j (lane_waiting l), lane_ended := lane_ended l @ [(j, DroppedAt 0)]\<rparr>)
    | None \<Rightarrow> (case lane_holder l of
        Some (j, n) \<Rightarrow>
          if job_id j = i \<and> job_kind j = CallerWrite then Some (settle j (DroppedAt n) l) else None
      | None \<Rightarrow> None))"

definition lane_step :: "lane \<Rightarrow> lane_label \<Rightarrow> lane \<Rightarrow> bool" where
  "lane_step l m l' \<longleftrightarrow> lane_do m l = Some l'"

section \<open>A write is atomic\<close>

text \<open>The writes of \<open>Framing\<close>, as functions of how the write ended.\<close>

definition atomic_write :: "job \<Rightarrow> job_end \<Rightarrow> writer \<Rightarrow> writer" where
  "atomic_write j e wr = (case e of
      AllOut \<Rightarrow> snd (socket_write (job_frame j) WriteOk wr)
    | IoFailed n err \<Rightarrow>
        (let wr' = snd (socket_write (job_frame j) (WriteErr n err) wr)
         in case job_kind j of CallerWrite \<Rightarrow> wr'\<lparr>shut := True\<rparr> | PongWrite \<Rightarrow> wr')
    | DroppedAt n \<Rightarrow> wr\<lparr>wire := wire wr @ take n (job_frame j)\<rparr>)"

definition atomic_writes :: "(job \<times> job_end) list \<Rightarrow> writer \<Rightarrow> writer" where
  "atomic_writes ends wr = fold (\<lambda>(j, e). atomic_write j e) ends wr"

lemma atomic_writes_simps [simp]:
  "atomic_writes [] wr = wr"
  "atomic_writes (es @ [(j, e)]) wr = atomic_write j e (atomic_writes es wr)"
  by (simp_all add: atomic_writes_def)

lemma atomic_write_message:
  assumes "write_message_to codec m = Inr (job_frame j)" "job_kind j = CallerWrite"
  shows "write_message codec m WriteOk wr = (Inr (), atomic_write j AllOut wr)"
    and "write_message codec m (WriteErr n err) wr = (Inl (Io err), atomic_write j (IoFailed n err) wr)"
    and "drop_write codec m n wr = Some (atomic_write j (DroppedAt n) wr)"
  using assms
  by (simp_all add: write_message_def drop_write_def atomic_write_def socket_write_def from_io_error_def)

lemma atomic_write_frame:
  assumes "write_message_to codec m = Inr (job_frame j)" "job_kind j = PongWrite"
  shows "write_frame codec m WriteOk wr = (Inr (), atomic_write j AllOut wr)"
    and "write_frame codec m (WriteErr n err) wr = (Inl (Io err), atomic_write j (IoFailed n err) wr)"
  using assms
  by (simp_all add: write_frame_def atomic_write_def socket_write_def from_io_error_def)

text \<open>What is on the wire is what the writes that ended put there, one after the other, and a part of the holder's frame.\<close>

definition with_part :: "(job \<times> nat) option \<Rightarrow> writer \<Rightarrow> writer" where
  "with_part h wr = (case h of None \<Rightarrow> wr | Some (j, n) \<Rightarrow> wr\<lparr>wire := wire wr @ take n (job_frame j)\<rparr>)"

definition lane_inv :: "writer \<Rightarrow> lane \<Rightarrow> bool" where
  "lane_inv wr l \<longleftrightarrow> lane_half l = with_part (lane_holder l) (atomic_writes (lane_ended l) wr) \<and>
     (\<forall>j n. lane_holder l = Some (j, n) \<longrightarrow> n \<le> length (job_frame j)) \<and>
     distinct (map job_id (lane_jobs l))"

lemma remove1_find:
  assumes "find P xs = Some x"
  shows "P x" "x \<in> set xs" "mset xs = add_mset x (mset (remove1 x xs))"
proof -
  show "P x" "x \<in> set xs" using assms by (auto simp: find_Some_iff)
  then show "mset xs = add_mset x (mset (remove1 x xs))" by simp
qed

text \<open>Every step keeps the jobs there are, but for the one it adds, and only the holder's steps reach the socket.\<close>

lemma lane_jobs_step:
  assumes "lane_do m l = Some l'"
  shows "mset (lane_jobs l') = mset (lane_jobs l) + (case m of Ask j \<Rightarrow> {#j#} | _ \<Rightarrow> {#})"
  using assms
  by (cases m) (auto simp: lane_jobs_def settle_def split: if_splits option.splits list.splits write_kind.splits
      dest: remove1_find(3))

lemma lane_ids_step:
  assumes "lane_do m l = Some l'" "distinct (map job_id (lane_jobs l))"
  shows "distinct (map job_id (lane_jobs l'))"
proof -
  define js where "js = (case m of Ask j \<Rightarrow> [j] | _ \<Rightarrow> []) @ lane_jobs l"
  have "mset (lane_jobs l') = mset js"
    using lane_jobs_step [OF assms(1)] by (cases m) (simp_all add: js_def)
  then have "mset (map job_id (lane_jobs l')) = mset (map job_id js)" by simp
  moreover have "distinct (map job_id js)"
    using assms by (cases m) (auto simp: js_def split: if_splits)
  ultimately show ?thesis using mset_eq_imp_distinct_iff by blast
qed

lemma lane_inv_step:
  assumes "lane_inv wr l" "lane_step l m l'"
  shows "lane_inv wr l'"
proof -
  have "lane_half l' = with_part (lane_holder l') (atomic_writes (lane_ended l') wr) \<and>
      (\<forall>j n. lane_holder l' = Some (j, n) \<longrightarrow> n \<le> length (job_frame j))"
    using assms unfolding lane_inv_def lane_step_def
    by (cases m) (auto simp: with_part_def settle_def atomic_write_def socket_write_def take_add
      split: if_splits option.splits list.splits write_kind.splits)
  then show ?thesis using assms lane_ids_step unfolding lane_inv_def lane_step_def by blast
qed

interpretation lane: invariant_system "\<lambda>l. l = lane_new wr" lane_step "lane_inv wr" for wr
proof unfold_locales
  show "lane_inv wr l" if "l = lane_new wr" for l
    using that by (simp add: lane_inv_def lane_new_def lane_jobs_def with_part_def)
qed (rule lane_inv_step)

section \<open>Callers take turns\<close>

text \<open>Who asked, in a run, and who is served or still to be served: a job dropped without a byte counts as neither.\<close>

definition asked :: "lane_label list \<Rightarrow> job list" where
  "asked ls = concat (map (\<lambda>m. case m of Ask j \<Rightarrow> [j] | _ \<Rightarrow> []) ls)"

definition served :: "lane \<Rightarrow> job list" where
  "served l = map fst (filter (\<lambda>(_, e). e \<noteq> DroppedAt 0) (lane_ended l)) @
     (case lane_holder l of None \<Rightarrow> [] | Some (j, _) \<Rightarrow> [j]) @ lane_waiting l"

lemma asked_Cons: "asked (m # ls) = asked [m] @ asked ls"
  by (simp add: asked_def)

lemma subseq_remove1: "subseq (remove1 x xs) xs"
  by (induction xs) auto

lemma subseq_append_mono: "subseq a b \<Longrightarrow> subseq c d \<Longrightarrow> subseq (a @ c) (b @ d)"
  by (rule list_emb_append_mono)

lemma served_step:
  assumes "lane_do m l = Some l'"
  shows "subseq (served l') (served l @ asked [m])"
  using assms
  by (cases m) (auto simp: served_def asked_def settle_def subseq_remove1 subseq_append_mono list_emb_Cons
      split: if_splits option.splits list.splits write_kind.splits)

lemma served_run: "run lane_step l ls l' \<Longrightarrow> subseq (served l') (served l @ asked ls)"
proof (induction rule: run.induct)
  case (run_Nil l)
  then show ?case by (simp add: asked_def)
next
  case (run_Cons l m l' ls l'')
  have "subseq (served l' @ asked ls) ((served l @ asked [m]) @ asked ls)"
    using served_step run_Cons.hyps(1) unfolding lane_step_def by (blast intro: subseq_append_mono)
  also have "(served l @ asked [m]) @ asked ls = served l @ asked (m # ls)" by (simp add: asked_def)
  finally show ?case using run_Cons.IH subseq_order.order_trans by blast
qed

lemma jobs_run: "run lane_step l ls l' \<Longrightarrow> mset (lane_jobs l') = mset (lane_jobs l) + mset (asked ls)"
proof (induction rule: run.induct)
  case (run_Cons l m l' ls l'')
  then show ?case
    using lane_jobs_step [of m l l'] by (cases m) (simp_all add: lane_step_def asked_def)
qed (simp add: asked_def)

lemma lane_new_simps [simp]:
  "lane_jobs (lane_new wr) = []" "served (lane_new wr) = []" "lane_half (lane_new wr) = wr"
  by (simp_all add: lane_new_def lane_jobs_def served_def)

text \<open>
  C10. Concurrent writes are atomic: however the polls of any number of writers interleave, the bytes on the socket, and
  whether it was shut down, are those of the writes that ended, each as one \<open>write_message\<close>, one ping answer or one
  dropped write of \<open>Framing\<close>, one after the other, followed by the bytes the socket has taken from the holder; and they
  follow the order in which the writers asked for the lock.
\<close>

theorem concurrent_writes_are_atomic:
  assumes "run lane_step (lane_new wr) ls l"
  shows "lane_half l = with_part (lane_holder l) (atomic_writes (lane_ended l) wr) \<and>
    subseq (served l) (asked ls) \<and> mset (lane_jobs l) = mset (asked ls) \<and> distinct (map job_id (asked ls))"
proof -
  have inv: "lane_inv wr l"
    using lane.inv_run [OF assms] lane.inv_init [OF refl] by blast
  have jobs: "mset (lane_jobs l) = mset (asked ls)" using jobs_run [OF assms] by simp
  then have "mset (map job_id (lane_jobs l)) = mset (map job_id (asked ls))" by simp
  then have "distinct (map job_id (asked ls))"
    using inv mset_eq_imp_distinct_iff unfolding lane_inv_def by blast
  then show ?thesis using inv jobs served_run [OF assms] by (simp add: lane_inv_def)
qed

text \<open>The frames of the writes that are complete, the holder's too when the socket has all of it.\<close>

definition complete_jobs :: "lane \<Rightarrow> job list" where
  "complete_jobs l = map fst (filter (\<lambda>(_, e). e = AllOut) (lane_ended l)) @
     (case lane_holder l of None \<Rightarrow> [] | Some (j, n) \<Rightarrow> if n = length (job_frame j) then [j] else [])"

definition part_of_holder :: "lane \<Rightarrow> bytes" where
  "part_of_holder l = (case lane_holder l of None \<Rightarrow> []
     | Some (j, n) \<Rightarrow> if n = length (job_frame j) then [] else take n (job_frame j))"

lemma wire_atomic_writes:
  "\<forall>(j, e) \<in> set es. e = AllOut \<or> e = DroppedAt 0 \<Longrightarrow>
   wire (atomic_writes es wr) = wire wr @ concat (map (job_frame \<circ> fst) (filter (\<lambda>(_, e). e = AllOut) es))"
  by (induction es rule: rev_induct) (auto simp: atomic_write_def socket_write_def)

lemma lane_wire:
  assumes "lane_inv wr l" "\<forall>(j, e) \<in> set (lane_ended l). e = AllOut \<or> e = DroppedAt 0"
  shows "wire (lane_half l) = wire wr @ concat (map job_frame (complete_jobs l)) @ part_of_holder l"
  using assms wire_atomic_writes [OF assms(2), of wr]
  by (auto simp: lane_inv_def with_part_def complete_jobs_def part_of_holder_def split: option.splits)

lemma subseq_complete: "subseq (complete_jobs l) (served l)"
proof -
  have "subseq (map fst (filter (\<lambda>(_, e). e = AllOut) es)) (map fst (filter (\<lambda>(_, e). e \<noteq> DroppedAt 0) es))" for es :: "(job \<times> job_end) list"
    by (induction es) (auto simp: list_emb_Cons)
  then show ?thesis
    unfolding complete_jobs_def served_def by (intro subseq_append_mono) (auto split: option.splits)
qed

text \<open>
  C15. Messages written concurrently arrive whole and in turn: as long as no write fails and no caller is dropped inside
  its frame, the nucleus, however the bytes reach it, reads exactly the messages whose bytes are all out, in the
  order in which their writers asked for the lock, every message whose \<open>write_message\<close> has returned among them.
\<close>

theorem concurrent_messages_arrive_whole:
  assumes "codec_laws codec held" and "run lane_step (lane_new \<lparr>wire = [], shut = False\<rparr>) ls l"
    and "\<forall>j \<in> set (asked ls). write_message_to codec (msg j) = Inr (job_frame j)"
    and "\<forall>(j, e) \<in> set (lane_ended l). e = AllOut \<or> e = DroppedAt 0"
    and "concat chunks = wire (lane_half l)" and "[] \<notin> set chunks" and "length (asked ls) < fuel"
  shows "\<exists>js. read_frames codec fuel (framed_reader_new codec) (map Inr chunks) = (map msg js, Pending) \<and>
    subseq js (asked ls) \<and> {j. (j, AllOut) \<in> set (lane_ended l)} \<subseteq> set js"
proof (intro exI conjI)
  have inv: "lane_inv \<lparr>wire = [], shut = False\<rparr> l"
    using lane.inv_run [OF assms(2)] lane.inv_init [OF refl] by blast
  have members: "set (lane_jobs l) = set (asked ls)" using jobs_run [OF assms(2)] by (metis add_0 lane_new_simps(1) mset.simps(1) mset_eq_setD)
  show sub: "subseq (complete_jobs l) (asked ls)"
    using subseq_complete served_run [OF assms(2)] subseq_order.order_trans by fastforce
  show "{j. (j, AllOut) \<in> set (lane_ended l)} \<subseteq> set (complete_jobs l)"
    by (force simp: complete_jobs_def)
  have "set (complete_jobs l) \<subseteq> set (asked ls)" using sub by (auto dest: list_emb_set)
  then have frames: "map (write_message_to codec) (map msg (complete_jobs l)) = map Inr (map job_frame (complete_jobs l))"
    using assms(3) by auto
  have part: "partial_frame codec (part_of_holder l)"
  proof (cases "\<exists>j n. lane_holder l = Some (j, n) \<and> n < length (job_frame j)")
    case True
    then obtain j n where h: "lane_holder l = Some (j, n)" "n < length (job_frame j)" by blast
    then have "j \<in> set (asked ls)" using members by (auto simp: lane_jobs_def)
    then show ?thesis using h assms(3) unfolding partial_frame_def part_of_holder_def
      by (intro disjI2 exI [of _ "msg j"] exI [of _ "drop n (job_frame j)"]) simp
  next
    case False
    then have "part_of_holder l = []" using inv by (auto simp: part_of_holder_def lane_inv_def split: option.splits)
    then show ?thesis by (simp add: partial_frame_def)
  qed
  show "read_frames codec fuel (framed_reader_new codec) (map Inr chunks) = (map msg (complete_jobs l), Pending)"
  proof -
    have "length (complete_jobs l) < fuel" using list_emb_length [OF sub] assms(7) by simp
    then have "read_frames codec fuel (framed_reader_new codec) (map Inr chunks @ []) =
        (map msg (complete_jobs l), ending_status [])"
      using frames part assms(5,6) lane_wire [OF inv assms(4)]
      by (intro read_frames_all [OF assms(1) _ waits_on_partial_frame [OF assms(1)]])
        (simp_all add: backlog_new [OF assms(1)])
    then show ?thesis by simp
  qed
qed

section \<open>A holder that makes no progress\<close>

text \<open>The steps that belong to the holder's write, its own or the socket's.\<close>

definition of_holder :: "job \<Rightarrow> lane_label \<Rightarrow> bool" where
  "of_holder j m \<longleftrightarrow> (case m of Accept _ \<Rightarrow> True | Finish \<Rightarrow> True | BreakWith _ \<Rightarrow> True | GiveUp i \<Rightarrow> i = job_id j | _ \<Rightarrow> False)"

lemma stuck_step:
  assumes "lane_do m l = Some l'" "lane_holder l = Some (j, n)" "\<not> of_holder j m"
  shows "lane_holder l' = lane_holder l" "lane_half l' = lane_half l"
  using assms
  by (cases m; auto simp: of_holder_def split: if_splits option.splits list.splits; fail)+

lemma stuck_step_waiting:
  assumes "lane_do m l = Some l'" "lane_holder l = Some (j, n)" "\<not> of_holder j m"
  shows "\<exists>gone. lane_ended l' = lane_ended l @ map (\<lambda>k. (k, DroppedAt 0)) gone \<and>
    mset (lane_waiting l') + mset gone = mset (lane_waiting l) + mset (asked [m]) \<and> (\<forall>k \<in> set gone. job_kind k = CallerWrite)"
proof (cases m)
  case (GiveUp i)
  then obtain k where k: "find (\<lambda>j. job_id j = i \<and> job_kind j = CallerWrite) (lane_waiting l) = Some k"
      "l' = l\<lparr>lane_waiting := remove1 k (lane_waiting l), lane_ended := lane_ended l @ [(k, DroppedAt 0)]\<rparr>"
    using assms by (auto simp: of_holder_def split: option.splits if_splits)
  then show ?thesis using GiveUp remove1_find [OF k(1)] by (intro exI [of _ "[k]"]) (simp add: asked_def)
qed (use assms in \<open>auto simp: of_holder_def asked_def split: if_splits option.splits intro!: exI [of _ "[]"]\<close>)


section \<open>Otherwise everyone is served\<close>

text \<open>The steps left until all who have asked are done.\<close>

definition lane_left :: "lane \<Rightarrow> nat" where
  "lane_left l = sum_list (map (\<lambda>j. length (job_frame j) + 2) (lane_waiting l)) +
     (case lane_holder l of None \<Rightarrow> 0 | Some (j, n) \<Rightarrow> length (job_frame j) - n + 1)"

lemma lane_left_step:
  assumes "lane_do m l = Some l'" "\<forall>j. m \<noteq> Ask j"
  shows "lane_left l' < lane_left l"
proof (cases m)
  case (GiveUp i)
  then show ?thesis using assms
    by (auto simp: lane_left_def settle_def split: option.splits if_splits
        dest!: remove1_find(2) sum_list_map_remove1 [of _ _ "\<lambda>j. length (job_frame j) + 2"])
qed (use assms in \<open>auto simp: lane_left_def settle_def split: option.splits if_splits list.splits write_kind.splits\<close>)

text \<open>
  With no new askers the lane is done after at most \<open>lane_left\<close> steps, and while the half is open and somebody is
  left, the holder can write on or finish, or the first who waits can take the lock.
\<close>

lemma writers_are_served:
  assumes "run lane_step l ls l'" "asked ls = []" "lane_inv wr l"
  shows "length ls + lane_left l' \<le> lane_left l"
    and "lane_left l' = 0 \<longleftrightarrow> lane_holder l' = None \<and> lane_waiting l' = []"
    and "\<not> shut (lane_half l') \<Longrightarrow> 0 < lane_left l' \<Longrightarrow> \<exists>m \<in> {Take, Accept 1, Finish}. \<exists>v. lane_step l' m v"
proof -
  show "length ls + lane_left l' \<le> lane_left l"
    using assms(1,2)
  proof (induction rule: run.induct)
    case (run_Cons l m v ls u)
    then have "\<forall>j. m \<noteq> Ask j" "asked ls = []" by (auto simp: asked_def)
    then show ?case using run_Cons.IH lane_left_step [of m l v] run_Cons.hyps(1) by (simp add: lane_step_def)
  qed simp
  have inv: "lane_inv wr l'" by (rule lane.inv_run [OF assms(1,3)])
  show "lane_left l' = 0 \<longleftrightarrow> lane_holder l' = None \<and> lane_waiting l' = []"
    by (auto simp: lane_left_def split: option.splits)
  show "\<exists>m \<in> {Take, Accept 1, Finish}. \<exists>v. lane_step l' m v" if "\<not> shut (lane_half l')" "0 < lane_left l'"
  proof (cases "lane_holder l'")
    case None
    then show ?thesis using that(2) by (cases "lane_waiting l'") (auto simp: lane_step_def lane_left_def)
  next
    case (Some h)
    then obtain j n where h: "lane_holder l' = Some (j, n)" "n \<le> length (job_frame j)"
      using inv by (cases h) (auto simp: lane_inv_def)
    then show ?thesis using that(1)
      by (cases "n = length (job_frame j)") (auto simp: lane_step_def)
  qed
qed

section \<open>Two callers and a ping\<close>

definition demo_job :: "nat \<Rightarrow> write_kind \<Rightarrow> bytes \<Rightarrow> job" where
  "demo_job i kind body = \<lparr>job_id = i, job_kind = kind, job_frame = body\<rparr>"

text \<open>The first caller is done, the second is inside its frame, a ping and a third caller wait.\<close>

definition demo_asks :: "lane_label list" where
  "demo_asks = [Ask (demo_job 0 CallerWrite [1, 0xAA]), Ask (demo_job 1 CallerWrite [2, 0xBB, 0xCC]), Take,
     Accept 1, Accept 1, Ask (demo_job 2 PongWrite [0]), Finish, Take, Accept 2, Ask (demo_job 3 CallerWrite [0])]"

definition demo_lane :: lane where
  "demo_lane = \<lparr>lane_half = \<lparr>wire = [1, 0xAA, 2, 0xBB], shut = False\<rparr>,
     lane_holder = Some (demo_job 1 CallerWrite [2, 0xBB, 0xCC], 2),
     lane_waiting = [demo_job 2 PongWrite [0], demo_job 3 CallerWrite [0]],
     lane_ended = [(demo_job 0 CallerWrite [1, 0xAA], AllOut)]\<rparr>"

fun lane_exec :: "lane_label list \<Rightarrow> lane \<Rightarrow> lane option" where
  "lane_exec [] l = Some l"
| "lane_exec (m # ms) l = Option.bind (lane_do m l) (lane_exec ms)"

lemma lane_exec_run: "lane_exec ms l = Some l' \<Longrightarrow> run lane_step l ms l'"
  by (induction ms arbitrary: l) (auto simp: lane_step_def bind_eq_Some_conv intro: run.intros)

lemma demo_lane_run: "run lane_step (lane_new \<lparr>wire = [], shut = False\<rparr>) demo_asks demo_lane"
  by (rule lane_exec_run)
    (simp add: demo_asks_def demo_lane_def lane_new_def lane_jobs_def demo_job_def settle_def numeral_2_eq_2)

theorem concurrent_writes_are_atomic_witness:
  "wire (lane_half demo_lane) = [1, 0xAA] @ take 2 [2, 0xBB, 0xCC] \<and> subseq (served demo_lane) (asked demo_asks)"
  using concurrent_writes_are_atomic [OF demo_lane_run]
  by (simp add: demo_lane_def with_part_def atomic_writes_def atomic_write_def socket_write_def demo_job_def)

theorem concurrent_messages_arrive_whole_witness:
  "\<exists>js. read_frames length_codec 5 (framed_reader_new length_codec) (map Inr [[1, 0xAA, 2], [0xBB]]) =
      (map (\<lambda>j. tl (job_frame j)) js, Pending) \<and> demo_job 0 CallerWrite [1, 0xAA] \<in> set js"
  using concurrent_messages_arrive_whole [OF codec_laws_length_codec demo_lane_run,
      of "\<lambda>j. tl (job_frame j)" "[[1, 0xAA, 2], [0xBB]]" 5]
  by (auto simp: asked_def demo_asks_def demo_job_def demo_lane_def write_length_codec_ok simp del: read_frames.simps)


end
