(* ===== verification/Shapes.thy ===== *)
theory Shapes
  imports Lifecycle Configuration PubSub IotCore
begin

text \<open>
  What holds of the shapes of \<open>src/model\<close> together: their wire formats, that events are read by member
  name alone, and that no request loses an argument.
\<close>

section \<open>Wire formats\<close>

text \<open>
  The wire format of the lifecycle state: a document is read as a state exactly when it is that
  state's upper-case name (or the map form \<open>{name: null}\<close> of it), and different states are written
  differently.
\<close>

theorem lifecycle_state_wire_format:
  "(de_lifecycle_state js doc = Inr st \<longleftrightarrow>
      doc = ser_lifecycle_state st \<or> doc = JObj [(lifecycle_state_name st, JNull)]) \<and>
   (ser_lifecycle_state st = ser_lifecycle_state st' \<longleftrightarrow> st = st')"
proof
  show "de_lifecycle_state js doc = Inr st \<longleftrightarrow>
      doc = ser_lifecycle_state st \<or> doc = JObj [(lifecycle_state_name st, JNull)]"
    by (auto simp: de_lifecycle_state_def ser_lifecycle_state_def lifecycle_state_of_name_iff
        split: json.splits list.splits prod.splits)
  show "ser_lifecycle_state st = ser_lifecycle_state st' \<longleftrightarrow> st = st'"
    by (simp add: ser_lifecycle_state_def)
qed

text \<open>
  The wire formats of \<open>QoS\<close> and \<open>Blob\<close>: a document is read as a quality of service exactly when it
  is the string that value is written as (so anything but \<open>"0"\<close> and \<open>"1"\<close> is an error), and a blob
  is read back as the bytes it was written from.
\<close>

theorem qos_and_blob_wire_format:
  assumes "base64_roundtrip b64"
  shows "(de_qos js doc = Inr q \<longleftrightarrow> doc = ser_qos q) \<and>
    (de_qos js doc \<in> range Inr \<longleftrightarrow> doc \<in> {JStr ''0'', JStr ''1''}) \<and>
    de_blob js b64 (ser_blob b64 b) = Inr b"
  using assms
  by (cases q; cases b; cases doc)
     (auto simp: de_qos_def ser_qos_def de_blob_def ser_blob_def de_string_def base64_roundtrip_def)

theorem qos_and_blob_wire_format_witness:
  "de_qos (table_json []) (JStr ''1'') = Inr AtLeastOnce \<and> de_blob (table_json []) plain_engine (ser_blob plain_engine (Blob [0x68, 0x69])) = Inr (Blob [0x68, 0x69])"
  using qos_and_blob_wire_format [OF base64_roundtrip_plain_engine, of "table_json []" "JStr ''1''" AtLeastOnce "Blob [0x68, 0x69]"]
  by (simp add: ser_qos_def)

text \<open>Two objects that a struct cannot tell apart.\<close>

definition same_fields :: "string list \<Rightarrow> (string \<times> json) list \<Rightarrow> (string \<times> json) list \<Rightarrow> bool" where
  "same_fields names ms ms' \<longleftrightarrow> mset (known_members names ms) = mset (known_members names ms')"

lemma de_struct_same:
  assumes "same_fields names ms ms'"
  obtains e where "de_struct js names (JObj ms) = Inl e" "de_struct js names (JObj ms') = Inl e"
  | f f' where "de_struct js names (JObj ms) = Inr \<lparr>positional = False, field = f\<rparr>"
      "de_struct js names (JObj ms') = Inr \<lparr>positional = False, field = f'\<rparr>"
      "\<And>n. n \<in> set names \<Longrightarrow> f' n = f n"
proof -
  note same = assms [unfolded same_fields_def]
  have keys: "mset (map fst (known_members names ms)) = mset (map fst (known_members names ms'))"
    using same by (simp add: mset_map)
  then have dist: "distinct (map fst (known_members names ms)) = distinct (map fst (known_members names ms'))"
    by (rule mset_eq_imp_distinct_iff)
  show thesis
  proof (cases "distinct (map fst (known_members names ms))")
    case True
    then have "map_of (known_members names ms) = map_of (known_members names ms')"
      using dist mset_eq_setD [OF same] by (intro map_of_eqI) (auto simp: map_of_inject_set)
    then have "map_of ms' n = map_of ms n" if "n \<in> set names" for n
      using that by (metis map_of_known_members)
    then show thesis using True dist
      by (intro that(2) [of "map_of ms" "map_of ms'"]) (simp_all add: de_struct_JObj)
  next
    case False
    then show thesis using dist by (intro that(1)) (simp_all add: de_struct_JObj)
  qed
qed

lemmas decoder_defs =
  de_field_def de_default_field_def de_option_field_def de_update_state_response_def
  de_restart_component_response_def de_pre_component_update_event_def de_post_component_update_event_def
  de_component_update_policy_events_def de_get_configuration_response_def de_configuration_update_event_def
  de_configuration_update_events_def de_message_context_def de_json_message_def de_raw_binary_message_def
  de_subscription_response_message_def de_subscribe_to_topic_response_def de_mqtt_message_def
  de_iot_core_message_def

lemma decoders_same_fields:
  "same_fields [''restartStatus'', ''message''] ms ms' \<Longrightarrow>
     de_restart_component_response js (JObj ms) = de_restart_component_response js (JObj ms')"
  "same_fields [''deploymentId'', ''isGgcRestarting''] ms ms' \<Longrightarrow>
     de_pre_component_update_event js (JObj ms) = de_pre_component_update_event js (JObj ms')"
  "same_fields [''deploymentId''] ms ms' \<Longrightarrow>
     de_post_component_update_event js (JObj ms) = de_post_component_update_event js (JObj ms')"
  "same_fields [''preUpdateEvent'', ''postUpdateEvent''] ms ms' \<Longrightarrow>
     de_component_update_policy_events js (JObj ms) = de_component_update_policy_events js (JObj ms')"
  "same_fields [''componentName'', ''value''] ms ms' \<Longrightarrow>
     de_get_configuration_response js (JObj ms) = de_get_configuration_response js (JObj ms')"
  "same_fields [''componentName'', ''keyPath''] ms ms' \<Longrightarrow>
     de_configuration_update_event js (JObj ms) = de_configuration_update_event js (JObj ms')"
  "same_fields [''configurationUpdateEvent''] ms ms' \<Longrightarrow>
     de_configuration_update_events js (JObj ms) = de_configuration_update_events js (JObj ms')"
  "same_fields [''topic''] ms ms' \<Longrightarrow> de_message_context js (JObj ms) = de_message_context js (JObj ms')"
  "same_fields [''message'', ''context''] ms ms' \<Longrightarrow> de_json_message js (JObj ms) = de_json_message js (JObj ms')"
  "same_fields [''message'', ''context''] ms ms' \<Longrightarrow>
     de_raw_binary_message js (JObj ms) = de_raw_binary_message js (JObj ms')"
  "same_fields [''jsonMessage'', ''binaryMessage''] ms ms' \<Longrightarrow>
     de_subscription_response_message js b64 (JObj ms) = de_subscription_response_message js b64 (JObj ms')"
  "same_fields [''topicName'', ''payload''] ms ms' \<Longrightarrow>
     de_mqtt_message js b64 (JObj ms) = de_mqtt_message js b64 (JObj ms')"
  "same_fields [''message''] ms ms' \<Longrightarrow> de_iot_core_message js b64 (JObj ms) = de_iot_core_message js b64 (JObj ms')"
  by (erule de_struct_same [where js = js]; simp add: decoder_defs)+

lemma de_binary_message_in_same_fields:
  "same_fields [''message'', ''context''] ms ms' \<Longrightarrow>
     de_binary_message_in js b64 (JObj ms) = de_binary_message_in js b64 (JObj ms')"
  unfolding de_binary_message_in_def by (simp only: decoders_same_fields)

text \<open>
  Every event and response type that carries data is read by member name alone: two objects with
  the same members of the type's own names are read the same, whatever their order and whatever other
  members they have (so later additions by the nucleus are harmless).
\<close>

theorem events_are_read_by_name:
  "(same_fields [''preUpdateEvent'', ''postUpdateEvent''] ms ms' \<longrightarrow>
     de_component_update_policy_events js (JObj ms) = de_component_update_policy_events js (JObj ms')) \<and>
   (same_fields [''configurationUpdateEvent''] ms ms' \<longrightarrow>
     de_configuration_update_events js (JObj ms) = de_configuration_update_events js (JObj ms')) \<and>
   (same_fields [''jsonMessage'', ''binaryMessage''] ms ms' \<longrightarrow>
     de_subscription_response_message js b64 (JObj ms) = de_subscription_response_message js b64 (JObj ms')) \<and>
   (same_fields [''message''] ms ms' \<longrightarrow>
     de_iot_core_message js b64 (JObj ms) = de_iot_core_message js b64 (JObj ms')) \<and>
   (same_fields [''componentName'', ''value''] ms ms' \<longrightarrow>
     de_get_configuration_response js (JObj ms) = de_get_configuration_response js (JObj ms')) \<and>
   (same_fields [''restartStatus'', ''message''] ms ms' \<longrightarrow>
     de_restart_component_response js (JObj ms) = de_restart_component_response js (JObj ms')) \<and>
   (same_fields [''message'', ''context''] ms ms' \<longrightarrow>
     de_binary_message_in js b64 (JObj ms) = de_binary_message_in js b64 (JObj ms'))"
  by (intro conjI impI) (simp_all only: decoders_same_fields de_binary_message_in_same_fields)

theorem events_are_read_by_name_witness:
  "de_iot_core_message (table_json []) plain_engine (JObj [(''extra'', JNull), (''message'', JNull)]) =
   de_iot_core_message (table_json []) plain_engine (JObj [(''message'', JNull)])"
  using events_are_read_by_name [of "[(''extra'', JNull), (''message'', JNull)]" "[(''message'', JNull)]"
      "table_json []" plain_engine]
  by (simp add: same_fields_def known_members_def)

section \<open>Requests keep their arguments\<close>

lemma ser_i64_inject [simp]: "ser_i64 a = ser_i64 b \<longleftrightarrow> a = b"
  by (auto simp: ser_i64_def show_int_inject intro: signed_word_eqI)

lemma JStr_map_inject [simp]: "map JStr xs = map JStr ys \<longleftrightarrow> xs = ys"
  by (rule inj_map_eq_map) (auto intro: injI)

lemma ser_strings_inject [simp]: "ser_strings a = ser_strings b \<longleftrightarrow> a = b"
  by (simp add: ser_strings_def)

lemma ser_qos_inject [simp]: "ser_qos a = ser_qos b \<longleftrightarrow> a = b"
  by (cases a; cases b) (simp_all add: ser_qos_def)

lemma ser_lifecycle_state_inject [simp]: "ser_lifecycle_state a = ser_lifecycle_state b \<longleftrightarrow> a = b"
  by (simp add: ser_lifecycle_state_def)

lemma ser_blob_inject: "base64_roundtrip b64 \<Longrightarrow> ser_blob b64 a = ser_blob b64 b \<longleftrightarrow> a = b"
  by (cases a; cases b) (simp add: ser_blob_def b64_encode_inject)

lemma ser_publish_message_inject:
  "base64_roundtrip b64 \<Longrightarrow> ser_publish_message b64 a = ser_publish_message b64 b \<longleftrightarrow> a = b"
  by (cases a; cases b)
     (auto simp: ser_publish_message_def ser_opt_member_def ser_json_message_out_def ser_member_def
        ser_binary_message_out_def b64_encode_inject split: option.splits
        intro: json_message_out.equality binary_message_out.equality)

text \<open>
  C38. Requests lose nothing: two requests of a type are written as the same document only if they are
  equal, with optional arguments told apart from present ones (\<open>recheckAfterMs\<close> 0 from absent), lists,
  numbers and binary payloads included. The one exception is the timestamp of an update: those that are no
  finite number are all written as \<open>null\<close>.
\<close>

theorem requests_lose_nothing:
  assumes "base64_roundtrip b64" and "inj_on (f64_text js) {v. f64_finite v}"
  shows "(ser_update_state_request a1 = ser_update_state_request b1 \<longleftrightarrow> a1 = b1) \<and>
    (ser_defer_component_update_request a2 = ser_defer_component_update_request b2 \<longleftrightarrow> a2 = b2) \<and>
    (ser_get_configuration_request a3 = ser_get_configuration_request b3 \<longleftrightarrow> a3 = b3) \<and>
    (ser_subscribe_to_configuration_update_request a4 = ser_subscribe_to_configuration_update_request b4
       \<longleftrightarrow> a4 = b4) \<and>
    (ser_publish_to_topic_request b64 a5 = ser_publish_to_topic_request b64 b5 \<longleftrightarrow> a5 = b5) \<and>
    (ser_subscribe_to_topic_request a6 = ser_subscribe_to_topic_request b6 \<longleftrightarrow> a6 = b6) \<and>
    (ser_publish_to_iot_core_request b64 a7 = ser_publish_to_iot_core_request b64 b7 \<longleftrightarrow> a7 = b7) \<and>
    (ser_subscribe_to_iot_core_request a8 = ser_subscribe_to_iot_core_request b8 \<longleftrightarrow> a8 = b8) \<and>
    (ser_update_configuration_request js a9 = ser_update_configuration_request js b9 \<longleftrightarrow>
       ucr_key_path a9 = ucr_key_path b9 \<and> ucr_value_to_merge a9 = ucr_value_to_merge b9 \<and>
       (ucr_timestamp a9 = ucr_timestamp b9 \<or>
        \<not> f64_finite (ucr_timestamp a9) \<and> \<not> f64_finite (ucr_timestamp b9)))"
proof -
  note option_defs = ser_member_def ser_opt_member_def
  have f64: "ser_f64 js v = ser_f64 js w \<longleftrightarrow> v = w \<or> \<not> f64_finite v \<and> \<not> f64_finite w" for v w
    using assms(2) by (auto simp: ser_f64_def dest: inj_onD)
  have "ser_update_state_request a1 = ser_update_state_request b1 \<longleftrightarrow> a1 = b1"
    by (cases a1; cases b1) (simp add: ser_update_state_request_def option_defs)
  moreover have "ser_defer_component_update_request a2 = ser_defer_component_update_request b2 \<longleftrightarrow> a2 = b2"
    by (cases a2; cases b2) (auto simp: ser_defer_component_update_request_def option_defs split: option.splits)
  moreover have "ser_get_configuration_request a3 = ser_get_configuration_request b3 \<longleftrightarrow> a3 = b3"
    by (cases a3; cases b3) (auto simp: ser_get_configuration_request_def option_defs split: option.splits)
  moreover have "ser_subscribe_to_configuration_update_request a4 = ser_subscribe_to_configuration_update_request b4
      \<longleftrightarrow> a4 = b4"
    by (cases a4; cases b4)
       (auto simp: ser_subscribe_to_configuration_update_request_def option_defs split: option.splits)
  moreover have "ser_publish_to_topic_request b64 a5 = ser_publish_to_topic_request b64 b5 \<longleftrightarrow> a5 = b5"
    by (cases a5; cases b5)
       (simp add: ser_publish_to_topic_request_def option_defs ser_publish_message_inject [OF assms(1)])
  moreover have "ser_subscribe_to_topic_request a6 = ser_subscribe_to_topic_request b6 \<longleftrightarrow> a6 = b6"
    by (cases a6; cases b6) (auto simp: ser_subscribe_to_topic_request_def option_defs split: option.splits)
  moreover have "ser_publish_to_iot_core_request b64 a7 = ser_publish_to_iot_core_request b64 b7 \<longleftrightarrow> a7 = b7"
    by (cases a7; cases b7)
       (auto simp: ser_publish_to_iot_core_request_def option_defs ser_blob_inject [OF assms(1)] split: option.splits)
  moreover have "ser_subscribe_to_iot_core_request a8 = ser_subscribe_to_iot_core_request b8 \<longleftrightarrow> a8 = b8"
    by (cases a8; cases b8) (simp add: ser_subscribe_to_iot_core_request_def option_defs)
  moreover have "ser_update_configuration_request js a9 = ser_update_configuration_request js b9 \<longleftrightarrow>
       ucr_key_path a9 = ucr_key_path b9 \<and> ucr_value_to_merge a9 = ucr_value_to_merge b9 \<and>
       (ucr_timestamp a9 = ucr_timestamp b9 \<or>
        \<not> f64_finite (ucr_timestamp a9) \<and> \<not> f64_finite (ucr_timestamp b9))"
    by (auto simp: ser_update_configuration_request_def option_defs f64 split: option.splits)
  ultimately show ?thesis by blast
qed

theorem requests_lose_nothing_witness:
  "ser_defer_component_update_request \<lparr>dcu_deployment_id = ''d'', dcu_message = None, dcu_recheck_after_ms = Some 0\<rparr> \<noteq>
   ser_defer_component_update_request \<lparr>dcu_deployment_id = ''d'', dcu_message = None, dcu_recheck_after_ms = None\<rparr>"
proof -
  have "inj_on (f64_text (table_json [])) {v. f64_finite v}"
    by (rule inj_onI) (simp add: table_json_def show_nat_inject word_unat_eq_iff)
  from requests_lose_nothing [OF base64_roundtrip_plain_engine this,
      of _ _ "\<lparr>dcu_deployment_id = ''d'', dcu_message = None, dcu_recheck_after_ms = Some 0\<rparr>"
         "\<lparr>dcu_deployment_id = ''d'', dcu_message = None, dcu_recheck_after_ms = None\<rparr>"]
  show ?thesis by simp
qed

section \<open>The documents of the repository's own tests\<close>

lemma documents_of_the_tests:
  "ser_update_state_request \<lparr>usr_state = Running\<rparr> = JObj [(''state'', JStr ''RUNNING'')]"
  "ser_defer_component_update_request
     \<lparr>dcu_deployment_id = ''d'', dcu_message = None, dcu_recheck_after_ms = Some 0\<rparr> =
   JObj [(''deploymentId'', JStr ''d''), (''recheckAfterMs'', JNum ''0'')]"
  "de_component_update_policy_events js (JObj [(''preUpdateEvent'',
     JObj [(''deploymentId'', JStr ''abc''), (''isGgcRestarting'', JBool True)])]) =
   Inr \<lparr>pre_update_event = Some \<lparr>pre_deployment_id = ''abc'', pre_is_ggc_restarting = True\<rparr>,
        post_update_event = None\<rparr>"
  "ser_publish_to_iot_core_request b64 \<lparr>pic_topic_name = ''t'', pic_qos = AtMostOnce, pic_payload = None\<rparr> =
   JObj [(''topicName'', JStr ''t''), (''qos'', JStr ''0'')]"
  by (simp_all add: ser_update_state_request_def ser_lifecycle_state_def ser_defer_component_update_request_def
      de_component_update_policy_events_def de_pre_component_update_event_def
      ser_publish_to_iot_core_request_def ser_qos_def serde_defs show_int_def show_nat.simps digit_char_def
      char_of_def bit_Suc_0_iff)

end
