(* ===== verification/Client.thy ===== *)
theory Client
  imports ReadLoop Shapes
begin

text \<open>
  \<open>src/client.rs\<close>: the configuration, the ways to connect, the typed operations and the event stream. An
  operation is a function of its arguments, of what the environment answers (\<open>out\<close>, the outcome of
  the write; \<open>w\<close> or \<open>first\<close>, the outcome of the wait) and of the connection all clones of the client
  share, which it returns after it with the calls made on channel senders.
\<close>

section \<open>Connecting\<close>

definition DEFAULT_REQUEST_TIMEOUT :: duration where
  "DEFAULT_REQUEST_TIMEOUT = duration_from_secs 30"

record client_config =
  cfg_request_timeout :: duration

definition client_config_default :: client_config where
  "client_config_default = \<lparr>cfg_request_timeout = DEFAULT_REQUEST_TIMEOUT\<rparr>"

definition with_request_timeout :: "client_config \<Rightarrow> duration \<Rightarrow> client_config" where
  "with_request_timeout cfg timeout = cfg\<lparr>cfg_request_timeout := timeout\<rparr>"

record client =
  client_conn :: connection

text \<open>The \<open>Debug\<close> instance of \<open>Client\<close>: no field of the connection shows in it.\<close>

definition client_debug :: "client \<Rightarrow> string" where
  "client_debug cl = ''Client { .. }''"

definition connect_with_config ::
  "('m, 'h, 'o) msg_api \<Rightarrow> ('m, 'd) codec \<Rightarrow> json_api \<Rightarrow> (bytes \<Rightarrow> io_error + unit) \<Rightarrow> write_outcome \<Rightarrow>
   read_result list \<Rightarrow> ipc_env \<Rightarrow> client_config \<Rightarrow>
   (error + client \<times> 'd framed_reader \<times> read_result list) poll" where
  "connect_with_config api codec js open_socket out reads env config =
     (case connect api codec js open_socket out reads env (cfg_request_timeout config) of
        Pending \<Rightarrow> Pending
      | Ready (Inl err) \<Rightarrow> Ready (Inl err)
      | Ready (Inr (c, reader, rest)) \<Rightarrow> Ready (Inr (\<lparr>client_conn = c\<rparr>, reader, rest)))"

definition client_connect ::
  "('m, 'h, 'o) msg_api \<Rightarrow> ('m, 'd) codec \<Rightarrow> json_api \<Rightarrow> (bytes \<Rightarrow> io_error + unit) \<Rightarrow> write_outcome \<Rightarrow>
   read_result list \<Rightarrow> ipc_env \<Rightarrow> (error + client \<times> 'd framed_reader \<times> read_result list) poll" where
  "client_connect api codec js open_socket out reads env =
     connect_with_config api codec js open_socket out reads env client_config_default"

definition connect_from_env ::
  "('m, 'h, 'o) msg_api \<Rightarrow> ('m, 'd) codec \<Rightarrow> json_api \<Rightarrow> (bytes \<Rightarrow> io_error + unit) \<Rightarrow> write_outcome \<Rightarrow>
   read_result list \<Rightarrow> environ \<Rightarrow> (error + client \<times> 'd framed_reader \<times> read_result list) poll" where
  "connect_from_env api codec js open_socket out reads e =
     (case from_env e of
        Inl err \<Rightarrow> Ready (Inl err)
      | Inr env \<Rightarrow> client_connect api codec js open_socket out reads env)"

definition client_closed :: "client \<Rightarrow> unit poll" where
  "client_closed cl = closed_poll (client_conn cl)"

section \<open>Payloads\<close>

definition decode_payload :: "json_api \<Rightarrow> (json \<Rightarrow> json_error + 'a) \<Rightarrow> rpc_message \<Rightarrow> error + 'a" where
  "decode_payload js de rpc =
     (let text = (if payload rpc = [] then bytes_of_str ''{}'' else payload rpc)
      in map_err from_json_error (from_slice js de text))"

definition decode_event :: "json_api \<Rightarrow> (json \<Rightarrow> json_error + 'a) \<Rightarrow> rpc_message \<Rightarrow> error + 'a" where
  "decode_event js de rpc = map_err from_json_error (from_slice js de (payload rpc))"

section \<open>Requests and subscriptions\<close>

definition set_client :: "client \<Rightarrow> 'r \<times> connection \<times> effect list \<Rightarrow> 'r \<times> client \<times> effect list" where
  "set_client cl res = (case res of (r, c, eff) \<Rightarrow> (r, cl\<lparr>client_conn := c\<rparr>, eff))"

definition client_request ::
  "('m, 'h, 'o) msg_api \<Rightarrow> ('m, 'd) codec \<Rightarrow> json_api \<Rightarrow> (json \<Rightarrow> json_error + 'r) \<Rightarrow> string \<Rightarrow> string \<Rightarrow>
   json \<Rightarrow> write_outcome \<Rightarrow> request_wait \<Rightarrow> client \<Rightarrow> (error + 'r) \<times> client \<times> effect list" where
  "client_request api codec js de op model req out w cl =
     (let (response, c, eff) = request api codec js op model req out w (client_conn cl)
      in set_client cl (and_then response (decode_payload js de), c, eff))"

text \<open>\<open>es_closed\<close> is the field \<open>closed\<close>; the receiver is the channel it belongs to.\<close>

record event_stream =
  es_stream_id :: i32
  es_rx :: chan
  es_closed :: bool

definition client_subscribe ::
  "('m, 'h, 'o) msg_api \<Rightarrow> ('m, 'd) codec \<Rightarrow> json_api \<Rightarrow> string \<Rightarrow> string \<Rightarrow> json \<Rightarrow> write_outcome \<Rightarrow>
   delivery option \<Rightarrow> client \<Rightarrow> (error + event_stream) \<times> client \<times> effect list" where
  "client_subscribe api codec js op model req out first cl =
     (let (opened, c, eff) = subscribe api codec js op model req out first (client_conn cl)
      in set_client cl
           (and_then opened (\<lambda>(sid, rx). Inr \<lparr>es_stream_id = sid, es_rx = rx, es_closed = False\<rparr>), c, eff))"

text \<open>\<open>Stream::poll_next\<close>, from what polling the receiver gave.\<close>

definition poll_next ::
  "json_api \<Rightarrow> (json \<Rightarrow> json_error + 'ev) \<Rightarrow> delivery option poll \<Rightarrow> (error + 'ev) option poll" where
  "poll_next js de received = (case received of
      Ready (Some (Inr rpc)) \<Rightarrow> Ready (Some (decode_event js de rpc))
    | Ready (Some (Inl err)) \<Rightarrow> Ready (Some (Inl err))
    | Ready None \<Rightarrow> Ready None
    | Pending \<Rightarrow> Pending)"

text \<open>\<open>Drop\<close>, with the task it spawns run to its end.\<close>

definition drop_event_stream ::
  "('m, 'h, 'o) msg_api \<Rightarrow> ('m, 'd) codec \<Rightarrow> write_outcome \<Rightarrow> event_stream \<Rightarrow> client \<Rightarrow>
   event_stream \<times> client \<times> effect list" where
  "drop_event_stream api codec out es cl =
     (if \<not> es_closed es then
        (let (c, eff) = close_stream api codec (es_stream_id es) out (client_conn cl)
         in (es\<lparr>es_closed := True\<rparr>, cl\<lparr>client_conn := c\<rparr>, eff))
      else (es, cl, []))"

section \<open>The operations\<close>

text \<open>An operation that returns \<open>()\<close> ignores its decoded response.\<close>

definition update_state ::
  "('m, 'h, 'o) msg_api \<Rightarrow> ('m, 'd) codec \<Rightarrow> json_api \<Rightarrow> lifecycle_state \<Rightarrow> write_outcome \<Rightarrow> request_wait \<Rightarrow>
   client \<Rightarrow> (error + unit) \<times> client \<times> effect list" where
  "update_state api codec js state out w cl =
     client_request api codec js (de_update_state_response js)
       ''aws.greengrass#UpdateState'' ''aws.greengrass#UpdateStateRequest''
       (ser_update_state_request \<lparr>usr_state = state\<rparr>) out w cl"

definition subscribe_to_component_updates ::
  "('m, 'h, 'o) msg_api \<Rightarrow> ('m, 'd) codec \<Rightarrow> json_api \<Rightarrow> write_outcome \<Rightarrow> delivery option \<Rightarrow>
   client \<Rightarrow> (error + event_stream) \<times> client \<times> effect list" where
  "subscribe_to_component_updates api codec js out first cl =
     client_subscribe api codec js
       ''aws.greengrass#SubscribeToComponentUpdates'' ''aws.greengrass#SubscribeToComponentUpdatesRequest''
       (ser_subscribe_to_component_updates_request ()) out first cl"

definition defer_component_update ::
  "('m, 'h, 'o) msg_api \<Rightarrow> ('m, 'd) codec \<Rightarrow> json_api \<Rightarrow> string \<Rightarrow> i64 option \<Rightarrow> string option \<Rightarrow>
   write_outcome \<Rightarrow> request_wait \<Rightarrow> client \<Rightarrow> (error + unit) \<times> client \<times> effect list" where
  "defer_component_update api codec js deployment_id recheck_after_ms message out w cl =
     client_request api codec js (de_defer_component_update_response js)
       ''aws.greengrass#DeferComponentUpdate'' ''aws.greengrass#DeferComponentUpdateRequest''
       (ser_defer_component_update_request
          \<lparr>dcu_deployment_id = deployment_id, dcu_message = message, dcu_recheck_after_ms = recheck_after_ms\<rparr>)
       out w cl"

definition pause_component ::
  "('m, 'h, 'o) msg_api \<Rightarrow> ('m, 'd) codec \<Rightarrow> json_api \<Rightarrow> string \<Rightarrow> write_outcome \<Rightarrow> request_wait \<Rightarrow>
   client \<Rightarrow> (error + unit) \<times> client \<times> effect list" where
  "pause_component api codec js component_name out w cl =
     client_request api codec js (de_pause_component_response js)
       ''aws.greengrass#PauseComponent'' ''aws.greengrass#PauseComponentRequest''
       (ser_pause_component_request \<lparr>pcr_component_name = component_name\<rparr>) out w cl"

definition resume_component ::
  "('m, 'h, 'o) msg_api \<Rightarrow> ('m, 'd) codec \<Rightarrow> json_api \<Rightarrow> string \<Rightarrow> write_outcome \<Rightarrow> request_wait \<Rightarrow>
   client \<Rightarrow> (error + unit) \<times> client \<times> effect list" where
  "resume_component api codec js component_name out w cl =
     client_request api codec js (de_resume_component_response js)
       ''aws.greengrass#ResumeComponent'' ''aws.greengrass#ResumeComponentRequest''
       (ser_resume_component_request \<lparr>rcr_component_name = component_name\<rparr>) out w cl"

definition restart_component ::
  "('m, 'h, 'o) msg_api \<Rightarrow> ('m, 'd) codec \<Rightarrow> json_api \<Rightarrow> string \<Rightarrow> write_outcome \<Rightarrow> request_wait \<Rightarrow>
   client \<Rightarrow> (error + restart_component_response) \<times> client \<times> effect list" where
  "restart_component api codec js component_name out w cl =
     client_request api codec js (de_restart_component_response js)
       ''aws.greengrass#RestartComponent'' ''aws.greengrass#RestartComponentRequest''
       (ser_restart_component_request \<lparr>rsr_component_name = component_name\<rparr>) out w cl"

definition get_configuration ::
  "('m, 'h, 'o) msg_api \<Rightarrow> ('m, 'd) codec \<Rightarrow> json_api \<Rightarrow> string option \<Rightarrow> string list \<Rightarrow>
   write_outcome \<Rightarrow> request_wait \<Rightarrow> client \<Rightarrow>
   (error + get_configuration_response) \<times> client \<times> effect list" where
  "get_configuration api codec js component_name key_path out w cl =
     client_request api codec js (de_get_configuration_response js)
       ''aws.greengrass#GetConfiguration'' ''aws.greengrass#GetConfigurationRequest''
       (ser_get_configuration_request \<lparr>gcr_component_name = component_name, gcr_key_path = key_path\<rparr>)
       out w cl"

definition update_configuration ::
  "('m, 'h, 'o) msg_api \<Rightarrow> ('m, 'd) codec \<Rightarrow> json_api \<Rightarrow> string list option \<Rightarrow> 64 word \<Rightarrow> json \<Rightarrow>
   write_outcome \<Rightarrow> request_wait \<Rightarrow> client \<Rightarrow> (error + unit) \<times> client \<times> effect list" where
  "update_configuration api codec js key_path timestamp_ms value_to_merge out w cl =
     client_request api codec js (de_update_configuration_response js)
       ''aws.greengrass#UpdateConfiguration'' ''aws.greengrass#UpdateConfigurationRequest''
       (ser_update_configuration_request js
          \<lparr>ucr_key_path = key_path, ucr_timestamp = timestamp_ms, ucr_value_to_merge = value_to_merge\<rparr>)
       out w cl"

definition subscribe_to_configuration_update ::
  "('m, 'h, 'o) msg_api \<Rightarrow> ('m, 'd) codec \<Rightarrow> json_api \<Rightarrow> string option \<Rightarrow> string list \<Rightarrow>
   write_outcome \<Rightarrow> delivery option \<Rightarrow> client \<Rightarrow> (error + event_stream) \<times> client \<times> effect list" where
  "subscribe_to_configuration_update api codec js component_name key_path out first cl =
     client_subscribe api codec js
       ''aws.greengrass#SubscribeToConfigurationUpdate''
       ''aws.greengrass#SubscribeToConfigurationUpdateRequest''
       (ser_subscribe_to_configuration_update_request
          \<lparr>scu_component_name = component_name, scu_key_path = key_path\<rparr>)
       out first cl"

definition publish_to_topic ::
  "('m, 'h, 'o) msg_api \<Rightarrow> ('m, 'd) codec \<Rightarrow> json_api \<Rightarrow> base64_api \<Rightarrow> string \<Rightarrow> publish_message \<Rightarrow>
   write_outcome \<Rightarrow> request_wait \<Rightarrow> client \<Rightarrow> (error + unit) \<times> client \<times> effect list" where
  "publish_to_topic api codec js b64 topic message out w cl =
     client_request api codec js (de_publish_to_topic_response js)
       ''aws.greengrass#PublishToTopic'' ''aws.greengrass#PublishToTopicRequest''
       (ser_publish_to_topic_request b64 \<lparr>ptr_topic = topic, ptr_publish_message = message\<rparr>)
       out w cl"

definition subscribe_to_topic ::
  "('m, 'h, 'o) msg_api \<Rightarrow> ('m, 'd) codec \<Rightarrow> json_api \<Rightarrow> string \<Rightarrow> write_outcome \<Rightarrow> delivery option \<Rightarrow>
   client \<Rightarrow> (error + event_stream) \<times> client \<times> effect list" where
  "subscribe_to_topic api codec js topic out first cl =
     client_subscribe api codec js
       ''aws.greengrass#SubscribeToTopic'' ''aws.greengrass#SubscribeToTopicRequest''
       (ser_subscribe_to_topic_request \<lparr>str_topic = topic, str_receive_mode = None\<rparr>) out first cl"

definition publish_to_iot_core ::
  "('m, 'h, 'o) msg_api \<Rightarrow> ('m, 'd) codec \<Rightarrow> json_api \<Rightarrow> base64_api \<Rightarrow> string \<Rightarrow> qos \<Rightarrow> bytes \<Rightarrow>
   write_outcome \<Rightarrow> request_wait \<Rightarrow> client \<Rightarrow> (error + unit) \<times> client \<times> effect list" where
  "publish_to_iot_core api codec js b64 topic_name q body out w cl =
     client_request api codec js (de_publish_to_iot_core_response js)
       ''aws.greengrass#PublishToIoTCore'' ''aws.greengrass#PublishToIoTCoreRequest''
       (ser_publish_to_iot_core_request b64
          \<lparr>pic_topic_name = topic_name, pic_qos = q, pic_payload = Some (Blob body)\<rparr>)
       out w cl"

definition subscribe_to_iot_core ::
  "('m, 'h, 'o) msg_api \<Rightarrow> ('m, 'd) codec \<Rightarrow> json_api \<Rightarrow> string \<Rightarrow> qos \<Rightarrow> write_outcome \<Rightarrow>
   delivery option \<Rightarrow> client \<Rightarrow> (error + event_stream) \<times> client \<times> effect list" where
  "subscribe_to_iot_core api codec js topic_name q out first cl =
     client_subscribe api codec js
       ''aws.greengrass#SubscribeToIoTCore'' ''aws.greengrass#SubscribeToIoTCoreRequest''
       (ser_subscribe_to_iot_core_request \<lparr>sic_topic_name = topic_name, sic_qos = q\<rparr>) out first cl"

section \<open>What an operation puts on the wire\<close>

text \<open>
  \<open>activates name doc cl res\<close>: when the document and the frame can be encoded, the client sent exactly one
  message, on the next stream id, which the nucleus reads as the application message of operation \<open>name\<close>, of
  model \<open>name\<close> with \<open>Request\<close> appended, with the text of \<open>doc\<close> as its payload.
\<close>

definition activates ::
  "('m, 'h, 'o) msg_api \<Rightarrow> ('m, 'd) codec \<Rightarrow> json_api \<Rightarrow> string \<Rightarrow> json \<Rightarrow> client \<Rightarrow>
   'r \<times> client \<times> effect list \<Rightarrow> bool" where
  "activates api codec js name doc cl res \<longleftrightarrow>
     (let c = client_conn cl; c' = client_conn (fst (snd res)); sid = next_stream_id c in
      \<forall>body frame. to_vec js doc = Inr body \<longrightarrow>
        write_message_to codec (activate_message api sid name (name @ ''Request'') body) = Inr frame \<longrightarrow>
        next_stream_id c' = sid + 1 \<and> conn_writer c' = (conn_writer c)\<lparr>wire := wire (conn_writer c) @ frame\<rparr> \<and>
        (\<exists>m. write_message_to codec m = Inr frame \<and> last_str api OPERATION (msg_headers api m) = Some name \<and>
           parse api m = Inr \<lparr>message_type = ApplicationMessage, flags = FLAG_NONE,
             stream_id = sid, service_model_type = Some (name @ ''Request''), payload = body\<rparr>))"

lemma activate_operation:
  "msg_laws api \<Longrightarrow> last_str api OPERATION (msg_headers api (activate_message api sid name model body)) = Some name"
  by (simp add: activate_message_def int32_header_def string_header_def msg_lawsD)

lemma send_activate_ok:
  assumes "to_vec js doc = Inr body"
    and "write_message_to codec (activate_message api sid name model body) = Inr frame"
  shows "send_activate api codec js sid name model doc WriteOk c =
    (Sent, c\<lparr>conn_writer := (conn_writer c)\<lparr>wire := wire (conn_writer c) @ frame\<rparr>\<rparr>)"
  using assms by (simp add: send_activate_def write_message_def socket_write_def)

lemma finish_keeps_writer:
  "finish_request name sid w c = (r, c', e) \<Longrightarrow>
   conn_writer c' = conn_writer c \<and> next_stream_id c' = next_stream_id c"
  "finish_subscribe js sid ch first c = (r', c', e) \<Longrightarrow>
   conn_writer c' = conn_writer c \<and> next_stream_id c' = next_stream_id c"
  by (auto simp: finish_request_def finish_subscribe_def unregister_def split: request_wait.splits
      option.splits sum.splits prod.splits if_splits)

lemma register_keeps_writer:
  "register mk sid c = (ch, c', eff) \<Longrightarrow>
   conn_writer c' = conn_writer c \<and> next_stream_id c' = next_stream_id c"
  by (auto simp: register_def split: prod.splits)

lemma call_sends:
  assumes "to_vec js doc = Inr body"
    and "write_message_to codec (activate_message api (next_stream_id c) name model body) = Inr frame"
  shows "conn_writer (fst (snd (request api codec js name model doc WriteOk w c))) =
      (conn_writer c)\<lparr>wire := wire (conn_writer c) @ frame\<rparr>"
    and "next_stream_id (fst (snd (request api codec js name model doc WriteOk w c))) = next_stream_id c + 1"
    and "conn_writer (fst (snd (subscribe api codec js name model doc WriteOk first c))) =
      (conn_writer c)\<lparr>wire := wire (conn_writer c) @ frame\<rparr>"
    and "next_stream_id (fst (snd (subscribe api codec js name model doc WriteOk first c))) = next_stream_id c + 1"
  by (auto simp: request_def subscribe_def alloc_stream_id_def send_activate_ok [OF assms] Let_def
      split: prod.splits dest!: register_keeps_writer finish_keeps_writer)

lemma call_activates:
  assumes laws: "msg_laws api" and model: "model = name @ ''Request''"
  shows "activates api codec js name doc cl (client_request api codec js de name model doc WriteOk w cl)"
    and "activates api codec js name doc cl (client_subscribe api codec js name model doc WriteOk first cl)"
proof -
  let ?c = "client_conn cl"
  have conns: "client_conn (fst (snd (client_request api codec js de name model doc WriteOk w cl))) =
      fst (snd (request api codec js name model doc WriteOk w ?c))"
    "client_conn (fst (snd (client_subscribe api codec js name model doc WriteOk first cl))) =
      fst (snd (subscribe api codec js name model doc WriteOk first ?c))"
    by (simp_all add: client_request_def client_subscribe_def set_client_def split: prod.splits)
  have "\<exists>m. write_message_to codec m = Inr frame \<and> last_str api OPERATION (msg_headers api m) = Some name \<and>
      parse api m = Inr \<lparr>message_type = ApplicationMessage, flags = FLAG_NONE,
        stream_id = next_stream_id ?c, service_model_type = Some model, payload = body\<rparr>"
    if "write_message_to codec (activate_message api (next_stream_id ?c) name model body) = Inr frame" for body frame
    using that activate_operation [OF laws]
      activate_msg.parse_built_any [OF laws, of "next_stream_id ?c" name model body] by blast
  then show "activates api codec js name doc cl (client_request api codec js de name model doc WriteOk w cl)"
    "activates api codec js name doc cl (client_subscribe api codec js name model doc WriteOk first cl)"
    unfolding activates_def Let_def conns model [symmetric] by (simp_all add: call_sends)
qed

text \<open>
  C32. Each of the thirteen operations, whatever the answer: when its document and its frame can be encoded
  and the write succeeds, the client sends one message, on a fresh stream, for the operation and the
  model of that name, with exactly this document, and writes nothing else.
\<close>

theorem operations_on_the_wire:
  assumes "msg_laws api"
  shows "activates api codec js ''aws.greengrass#UpdateState''
      (JObj [(''state'', JStr (lifecycle_state_name state))]) cl
      (update_state api codec js state WriteOk w cl) \<and>
    activates api codec js ''aws.greengrass#SubscribeToComponentUpdates'' (JObj []) cl
      (subscribe_to_component_updates api codec js WriteOk first cl) \<and>
    activates api codec js ''aws.greengrass#DeferComponentUpdate''
      (JObj ([(''deploymentId'', JStr deployment)] @
        (case msg of None \<Rightarrow> [] | Some s \<Rightarrow> [(''message'', JStr s)]) @
        (case ms of None \<Rightarrow> [] | Some n \<Rightarrow> [(''recheckAfterMs'', JNum (show_int (sint n)))]))) cl
      (defer_component_update api codec js deployment ms msg WriteOk w cl) \<and>
    activates api codec js ''aws.greengrass#PauseComponent'' (JObj [(''componentName'', JStr name)]) cl
      (pause_component api codec js name WriteOk w cl) \<and>
    activates api codec js ''aws.greengrass#ResumeComponent'' (JObj [(''componentName'', JStr name)]) cl
      (resume_component api codec js name WriteOk w cl) \<and>
    activates api codec js ''aws.greengrass#RestartComponent'' (JObj [(''componentName'', JStr name)]) cl
      (restart_component api codec js name WriteOk w cl) \<and>
    activates api codec js ''aws.greengrass#GetConfiguration''
      (JObj ((case oname of None \<Rightarrow> [] | Some s \<Rightarrow> [(''componentName'', JStr s)]) @
        [(''keyPath'', JArr (map JStr path))])) cl
      (get_configuration api codec js oname path WriteOk w cl) \<and>
    activates api codec js ''aws.greengrass#UpdateConfiguration''
      (JObj ((case opath of None \<Rightarrow> [] | Some p \<Rightarrow> [(''keyPath'', JArr (map JStr p))]) @
        [(''timestamp'', if f64_finite time then JNum (f64_text js time) else JNull),
         (''valueToMerge'', val)])) cl
      (update_configuration api codec js opath time val WriteOk w cl) \<and>
    activates api codec js ''aws.greengrass#SubscribeToConfigurationUpdate''
      (JObj ((case oname of None \<Rightarrow> [] | Some s \<Rightarrow> [(''componentName'', JStr s)]) @
        [(''keyPath'', JArr (map JStr path))])) cl
      (subscribe_to_configuration_update api codec js oname path WriteOk first cl) \<and>
    activates api codec js ''aws.greengrass#PublishToTopic''
      (JObj [(''topic'', JStr topic), (''publishMessage'', JObj (
        (case pm_json_message pm of None \<Rightarrow> [] | Some j \<Rightarrow>
           [(''jsonMessage'', JObj [(''message'', jmo_message j)])]) @
        (case pm_binary_message pm of None \<Rightarrow> [] | Some b \<Rightarrow>
           [(''binaryMessage'', JObj [(''message'', JStr (b64_encode b64 (bmo_message b)))])])))]) cl
      (publish_to_topic api codec js b64 topic pm WriteOk w cl) \<and>
    activates api codec js ''aws.greengrass#SubscribeToTopic'' (JObj [(''topic'', JStr topic)]) cl
      (subscribe_to_topic api codec js topic WriteOk first cl) \<and>
    activates api codec js ''aws.greengrass#PublishToIoTCore''
      (JObj [(''topicName'', JStr topic), (''qos'', JStr (if q = AtMostOnce then ''0'' else ''1'')),
        (''payload'', JStr (b64_encode b64 body))]) cl
      (publish_to_iot_core api codec js b64 topic q body WriteOk w cl) \<and>
    activates api codec js ''aws.greengrass#SubscribeToIoTCore''
      (JObj [(''topicName'', JStr topic), (''qos'', JStr (if q = AtMostOnce then ''0'' else ''1''))]) cl
      (subscribe_to_iot_core api codec js topic q WriteOk first cl)"
proof -
  have req: "activates api codec js name doc cl (client_request api codec js de name model doc' WriteOk w cl)"
    if "doc' = doc" "model = name @ ''Request''" for name model doc doc' and de :: "json \<Rightarrow> json_error + 'z"
    unfolding that(1) by (rule call_activates(1) [OF assms that(2)])
  have sub: "activates api codec js name doc cl (client_subscribe api codec js name model doc' WriteOk first cl)"
    if "doc' = doc" "model = name @ ''Request''" for name model doc doc'
    unfolding that(1) by (rule call_activates(2) [OF assms that(2)])
  note docs = ser_member_def ser_opt_member_def ser_strings_def ser_i64_def ser_f64_def ser_qos_def ser_blob_def
    ser_update_state_request_def ser_lifecycle_state_def ser_subscribe_to_component_updates_request_def
    ser_defer_component_update_request_def ser_pause_component_request_def ser_resume_component_request_def
    ser_restart_component_request_def ser_get_configuration_request_def ser_update_configuration_request_def
    ser_subscribe_to_configuration_update_request_def ser_publish_to_topic_request_def
    ser_publish_message_def ser_json_message_out_def ser_binary_message_out_def
    ser_subscribe_to_topic_request_def ser_publish_to_iot_core_request_def ser_subscribe_to_iot_core_request_def
  show ?thesis
    unfolding update_state_def subscribe_to_component_updates_def defer_component_update_def
      pause_component_def resume_component_def restart_component_def get_configuration_def
      update_configuration_def subscribe_to_configuration_update_def publish_to_topic_def
      subscribe_to_topic_def publish_to_iot_core_def subscribe_to_iot_core_def
    by (intro conjI req sub) (simp_all add: docs split: option.splits qos.splits)
qed

theorem operations_on_the_wire_witness:
  "\<exists>m. parse pair_api m = Inr \<lparr>message_type = ApplicationMessage, flags = FLAG_NONE, stream_id = 3,
     service_model_type = Some ''aws.greengrass#UpdateStateRequest'', payload = [7]\<rparr>"
  using operations_on_the_wire [OF msg_laws_pair_api,
      where js = "(table_json [])\<lparr>json_text := \<lambda>_. Inr [7]\<rparr>" and codec = sink_codec and state = Running and w = Elapsed
        and cl = "\<lparr>client_conn = demo_connection\<lparr>next_stream_id := 3\<rparr>\<rparr>", THEN conjunct1]
  by (auto simp: activates_def Let_def to_vec_def sink_codec_def)

section \<open>Outcomes\<close>

text \<open>
  C31. Every outcome of a request, and what it leaves behind. The result is, in this order: the
  serialization error; the framing error; the I/O error of the write, with the socket shut down; the
  decoded answer; the error delivered instead of one; \<open>ConnectionClosed\<close> when the sender was dropped;
  the timeout of this operation with the configured duration. The stream is taken out of the registry again
  on a failed write and on a timeout, and is left there when serialization fails.
\<close>

theorem request_outcomes:
  assumes "client_request api codec js de op model req out w cl = (res, cl', eff)"
    and "c = client_conn cl" and "c' = client_conn cl'"
    and "hm_get (next_stream_id c) (conn_registry c) = None"
    and "to_vec js req = text"
    and "write_message_to codec (activate_message api (next_stream_id c) op model body) = encoded"
  shows "(\<forall>e. text = Inl e \<longrightarrow> res = Inl (Payload e) \<and>
       conn_registry c' = (next_stream_id c, Request (next_chan c)) # conn_registry c) \<and>
    (text = Inr body \<longrightarrow>
      (case encoded of
         Inl message \<Rightarrow> res = Inl (Frame message) \<and> conn_registry c' = conn_registry c
       | Inr frame \<Rightarrow> (case out of
           WriteErr n err \<Rightarrow> res = Inl (Io err) \<and> shut (conn_writer c') \<and> conn_registry c' = conn_registry c
         | WriteOk \<Rightarrow> (case w of
             Received (Inr rpc) \<Rightarrow> res = decode_payload js de rpc
           | Received (Inl err) \<Rightarrow> res = Inl err
           | SenderGone \<Rightarrow> res = Inl ConnectionClosed
           | Elapsed \<Rightarrow> res = Inl (Timeout op (request_timeout c)) \<and> conn_registry c' = conn_registry c))))"
proof -
  have reg: "register Request (next_stream_id c) (c\<lparr>next_stream_id := next_stream_id c + 1\<rparr>) =
      (next_chan c, c\<lparr>next_stream_id := next_stream_id c + 1, next_chan := next_chan c + 1,
         conn_registry := (next_stream_id c, Request (next_chan c)) # conn_registry c\<rparr>, [])"
    using assms(4) hm_remove_absent [OF assms(4)]
    by (simp add: register_def reg_insert_def hm_insert_def hm_remove_def)
  have undone: "reg_remove (next_stream_id c) ((next_stream_id c, s) # conn_registry c) =
      (conn_registry c, [SenderDrop (sink_chan s)])" for s
    using hm_remove_absent [OF assms(4)] by (simp add: reg_remove_def hm_remove_def hm_get_def)
  note call_defs = client_request_def request_def alloc_stream_id_def set_client_def send_activate_def
    write_message_def socket_write_def finish_request_def unregister_def
  show ?thesis
    using assms(1-3,5,6) reg undone
    by (auto simp: call_defs Let_def split: sum.splits write_outcome.splits request_wait.splits prod.splits)
qed

theorem request_outcomes_witness:
  "fst (client_request pair_api sink_codec (table_json []) (\<lambda>_. Inr ()) ''op'' ''opRequest'' JNull WriteOk Elapsed
      \<lparr>client_conn = demo_connection\<lparr>next_stream_id := 3\<rparr>\<rparr>) = Inl (Payload (JsonError ''key must be a string''))"
proof -
  let ?cl = "\<lparr>client_conn = demo_connection\<lparr>next_stream_id := 3\<rparr>\<rparr>"
  obtain res cl' eff where run: "client_request pair_api sink_codec (table_json []) (\<lambda>_. Inr ()) ''op'' ''opRequest''
      JNull WriteOk Elapsed ?cl = (res, cl', eff)"
    by (cases "client_request pair_api sink_codec (table_json []) (\<lambda>_. Inr ()) ''op'' ''opRequest''
      JNull WriteOk Elapsed ?cl")
  have "hm_get 3 (conn_registry demo_connection) = None"
    by (simp add: demo_connection_def hm_get_def)
  then show ?thesis
    using request_outcomes [OF run refl refl _ refl refl, of "[]"] run
    by (simp add: to_vec_def table_json_def)
qed

text \<open>
  An empty response payload is read as the empty object: every operation accepts it, with the
  optional fields of its response absent. An event, in contrast, is read as it is.
\<close>

theorem empty_response_is_accepted:
  assumes "json_read js (bytes_of_str ''{}'') = Inr (JObj [])" and "payload rpc = []"
  shows "decode_payload js (de_update_state_response js) rpc = Inr () \<and>
    decode_payload js (de_defer_component_update_response js) rpc = Inr () \<and>
    decode_payload js (de_pause_component_response js) rpc = Inr () \<and>
    decode_payload js (de_resume_component_response js) rpc = Inr () \<and>
    decode_payload js (de_restart_component_response js) rpc =
      Inr \<lparr>rsp_restart_status = None, rsp_message = None\<rparr> \<and>
    decode_payload js (de_get_configuration_response js) rpc =
      Inr \<lparr>gcs_component_name = None, gcs_value = None\<rparr> \<and>
    decode_payload js (de_update_configuration_response js) rpc = Inr () \<and>
    decode_payload js (de_publish_to_topic_response js) rpc = Inr () \<and>
    decode_payload js (de_publish_to_iot_core_response js) rpc = Inr () \<and>
    (\<forall>e. json_read js [] = Inl e \<longrightarrow> decode_event js de rpc = Inl (Payload e))"
proof -
  have dec: "decode_payload js d rpc = map_err Payload (d (JObj []))" for d :: "json \<Rightarrow> json_error + 'z"
    using assms by (simp add: decode_payload_def from_slice_def from_json_error_def [abs_def])
  show ?thesis using assms
    by (simp add: dec decode_event_def from_slice_def de_struct_def de_default_field_def
        de_update_state_response_def de_defer_component_update_response_def
        de_pause_component_response_def de_resume_component_response_def de_restart_component_response_def
        de_get_configuration_response_def de_update_configuration_response_def
        de_publish_to_topic_response_def de_publish_to_iot_core_response_def)
qed

theorem empty_response_is_accepted_witness:
  "decode_payload ((table_json [])\<lparr>json_read := \<lambda>_. Inr (JObj [])\<rparr>)
     (de_restart_component_response ((table_json [])\<lparr>json_read := \<lambda>_. Inr (JObj [])\<rparr>))
     \<lparr>message_type = ApplicationMessage, flags = 0, stream_id = 1, service_model_type = None, payload = []\<rparr> =
   Inr \<lparr>rsp_restart_status = None, rsp_message = None\<rparr>"
  using empty_response_is_accepted [of "(table_json [])\<lparr>json_read := \<lambda>_. Inr (JObj [])\<rparr>"
      "\<lparr>message_type = ApplicationMessage, flags = 0, stream_id = 1, service_model_type = None, payload = []\<rparr>"]
  by simp

text \<open>
  Dropping an event stream closes it once: its stream leaves the registry, its sender is dropped,
  and the nucleus is sent one message, which it reads as the end of that stream; dropping it again
  does nothing.
\<close>

theorem dropping_closes_once:
  assumes "msg_laws api" and "write_message_to codec (terminate_message api (es_stream_id es)) = Inr frame"
    and "\<not> es_closed es" and "drop_event_stream api codec WriteOk es cl = (es', cl', eff)"
    and "c = client_conn cl" and "c' = client_conn cl'"
  shows "hm_get (es_stream_id es) (conn_registry c') = None \<and>
    (\<forall>sid. sid \<noteq> es_stream_id es \<longrightarrow> hm_get sid (conn_registry c') = hm_get sid (conn_registry c)) \<and>
    eff = (case hm_get (es_stream_id es) (conn_registry c) of None \<Rightarrow> [] | Some s \<Rightarrow> [SenderDrop (sink_chan s)]) \<and>
    wire (conn_writer c') = wire (conn_writer c) @ frame \<and>
    (\<exists>rpc. parse api (terminate_message api (es_stream_id es)) = Inr rpc \<and>
       stream_id rpc = es_stream_id es \<and> terminates_stream rpc) \<and>
    drop_event_stream api codec out es' cl' = (es', cl', [])"
proof -
  have parsed: "parse api (terminate_message api (es_stream_id es)) =
      Inr \<lparr>message_type = ApplicationMessage, flags = FLAG_TERMINATE_STREAM, stream_id = es_stream_id es,
        service_model_type = None, payload = []\<rparr>"
    by (rule terminate_msg.parse_built_any [OF assms(1)])
  show ?thesis
    using assms(2-6) parsed
    by (auto simp: drop_event_stream_def close_stream_def unregister_def reg_remove_def send_terminate_def
        write_message_def socket_write_def terminates_stream_def FLAG_TERMINATE_STREAM_def split: prod.splits)
qed

theorem dropping_closes_once_witness:
  "hm_get 2 (conn_registry (client_conn (fst (snd (drop_event_stream pair_api sink_codec WriteOk
     \<lparr>es_stream_id = 2, es_rx = 1, es_closed = False\<rparr> \<lparr>client_conn = demo_connection\<rparr>))))) = None"
proof -
  obtain es' cl' eff where run: "drop_event_stream pair_api sink_codec WriteOk
     \<lparr>es_stream_id = 2, es_rx = 1, es_closed = False\<rparr> \<lparr>client_conn = demo_connection\<rparr> = (es', cl', eff)"
    by (cases "drop_event_stream pair_api sink_codec WriteOk
     \<lparr>es_stream_id = 2, es_rx = 1, es_closed = False\<rparr> \<lparr>client_conn = demo_connection\<rparr>")
  show ?thesis
    using dropping_closes_once [OF msg_laws_pair_api _ _ run refl refl, of "[]"] run
    by (simp add: sink_codec_def)
qed

end
