(* ===== verification/Nucleus.thy ===== *)
theory Nucleus
  imports Client
begin

text \<open>
  The other end of the socket, as the repository has it: the mock nucleus of \<open>tests/support/mod.rs\<close>, with
  its own reading of headers, its handshake and its operation loop, and what client and nucleus do
  together. The channels to the test (\<open>seen\<close>, \<open>frames\<close>) are the lists of what was sent on them.
\<close>

section \<open>Constants and messages\<close>

definition MT_APPLICATION_MESSAGE :: i32 where "MT_APPLICATION_MESSAGE = 0"
definition MT_APPLICATION_ERROR :: i32 where "MT_APPLICATION_ERROR = 1"
definition MT_PING :: i32 where "MT_PING = 2"
definition MT_CONNECT :: i32 where "MT_CONNECT = 4"
definition MT_CONNECT_ACK :: i32 where "MT_CONNECT_ACK = 5"
definition MOCK_FLAG_CONNECTION_ACCEPTED :: i32 where "MOCK_FLAG_CONNECTION_ACCEPTED = 0x1"
definition MOCK_FLAG_TERMINATE_STREAM :: i32 where "MOCK_FLAG_TERMINATE_STREAM = 0x2"

lemmas mock_constants =
  MT_APPLICATION_MESSAGE_def MT_APPLICATION_ERROR_def MT_PING_def MT_CONNECT_def MT_CONNECT_ACK_def
  MOCK_FLAG_CONNECTION_ACCEPTED_def MOCK_FLAG_TERMINATE_STREAM_def

datatype behavior =
    Respond json
  | Error string string
  | Subscribe json "(string \<times> json) list"
  | Silent

datatype control = SendPing bytes | SendProtocolError i32 string | Close

record observed_frame =
  of_message_type :: i32
  of_stream_id :: i32
  of_flags :: i32
  of_payload :: bytes

definition mock_int32 :: "('m, 'h, 'o) msg_api \<Rightarrow> string \<Rightarrow> i32 \<Rightarrow> 'h" where
  "mock_int32 api name v = header_new api name (Int32 v)"

definition mock_string :: "('m, 'h, 'o) msg_api \<Rightarrow> string \<Rightarrow> string \<Rightarrow> 'h" where
  "mock_string api name v = header_new api name (Str v)"

definition mock_as_i32 :: "('m, 'h, 'o) msg_api \<Rightarrow> 'h \<Rightarrow> i32" where
  "mock_as_i32 api h = (case header_value api h of
      Int32 v \<Rightarrow> v | Int16 v \<Rightarrow> scast v | Byte v \<Rightarrow> scast v | _ \<Rightarrow> 0)"

fun mock_parse_headers ::
  "('m, 'h, 'o) msg_api \<Rightarrow> 'h list \<Rightarrow> i32 \<times> i32 \<times> i32 \<times> string option \<Rightarrow> i32 \<times> i32 \<times> i32 \<times> string option" where
  "mock_parse_headers api [] acc = acc"
| "mock_parse_headers api (h # hs) (mt, fl, sid, smt) =
     mock_parse_headers api hs
       (if header_name api h = '':message-type'' then (mock_as_i32 api h, fl, sid, smt)
        else if header_name api h = '':message-flags'' then (mt, mock_as_i32 api h, sid, smt)
        else if header_name api h = '':stream-id'' then (mt, fl, mock_as_i32 api h, smt)
        else if header_name api h = ''service-model-type'' then
          (mt, fl, sid, (case header_value api h of Str s \<Rightarrow> Some s | _ \<Rightarrow> smt))
        else (mt, fl, sid, smt))"

definition mock_parse :: "('m, 'h, 'o) msg_api \<Rightarrow> 'm \<Rightarrow> i32 \<times> i32 \<times> i32 \<times> string option \<times> bytes" where
  "mock_parse api m =
     (let (mt, fl, sid, smt) = mock_parse_headers api (msg_headers api m) (0, 0, 0, None)
      in (mt, fl, sid, smt, msg_payload api m))"

fun operation_of_headers :: "('m, 'h, 'o) msg_api \<Rightarrow> 'h list \<Rightarrow> string option" where
  "operation_of_headers api [] = None"
| "operation_of_headers api (h # hs) =
     (if header_name api h = ''operation'' then
        (case header_value api h of Str s \<Rightarrow> Some s | _ \<Rightarrow> operation_of_headers api hs)
      else operation_of_headers api hs)"

definition operation_header :: "('m, 'h, 'o) msg_api \<Rightarrow> 'm \<Rightarrow> string option" where
  "operation_header api m = operation_of_headers api (msg_headers api m)"

text \<open>The replies; \<open>to_vec(..).unwrap()\<close> panics (\<open>None\<close>) on a document that cannot be written.\<close>

definition app_message ::
  "('m, 'h, 'o) msg_api \<Rightarrow> json_api \<Rightarrow> i32 \<Rightarrow> string \<Rightarrow> json \<Rightarrow> bool \<Rightarrow> 'm option" where
  "app_message api js sid smt doc terminate = (case to_vec js doc of
      Inl _ \<Rightarrow> None
    | Inr body \<Rightarrow> Some (fold (\<lambda>h m. msg_add_header api m h)
        [mock_int32 api '':message-type'' MT_APPLICATION_MESSAGE,
         mock_int32 api '':message-flags'' (if terminate then MOCK_FLAG_TERMINATE_STREAM else 0),
         mock_int32 api '':stream-id'' sid,
         mock_string api '':content-type'' ''application/json'',
         mock_string api ''service-model-type'' smt] (msg_new api body)))"

definition app_error :: "('m, 'h, 'o) msg_api \<Rightarrow> json_api \<Rightarrow> i32 \<Rightarrow> string \<Rightarrow> json \<Rightarrow> 'm option" where
  "app_error api js sid model doc = (case to_vec js doc of
      Inl _ \<Rightarrow> None
    | Inr body \<Rightarrow> Some (fold (\<lambda>h m. msg_add_header api m h)
        [mock_int32 api '':message-type'' MT_APPLICATION_ERROR,
         mock_int32 api '':message-flags'' MOCK_FLAG_TERMINATE_STREAM,
         mock_int32 api '':stream-id'' sid,
         mock_string api '':content-type'' ''application/json'',
         mock_string api ''service-model-type'' model] (msg_new api body)))"

definition connect_ack :: "('m, 'h, 'o) msg_api \<Rightarrow> bool \<Rightarrow> 'm" where
  "connect_ack api accepted = fold (\<lambda>h m. msg_add_header api m h)
     [mock_int32 api '':message-type'' MT_CONNECT_ACK,
      mock_int32 api '':message-flags'' (if accepted then MOCK_FLAG_CONNECTION_ACCEPTED else 0),
      mock_int32 api '':stream-id'' 0] (msg_new api [])"

definition control_message :: "('m, 'h, 'o) msg_api \<Rightarrow> control \<Rightarrow> 'm option" where
  "control_message api command = (case command of
      SendPing body \<Rightarrow> Some (fold (\<lambda>h m. msg_add_header api m h)
        [mock_int32 api '':message-type'' MT_PING, mock_int32 api '':message-flags'' 0,
         mock_int32 api '':stream-id'' 0] (msg_new api body))
    | SendProtocolError mt body \<Rightarrow> Some (fold (\<lambda>h m. msg_add_header api m h)
        [mock_int32 api '':message-type'' mt, mock_int32 api '':message-flags'' 0,
         mock_int32 api '':stream-id'' 0, mock_string api '':content-type'' ''application/json'']
        (msg_new api (bytes_of_str body)))
    | Close \<Rightarrow> None)"

section \<open>Reading, writing and the two parts of the conversation\<close>

text \<open>
  \<open>read_frame\<close> is the loop of \<open>FramedReader::next_frame\<close> with an I/O error for a frame that does not decode;
  \<open>write_frame\<close> likewise.
\<close>

definition invalid_data :: "string \<Rightarrow> io_error" where
  "invalid_data text = \<lparr>io_kind = OtherKind ''InvalidData'', io_text = text\<rparr>"

definition mock_read_frame ::
  "('m, 'd) codec \<Rightarrow> 'd framed_reader \<Rightarrow> read_result list \<Rightarrow>
   (io_error + 'm option) poll \<times> 'd framed_reader \<times> read_result list" where
  "mock_read_frame codec r reads = (case next_frame codec r reads of
      (Pending, r', reads') \<Rightarrow> (Pending, r', reads')
    | (Ready (Inr f), r', reads') \<Rightarrow> (Ready (Inr f), r', reads')
    | (Ready (Inl (Io err)), r', reads') \<Rightarrow> (Ready (Inl err), r', reads')
    | (Ready (Inl err), r', reads') \<Rightarrow> (Ready (Inl (invalid_data (error_display err))), r', reads'))"

definition mock_write_frame ::
  "('m, 'd) codec \<Rightarrow> 'm \<Rightarrow> write_outcome \<Rightarrow> writer \<Rightarrow> (io_error + unit) \<times> writer" where
  "mock_write_frame codec m out wr = (case write_message_to codec m of
      Inl text \<Rightarrow> (Inl (invalid_data text), wr)
    | Inr b \<Rightarrow> socket_write b out wr)"

text \<open>
  The frames of one turn, each built and then written; \<open>None\<close> is one whose construction panics.
  \<open>Going\<close>: the loop continues; the others are how \<open>handle_conn\<close> ends.
\<close>

datatype turn_end = Going | Done | Failed io_error | Panicked

fun mock_write_frames ::
  "('m, 'd) codec \<Rightarrow> (nat \<Rightarrow> write_outcome) \<Rightarrow> nat \<Rightarrow> 'm option list \<Rightarrow> writer \<Rightarrow> turn_end \<times> writer" where
  "mock_write_frames codec outs i [] wr = (Going, wr)"
| "mock_write_frames codec outs i (None # ms) wr = (Panicked, wr)"
| "mock_write_frames codec outs i (Some m # ms) wr = (case mock_write_frame codec m (outs i) wr of
      (Inl err, wr') \<Rightarrow> (Failed err, wr')
    | (Inr _, wr') \<Rightarrow> mock_write_frames codec outs (Suc i) ms wr')"

text \<open>
  The answer to the first frame: whether the token is the expected one, and the acknowledgement. The
  assertion that it is a Connect panics. A document keeps the last of two members of a name.
\<close>

definition value_get :: "string \<Rightarrow> json \<Rightarrow> json option" where
  "value_get name v = (case v of JObj members \<Rightarrow> map_of (rev members) name | _ \<Rightarrow> None)"

definition value_as_str :: "json \<Rightarrow> string option" where
  "value_as_str v = (case v of JStr s \<Rightarrow> Some s | _ \<Rightarrow> None)"

definition nucleus_handshake ::
  "('m, 'h, 'o) msg_api \<Rightarrow> json_api \<Rightarrow> string \<Rightarrow> 'm \<Rightarrow> (bool \<times> 'm) option" where
  "nucleus_handshake api js expected_token m =
     (let (mt, _, _, _, body) = mock_parse api m in
      if mt \<noteq> MT_CONNECT then None
      else let token = (case json_read js body of
                 Inl _ \<Rightarrow> None
               | Inr v \<Rightarrow> Option.bind (value_get ''authToken'' v) value_as_str);
               accepted = (token = Some expected_token)
           in Some (accepted, connect_ack api accepted))"

text \<open>What the loop makes of a frame: the replies of the operation's behavior.\<close>

definition behavior_replies ::
  "('m, 'h, 'o) msg_api \<Rightarrow> json_api \<Rightarrow> i32 \<Rightarrow> string \<Rightarrow> behavior \<Rightarrow> 'm option list" where
  "behavior_replies api js sid op beh = (case beh of
      Respond doc \<Rightarrow> [app_message api js sid (op @ ''Response'') doc True]
    | Error model message \<Rightarrow> [app_error api js sid model (JObj [(''message'', JStr message)])]
    | Subscribe ack events \<Rightarrow> app_message api js sid (op @ ''Response'') ack False #
        map (\<lambda>(model, ev). app_message api js sid model ev False) events
    | Silent \<Rightarrow> [])"

record nucleus =
  nuc_writer :: writer
  nuc_seen :: "(string \<times> json) list"
  nuc_frames :: "observed_frame list"

datatype 'm nucleus_event = Incoming "io_error + 'm option" | Command control

definition nucleus_send ::
  "('m, 'd) codec \<Rightarrow> (nat \<Rightarrow> write_outcome) \<Rightarrow> 'm option list \<Rightarrow> nucleus \<Rightarrow> turn_end \<times> nucleus" where
  "nucleus_send codec outs ms nu = (case mock_write_frames codec outs 0 ms (nuc_writer nu) of
      (end, wr) \<Rightarrow> (end, nu\<lparr>nuc_writer := wr\<rparr>))"

definition nucleus_turn ::
  "('m, 'h, 'o) msg_api \<Rightarrow> ('m, 'd) codec \<Rightarrow> json_api \<Rightarrow> (string \<rightharpoonup> behavior) \<Rightarrow> (nat \<Rightarrow> write_outcome) \<Rightarrow>
   'm nucleus_event \<Rightarrow> nucleus \<Rightarrow> turn_end \<times> nucleus" where
  "nucleus_turn api codec js behavior outs ev nu = (case ev of
      Command command \<Rightarrow> (case control_message api command of
          Some m \<Rightarrow> nucleus_send codec outs [Some m] nu
        | None \<Rightarrow> (Done, nu))
    | Incoming (Inl err) \<Rightarrow> (Failed err, nu)
    | Incoming (Inr None) \<Rightarrow> (Done, nu)
    | Incoming (Inr (Some m)) \<Rightarrow>
        (let (mt, fl, sid, _, body) = mock_parse api m;
             nu1 = nu\<lparr>nuc_frames := nuc_frames nu @ [\<lparr>of_message_type = mt, of_stream_id = sid, of_flags = fl, of_payload = body\<rparr>]\<rparr>
         in if mt \<noteq> MT_APPLICATION_MESSAGE then (Going, nu1)
            else if fl AND MOCK_FLAG_TERMINATE_STREAM \<noteq> 0 \<and> body = [] then (Going, nu1)
            else (let payload_json = (case json_read js body of Inl _ \<Rightarrow> JNull | Inr v \<Rightarrow> v) in
              case operation_header api m of
                None \<Rightarrow> (Going, nu1)
              | Some op \<Rightarrow>
                  (let nu2 = nu1\<lparr>nuc_seen := nuc_seen nu1 @ [(op, payload_json)]\<rparr> in
                   case behavior op of
                     None \<Rightarrow> (Going, nu2)
                   | Some beh \<Rightarrow> nucleus_send codec outs (behavior_replies api js sid op beh) nu2))))"

fun nucleus_loop ::
  "('m, 'h, 'o) msg_api \<Rightarrow> ('m, 'd) codec \<Rightarrow> json_api \<Rightarrow> (string \<rightharpoonup> behavior) \<Rightarrow>
   (nat \<Rightarrow> nat \<Rightarrow> write_outcome) \<Rightarrow> nat \<Rightarrow> 'm nucleus_event list \<Rightarrow> nucleus \<Rightarrow> turn_end \<times> nucleus" where
  "nucleus_loop api codec js behavior outs i [] nu = (Going, nu)"
| "nucleus_loop api codec js behavior outs i (ev # evs) nu =
     (case nucleus_turn api codec js behavior (outs i) ev nu of
        (Going, nu') \<Rightarrow> nucleus_loop api codec js behavior outs (Suc i) evs nu'
      | (end, nu') \<Rightarrow> (end, nu'))"

section \<open>Client and nucleus read each other\<close>

text \<open>The two readings of a header list agree on what the two sides write.\<close>

lemma mock_names [simp]:
  "MESSAGE_TYPE = '':message-type''" "MESSAGE_FLAGS = '':message-flags''" "STREAM_ID = '':stream-id''"
  "SERVICE_MODEL_TYPE = ''service-model-type''" "CONTENT_TYPE = '':content-type''" "OPERATION = ''operation''"
  "VERSION = '':version''"
  by (simp_all add: header_names)

lemma mock_parse_connect:
  "msg_laws api \<Longrightarrow> mock_parse api (connect_message api body) = (MT_CONNECT, 0, 0, None, body)"
  by (simp add: mock_parse_def connect_message_def int32_header_def string_header_def msg_lawsD
      mock_as_i32_def mock_constants FLAG_NONE_def)

lemma mock_parse_activate:
  "msg_laws api \<Longrightarrow> mock_parse api (activate_message api sid op model body) =
     (MT_APPLICATION_MESSAGE, 0, sid, Some model, body) \<and>
   operation_header api (activate_message api sid op model body) = Some op"
  by (simp add: mock_parse_def operation_header_def activate_message_def int32_header_def string_header_def
      msg_lawsD mock_as_i32_def mock_constants FLAG_NONE_def)

lemma parse_connect_ack:
  "msg_laws api \<Longrightarrow> parse api (connect_ack api accepted) = Inr \<lparr>message_type = ConnectAck,
     flags = (if accepted then FLAG_CONNECTION_ACCEPTED else 0), stream_id = 0, service_model_type = None, payload = []\<rparr>"
  by (simp add: connect_ack_def builder_simps mock_int32_def mock_constants FLAG_CONNECTION_ACCEPTED_def)

lemma parse_app_message:
  "msg_laws api \<Longrightarrow> app_message api js sid smt doc terminate = Some m \<Longrightarrow>
   \<exists>body. to_vec js doc = Inr body \<and> parse api m = Inr \<lparr>message_type = ApplicationMessage,
     flags = (if terminate then FLAG_TERMINATE_STREAM else 0), stream_id = sid, service_model_type = Some smt,
     payload = body\<rparr>"
  by (auto simp: app_message_def builder_simps mock_int32_def mock_string_def mock_constants
      FLAG_TERMINATE_STREAM_def split: sum.splits)

lemma parse_app_error:
  "msg_laws api \<Longrightarrow> app_error api js sid model doc = Some m \<Longrightarrow>
   \<exists>body. to_vec js doc = Inr body \<and> parse api m = Inr \<lparr>message_type = ApplicationError,
     flags = FLAG_TERMINATE_STREAM, stream_id = sid, service_model_type = Some model, payload = body\<rparr>"
  by (auto simp: app_error_def builder_simps mock_int32_def mock_string_def mock_constants
      FLAG_TERMINATE_STREAM_def split: sum.splits)

section \<open>The handshake\<close>

text \<open>The bytes of one frame, in any chunks, are read as that frame.\<close>

lemma first_frame_read:
  assumes "codec_laws codec held" "write_message_to codec m = Inr w" "concat sent = w" "[] \<notin> set sent"
  shows "\<exists>r. mock_read_frame codec (framed_reader_new codec) (map Inr sent) = (Ready (Inr (Some m)), r, [])"
proof -
  obtain r chunks where read: "next_frame codec (framed_reader_new codec) (map Inr sent) = (Ready (Inr (Some m)), r, map Inr chunks)"
    "backlog held r @ concat chunks = []" "set chunks \<subseteq> set sent"
    using next_frame_complete [OF assms(1,2) _ assms(4), of "framed_reader_new codec" "[]" "[]"] assms(3)
    by (auto simp: backlog_new [OF assms(1)])
  then have "chunks = []" using assms(4) by (cases chunks) auto
  then show ?thesis using read(1) by (simp add: mock_read_frame_def)
qed

text \<open>
  C27. Client and nucleus shake hands: however the socket cuts the bytes in either direction, the nucleus
  reads the client's Connect frame and accepts it exactly when the client's token is the one it
  expects; on its acknowledgement the client is connected exactly then, and fails with a handshake
  error otherwise.
\<close>

theorem nucleus_and_client_shake_hands:
  assumes "msg_laws api" and "codec_laws codec held" and "json_roundtrip js"
    and "to_vec js (ser_connect_payload (auth_token env)) = Inr body"
    and "write_message_to codec (connect_message api body) = Inr hello"
    and "concat sent = hello" and "[] \<notin> set sent"
    and "accepted \<longleftrightarrow> auth_token env = expected"
    and "write_message_to codec (connect_ack api accepted) = Inr w"
    and "concat answer = w" and "[] \<notin> set answer" and "open_socket (socket_path env) = Inr ()"
    and "connect api codec js open_socket WriteOk (map Inr answer) env t = res"
  shows "\<exists>m r. mock_read_frame codec (framed_reader_new codec) (map Inr sent) = (Ready (Inr (Some m)), r, []) \<and>
    nucleus_handshake api js expected m = Some (accepted, connect_ack api accepted) \<and>
    (accepted \<longrightarrow> (\<exists>reader rest.
       res = Ready (Inr (new_connection \<lparr>wire = hello, shut = False\<rparr> t, reader, rest)))) \<and>
    (\<not> accepted \<longrightarrow> (\<exists>text. res = Ready (Inl (Handshake text))))"
proof -
  obtain r where frame: "mock_read_frame codec (framed_reader_new codec) (map Inr sent) =
      (Ready (Inr (Some (connect_message api body))), r, [])"
    using first_frame_read [OF assms(2,5,6,7)] by blast
  have "json_read js body = Inr (ser_connect_payload (auth_token env))"
    using assms(3,4) by (simp add: json_roundtrip_def to_vec_def)
  then have hand: "nucleus_handshake api js expected (connect_message api body) =
      Some (accepted, connect_ack api accepted)"
    using assms(8) by (simp add: nucleus_handshake_def mock_parse_connect [OF assms(1)] ser_connect_payload_def
        ser_member_def value_get_def value_as_str_def Let_def)
  obtain reader chunks' where "res = Ready (case parse api (connect_ack api accepted) of
       Inl err \<Rightarrow> Inl err
     | Inr ack \<Rightarrow>
         if message_type ack \<noteq> ConnectAck then
           Inl (error_handshake (''expected ConnectAck, got '' @ message_type_debug (message_type ack)))
         else if \<not> connection_accepted ack then
           Inl (error_handshake ''nucleus rejected the connection (invalid or expired SVCUID auth token)'')
         else Inr (new_connection \<lparr>wire = hello, shut = False\<rparr> t, reader, map Inr chunks'))"
    unfolding assms(13) [symmetric]
    by (rule connect_first_frame [where open_socket = open_socket and env = env and js = js and body = body and
        api = api and hello = hello and t = t and rest = "[]", OF assms(2,9) _ assms(11,12,4,5)])
      (simp add: assms(10))
  then show ?thesis
    using frame hand parse_connect_ack [OF assms(1), of accepted]
    by (auto simp: connection_accepted_def FLAG_CONNECTION_ACCEPTED_def)
qed

section \<open>Operations\<close>

lemma mock_write_frames_going:
  assumes "mock_write_frames codec (\<lambda>_. WriteOk) i fs wr = (Going, wr')"
  shows "\<exists>ms ws. fs = map Some ms \<and> map (write_message_to codec) ms = map Inr ws \<and>
    wr' = wr\<lparr>wire := wire wr @ concat ws\<rparr>"
  using assms
proof (induction fs arbitrary: i wr)
  case (Cons f fs)
  obtain m where f: "f = Some m" using Cons.prems by (cases f) auto
  obtain w where w: "write_message_to codec m = Inr w"
    using Cons.prems f by (auto simp: mock_write_frame_def split: sum.splits)
  then have "mock_write_frames codec (\<lambda>_. WriteOk) (Suc i) fs (wr\<lparr>wire := wire wr @ w\<rparr>) = (Going, wr')"
    using Cons.prems f by (simp add: mock_write_frame_def socket_write_def)
  from Cons.IH [OF this] obtain ms ws where "fs = map Some ms" "map (write_message_to codec) ms = map Inr ws"
    "wr' = wr\<lparr>wire := (wire wr @ w) @ concat ws\<rparr>" by auto
  with w f show ?case by (intro exI [of _ "m # ms"] exI [of _ "w # ws"]) simp
qed auto

text \<open>The messages the replies are, and what the caller is told of them.\<close>

definition text_of :: "json_api \<Rightarrow> json \<Rightarrow> bytes" where
  "text_of js doc = (case to_vec js doc of Inl _ \<Rightarrow> [] | Inr body \<Rightarrow> body)"

definition reply_rpc :: "json_api \<Rightarrow> i32 \<Rightarrow> string \<Rightarrow> json \<Rightarrow> i32 \<Rightarrow> rpc_message" where
  "reply_rpc js sid model doc fl = \<lparr>message_type = ApplicationMessage, flags = fl, stream_id = sid,
     service_model_type = Some model, payload = text_of js doc\<rparr>"

definition reply_rpcs :: "json_api \<Rightarrow> i32 \<Rightarrow> string \<Rightarrow> behavior \<Rightarrow> rpc_message list" where
  "reply_rpcs js sid op beh = (case beh of
      Respond doc \<Rightarrow> [reply_rpc js sid (op @ ''Response'') doc FLAG_TERMINATE_STREAM]
    | Error model message \<Rightarrow> [\<lparr>message_type = ApplicationError, flags = FLAG_TERMINATE_STREAM, stream_id = sid,
        service_model_type = Some model, payload = text_of js (JObj [(''message'', JStr message)])\<rparr>]
    | Subscribe ack events \<Rightarrow> reply_rpc js sid (op @ ''Response'') ack 0 #
        map (\<lambda>(model, ev). reply_rpc js sid model ev 0) events
    | Silent \<Rightarrow> [])"

lemma app_messages_parse:
  assumes "msg_laws api" "map (\<lambda>(model, ev). app_message api js sid model ev False) events = map Some ms"
  shows "map (parse api) ms = map (\<lambda>(model, ev). Inr (reply_rpc js sid model ev 0)) events"
  using assms(2)
proof (induction events arbitrary: ms)
  case (Cons e events)
  then obtain m ms' where ms: "ms = m # ms'" "map (\<lambda>(model, ev). app_message api js sid model ev False) events = map Some ms'"
    by (cases ms) auto
  then show ?case
    using Cons.prems Cons.IH [OF ms(2)] parse_app_message [OF assms(1), of js sid "fst e" "snd e" False m]
    by (auto simp: reply_rpc_def text_of_def split: prod.splits)
qed simp

lemma behavior_replies_parse:
  assumes "msg_laws api" "behavior_replies api js sid op beh = map Some ms"
  shows "map (parse api) ms = map Inr (reply_rpcs js sid op beh)"
proof (cases beh)
  case (Subscribe ack events)
  then obtain m ms' where ms: "ms = m # ms'" "app_message api js sid (op @ ''Response'') ack False = Some m"
    "map (\<lambda>(model, ev). app_message api js sid model ev False) events = map Some ms'"
    using assms(2) by (cases ms) (auto simp: behavior_replies_def)
  then show ?thesis
    using parse_app_message [OF assms(1) ms(2)] app_messages_parse [OF assms(1) ms(3)] Subscribe
    by (auto simp: reply_rpcs_def reply_rpc_def text_of_def comp_def split_def)
next
  case (Respond doc)
  then show ?thesis using assms(2)
    by (auto simp: behavior_replies_def reply_rpcs_def reply_rpc_def text_of_def dest!: parse_app_message [OF assms(1)])
next
  case (Error model message)
  then show ?thesis using assms(2)
    by (auto simp: behavior_replies_def reply_rpcs_def text_of_def dest!: parse_app_error [OF assms(1)])
qed (use assms in \<open>simp_all add: behavior_replies_def reply_rpcs_def\<close>)

lemma stream_messages_parsed:
  assumes "map (parse api) ms = map Inr rpcs" "\<And>rpc. rpc \<in> set rpcs \<Longrightarrow> stream_id rpc \<noteq> 0"
  shows "stream_messages api ms = rpcs" "\<forall>m \<in> set ms. \<not> fatal api m"
  using assms
proof (induction ms arbitrary: rpcs)
  case (Cons m ms)
  {
    case 1
    then show ?case using Cons.IH by (cases rpcs) auto
  next
    case 2
    then show ?case using Cons.IH by (cases rpcs) (auto simp: fatal_def)
  }
qed auto

lemma reply_rpcs_stream: "rpc \<in> set (reply_rpcs js sid op beh) \<Longrightarrow> stream_id rpc = sid"
  by (auto simp: reply_rpcs_def reply_rpc_def split: behavior.splits)

lemma replies_read:
  assumes "msg_laws api" "codec_laws codec held" "sid \<noteq> 0"
    and "behavior_replies api js sid op beh = map Some ms" "map (write_message_to codec) ms = map Inr ws"
    and "concat chunks = concat ws" "[] \<notin> set chunks" "length ms < fuel"
    and "abs_dispatch_all js (reply_rpcs js sid op beh) (abs_registry (conn_registry c)) = (reg, lg)"
  shows "\<exists>c'. read_loop api codec js outs 0 fuel (framed_reader_new codec) (map Inr chunks) c = (False, c', lg) \<and>
    abs_registry (conn_registry c') = reg"
proof -
  note sm = stream_messages_parsed [OF behavior_replies_parse [OF assms(1,4)]]
  have live: "takeWhile (\<lambda>m. \<not> fatal api m) ms = ms" "\<not> (\<exists>m \<in> set ms. fatal api m)"
    using sm(2) reply_rpcs_stream assms(3) by (auto simp: takeWhile_eq_all_conv)
  obtain ended c' eff where run: "loop_frames api codec js outs 0 (map (\<lambda>m. Inr (Some m)) ms @ ending_frames []) c =
      (ended, c', eff)" by (rule prod_cases3)
  have "abs_dispatch_all js (stream_messages api (takeWhile (\<lambda>m. \<not> fatal api m) ms)) (abs_registry (conn_registry c)) = (reg, lg)"
    using sm(1) reply_rpcs_stream assms(3,9) live by metis
  from loop_frames_spec [OF run this] live have "\<not> ended" "after_loop ended reg lg (conn_closed c) c' eff" by auto
  moreover have "partial_frame codec []" by (simp add: partial_frame_def)
  then have "read_loop api codec js outs 0 fuel (framed_reader_new codec) (map Inr chunks @ []) c = (ended, c', eff)"
    using read_loop_frames [OF assms(2) _ _ assms(5) _ assms(7,8), of "[]" _ "[]" "framed_reader_new codec" api js outs 0 c]
      assms(6) run by (simp add: backlog_new [OF assms(2)])
  ultimately show ?thesis by (simp add: after_loop_def)
qed


lemma nucleus_error_delivered:
  assumes "json_roundtrip js" "to_vec js (JObj [(''message'', JStr message)]) = Inr body"
    "service_model_type rpc = Some model" "payload rpc = body"
  shows "service_error_from js rpc = Service model message"
  using assms
  by (simp add: service_error_from_def from_slice_to_vec de_service_error_payload_def de_struct_def
      de_option_field_def de_option_def de_string_def)

lemma replies_dispatched:
  assumes "m sid = Some (Request ch)"
  shows "abs_dispatch_all js (reply_rpcs js sid op (Respond doc)) m =
      (m(sid := None), [OneshotSend ch (Inr (reply_rpc js sid (op @ ''Response'') doc FLAG_TERMINATE_STREAM))])"
    and "abs_dispatch_all js (reply_rpcs js sid op Silent) m = (m, [])"
    and "json_roundtrip js \<Longrightarrow> to_vec js (JObj [(''message'', JStr message)]) = Inr body \<Longrightarrow>
      abs_dispatch_all js (reply_rpcs js sid op (Error model message)) m =
        (m(sid := None), [OneshotSend ch (Inl (Service model message))])"
  using assms
  by (auto simp: reply_rpcs_def abs_dispatch_def sink_stays_def delivery_of_def reply_rpc_def text_of_def
      nucleus_error_delivered)

lemma events_dispatched:
  assumes "m sid = Some (Subscription ch)"
  shows "abs_dispatch_all js (map (\<lambda>(model, ev). reply_rpc js sid model ev 0) events) m =
    (m, map (\<lambda>(model, ev). MpscSend ch (Inr (reply_rpc js sid model ev 0))) events)"
  using assms
  by (induction events)
     (auto simp: abs_dispatch_def sink_stays_def terminates_stream_def delivery_of_def reply_rpc_def image_iff)

lemma subscription_replies_dispatched:
  assumes "m sid = Some (Subscription ch)"
  shows "abs_dispatch_all js (reply_rpcs js sid op (Subscribe ack events)) m =
      (m, map (\<lambda>(model, ev). MpscSend ch (Inr (reply_rpc js sid model ev 0))) ((op @ ''Response'', ack) # events))"
    and "json_roundtrip js \<Longrightarrow> to_vec js (JObj [(''message'', JStr message)]) = Inr body \<Longrightarrow>
      abs_dispatch_all js (reply_rpcs js sid op (Error model message)) m =
        (m(sid := None), [MpscSend ch (Inl (Service model message)), SenderDrop ch])"
proof -
  show "abs_dispatch_all js (reply_rpcs js sid op (Subscribe ack events)) m =
      (m, map (\<lambda>(model, ev). MpscSend ch (Inr (reply_rpc js sid model ev 0))) ((op @ ''Response'', ack) # events))"
    using events_dispatched [where m = m, OF assms, of js "(op @ ''Response'', ack) # events"] by (simp add: reply_rpcs_def)
  assume "json_roundtrip js" "to_vec js (JObj [(''message'', JStr message)]) = Inr body"
  then show "abs_dispatch_all js (reply_rpcs js sid op (Error model message)) m =
        (m(sid := None), [MpscSend ch (Inl (Service model message)), SenderDrop ch])"
    using assms by (auto simp: reply_rpcs_def abs_dispatch_def sink_stays_def delivery_of_def text_of_def
      nucleus_error_delivered)
qed

lemma nucleus_replies:
  assumes "msg_laws api" and "json_roundtrip js" and "to_vec js doc = Inr body" and "behavior op = Some beh"
    and turn: "nucleus_turn api codec js behavior (\<lambda>_. WriteOk)
           (Incoming (Inr (Some (activate_message api sid op model body)))) nu = (Going, nu')"
    and "wire (nuc_writer nu) = []"
  obtains ms ws where "behavior_replies api js sid op beh = map Some ms"
    "map (write_message_to codec) ms = map Inr ws" "wire (nuc_writer nu') = concat ws"
    "map (parse api) ms = map Inr (reply_rpcs js sid op beh)" "nuc_seen nu' = nuc_seen nu @ [(op, doc)]"
proof -
  have "json_read js body = Inr doc" using assms(2,3) by (simp add: json_roundtrip_def to_vec_def)
  then have wr: "mock_write_frames codec (\<lambda>_. WriteOk) 0 (behavior_replies api js sid op beh) (nuc_writer nu) =
      (Going, nuc_writer nu') \<and> nuc_seen nu' = nuc_seen nu @ [(op, doc)]"
    using turn mock_parse_activate [OF assms(1), of sid op model body] assms(4)
    by (auto simp: nucleus_turn_def nucleus_send_def mock_constants Let_def split: prod.splits)
  then obtain ms ws where ms: "behavior_replies api js sid op beh = map Some ms"
      "map (write_message_to codec) ms = map Inr ws" "nuc_writer nu' = (nuc_writer nu)\<lparr>wire := concat ws\<rparr>"
    using mock_write_frames_going [of codec 0 "behavior_replies api js sid op beh" "nuc_writer nu" "nuc_writer nu'"]
      assms(6) by auto
  from that [OF ms(1,2) _ behavior_replies_parse [OF assms(1) ms(1)]] show ?thesis using ms(3) wr by simp
qed

lemma nucleus_exchange:
  assumes "msg_laws api" and "codec_laws codec held" and "json_roundtrip js" and "sid \<noteq> 0"
    and "to_vec js doc = Inr body" and "behavior op = Some beh"
    and turn: "nucleus_turn api codec js behavior (\<lambda>_. WriteOk)
           (Incoming (Inr (Some (activate_message api sid op model body)))) nu = (Going, nu')"
    and "wire (nuc_writer nu) = []" and "concat chunks = wire (nuc_writer nu')" and "[] \<notin> set chunks"
    and "length (reply_rpcs js sid op beh) < fuel"
    and run: "read_loop api codec js outs 0 fuel (framed_reader_new codec) (map Inr chunks) c = (ended, c', eff)"
  shows "\<not> ended" and "nuc_seen nu' = nuc_seen nu @ [(op, doc)]"
    and "abs_dispatch_all js (reply_rpcs js sid op beh) (abs_registry (conn_registry c)) =
      (abs_registry (conn_registry c'), eff)"
    and "\<And>smodel message. beh = Error smodel message \<Longrightarrow> \<exists>t. to_vec js (JObj [(''message'', JStr message)]) = Inr t"
proof -
  obtain ms ws where ms: "behavior_replies api js sid op beh = map Some ms"
      "map (write_message_to codec) ms = map Inr ws" "wire (nuc_writer nu') = concat ws"
      "map (parse api) ms = map Inr (reply_rpcs js sid op beh)" "nuc_seen nu' = nuc_seen nu @ [(op, doc)]"
    by (rule nucleus_replies [OF assms(1,3,5,6) turn assms(8)])
  have len: "length ms = length (reply_rpcs js sid op beh)" using ms(4) by (metis length_map)
  obtain reg lg where disp: "abs_dispatch_all js (reply_rpcs js sid op beh) (abs_registry (conn_registry c)) = (reg, lg)"
    by (rule prod.exhaust)
  obtain c'' where "read_loop api codec js outs 0 fuel (framed_reader_new codec) (map Inr chunks) c = (False, c'', lg)"
      "abs_registry (conn_registry c'') = reg"
    using replies_read [OF assms(1,2,4) ms(1,2) _ assms(10) _ disp] assms(9,11) ms(3) len by auto
  then show "\<not> ended" "abs_dispatch_all js (reply_rpcs js sid op beh) (abs_registry (conn_registry c)) =
      (abs_registry (conn_registry c'), eff)"
    using run disp by simp_all
  show "nuc_seen nu' = nuc_seen nu @ [(op, doc)]" by (rule ms(5))
  show "\<exists>t. to_vec js (JObj [(''message'', JStr message)]) = Inr t" if "beh = Error smodel message" for smodel message
    using that ms(1) by (cases ms) (auto simp: behavior_replies_def app_error_def split: sum.splits)
qed

text \<open>
  Client and nucleus together: when the nucleus, told what to answer to an operation, gets the client's
  activate message and writes its replies, and the client's read loop reads their bytes in any chunks, the nucleus
  has recorded the operation with the very document the client serialized, and the caller's channel gets exactly what the
  behavior says: the response document; the service error with the nucleus's model and message; the
  acknowledgement and every event in order, the subscription staying open; or nothing. The stream is
  forgotten with a response or an error, and no other stream is touched.
\<close>

theorem nucleus_answers_reach_the_caller:
  assumes "msg_laws api" and "codec_laws codec held" and "json_roundtrip js" and "sid \<noteq> 0"
    and "to_vec js doc = Inr body" and "behavior op = Some beh"
    and "abs_registry (conn_registry c) sid = Some sink"
    and "nucleus_turn api codec js behavior (\<lambda>_. WriteOk)
           (Incoming (Inr (Some (activate_message api sid op model body)))) nu = (Going, nu')"
    and "wire (nuc_writer nu) = []" and "concat chunks = wire (nuc_writer nu')" and "[] \<notin> set chunks"
    and "length (reply_rpcs js sid op beh) < fuel"
    and "read_loop api codec js outs 0 fuel (framed_reader_new codec) (map Inr chunks) c = (ended, c', eff)"
  shows "\<not> ended \<and> nuc_seen nu' = nuc_seen nu @ [(op, doc)] \<and>
    (sink = Request ch \<longrightarrow>
       (case beh of
          Respond answer \<Rightarrow>
            eff = [OneshotSend ch (Inr (reply_rpc js sid (op @ ''Response'') answer FLAG_TERMINATE_STREAM))] \<and>
            abs_registry (conn_registry c') = (abs_registry (conn_registry c))(sid := None)
        | Error smodel message \<Rightarrow> eff = [OneshotSend ch (Inl (Service smodel message))] \<and>
            abs_registry (conn_registry c') = (abs_registry (conn_registry c))(sid := None)
        | Subscribe _ _ \<Rightarrow> True
        | Silent \<Rightarrow> eff = [] \<and> abs_registry (conn_registry c') = abs_registry (conn_registry c))) \<and>
    (sink = Subscription ch \<longrightarrow>
       (case beh of
          Subscribe ack events \<Rightarrow>
            eff = map (\<lambda>(m, ev). MpscSend ch (Inr (reply_rpc js sid m ev 0))) ((op @ ''Response'', ack) # events) \<and>
            abs_registry (conn_registry c') = abs_registry (conn_registry c)
        | Error smodel message \<Rightarrow> eff = [MpscSend ch (Inl (Service smodel message)), SenderDrop ch] \<and>
            abs_registry (conn_registry c') = (abs_registry (conn_registry c))(sid := None)
        | _ \<Rightarrow> True))"
proof -
  note exchange = nucleus_exchange [OF assms(1-6,8-13)]
  show ?thesis
  proof (intro conjI impI)
    assume request: "sink = Request ch"
    note disps = replies_dispatched [where m = "abs_registry (conn_registry c)" and js = js and op = op,
        OF assms(7) [unfolded request]]
    show "case beh of
          Respond answer \<Rightarrow>
            eff = [OneshotSend ch (Inr (reply_rpc js sid (op @ ''Response'') answer FLAG_TERMINATE_STREAM))] \<and>
            abs_registry (conn_registry c') = (abs_registry (conn_registry c))(sid := None)
        | Error smodel message \<Rightarrow> eff = [OneshotSend ch (Inl (Service smodel message))] \<and>
            abs_registry (conn_registry c') = (abs_registry (conn_registry c))(sid := None)
        | Subscribe _ _ \<Rightarrow> True
        | Silent \<Rightarrow> eff = [] \<and> abs_registry (conn_registry c') = abs_registry (conn_registry c)"
      using exchange(3) disps exchange(4) assms(3) by (cases beh) auto
  next
    assume subscription: "sink = Subscription ch"
    note disps = subscription_replies_dispatched [where m = "abs_registry (conn_registry c)" and js = js and op = op,
        OF assms(7) [unfolded subscription]]
    show "case beh of
          Subscribe ack events \<Rightarrow>
            eff = map (\<lambda>(m, ev). MpscSend ch (Inr (reply_rpc js sid m ev 0))) ((op @ ''Response'', ack) # events) \<and>
            abs_registry (conn_registry c') = abs_registry (conn_registry c)
        | Error smodel message \<Rightarrow> eff = [MpscSend ch (Inl (Service smodel message)), SenderDrop ch] \<and>
            abs_registry (conn_registry c') = (abs_registry (conn_registry c))(sid := None)
        | _ \<Rightarrow> True"
      using exchange(3) disps exchange(4) assms(3) by (cases beh) auto
  qed (use exchange in simp_all)
qed

section \<open>A concrete conversation\<close>

definition demo_reply :: "(string \<times> unit header_value) list \<times> bytes" where
  "demo_reply =
     ([('':message-type'', Int32 0), ('':message-flags'', Int32 2), ('':stream-id'', Int32 1),
       ('':content-type'', Str ''application/json''), (''service-model-type'', Str ''opResponse'')], [1])"

definition nucleus_codec :: "((string \<times> unit header_value) list \<times> bytes, unit) codec" where
  "nucleus_codec = table_codec [connect_message pair_api [0], connect_ack pair_api True, demo_reply]"

lemma nucleus_codec_laws [simp]: "codec_laws nucleus_codec (\<lambda>_. [])"
  by (simp add: nucleus_codec_def codec_laws_table_codec)

lemma write_nucleus_codec [simp]:
  "write_message_to nucleus_codec (connect_message pair_api [0]) = Inr [0, 0]"
  "write_message_to nucleus_codec (connect_ack pair_api True) = Inr [1, 0]"
  "write_message_to nucleus_codec demo_reply = Inr [2, 0]"
  by (simp_all add: nucleus_codec_def write_table_codec connect_message_def connect_ack_def demo_reply_def
      int32_header_def string_header_def mock_int32_def mock_constants)

lemma demo_json_roundtrip [simp]: "json_roundtrip demo_json"
  by (simp add: demo_json_def table_json_roundtrip)

lemma demo_to_vec_object [simp]: "to_vec demo_json (JObj []) = Inr [1]"
  by (simp add: to_vec_def demo_json_def table_json_def ser_connect_payload_def ser_member_def)

theorem nucleus_and_client_shake_hands_witness:
  "\<exists>m r. mock_read_frame nucleus_codec (framed_reader_new nucleus_codec) (map Inr [[0], [0]]) =
      (Ready (Inr (Some m)), r, []) \<and>
    nucleus_handshake pair_api demo_json ''T'' m = Some (True, connect_ack pair_api True)"
  using nucleus_and_client_shake_hands [OF msg_laws_pair_api nucleus_codec_laws demo_json_roundtrip,
      of demo_env "[0]" "[0, 0]" "[[0], [0]]" True "''T''" "[1, 0]" "[[1, 0]]" "\<lambda>_. Inr ()"]
  by (simp add: demo_env_def) blast

definition demo_nucleus :: "bytes \<Rightarrow> (string \<times> json) list \<Rightarrow> observed_frame list \<Rightarrow> nucleus" where
  "demo_nucleus w seen frames =
     \<lparr>nuc_writer = \<lparr>wire = w, shut = False\<rparr>, nuc_seen = seen, nuc_frames = frames\<rparr>"

lemma demo_turn:
  "nucleus_turn pair_api nucleus_codec demo_json [''op'' \<mapsto> Respond (JObj [])] (\<lambda>_. WriteOk)
     (Incoming (Inr (Some (activate_message pair_api 1 ''op'' ''model'' [1])))) (demo_nucleus [] [] []) =
   (Going, demo_nucleus [2, 0] [(''op'', JObj [])]
      [\<lparr>of_message_type = 0, of_stream_id = 1, of_flags = 0, of_payload = [1]\<rparr>])"
proof -
  have "app_message pair_api demo_json 1 ''opResponse'' (JObj []) True = Some demo_reply"
    by (simp add: app_message_def demo_reply_def mock_int32_def mock_string_def mock_constants)
  moreover have "json_read demo_json [1] = Inr (JObj [])"
    by (simp add: demo_json_def table_json_def)
  ultimately show ?thesis
    using mock_parse_activate [OF msg_laws_pair_api, of 1 "''op''" "''model''" "[1]"]
    by (simp add: nucleus_turn_def nucleus_send_def demo_nucleus_def mock_constants behavior_replies_def
        mock_write_frame_def socket_write_def)
qed

theorem nucleus_answers_reach_the_caller_witness:
  "\<exists>c'. read_loop pair_api nucleus_codec demo_json (\<lambda>_. WriteOk) 0 2 (framed_reader_new nucleus_codec)
      (map Inr [[2], [0]]) demo_connection =
    (False, c', [OneshotSend 0 (Inr (reply_rpc demo_json 1 ''opResponse'' (JObj []) FLAG_TERMINATE_STREAM))])"
proof -
  obtain ended c' eff where run: "read_loop pair_api nucleus_codec demo_json (\<lambda>_. WriteOk) 0 2
      (framed_reader_new nucleus_codec) (map Inr [[2], [0]]) demo_connection = (ended, c', eff)"
    by (rule prod_cases3)
  have "abs_registry (conn_registry demo_connection) 1 = Some (Request 0)"
    by (simp add: demo_connection_def abs_registry_def hm_get_def)
  from nucleus_answers_reach_the_caller [OF msg_laws_pair_api nucleus_codec_laws demo_json_roundtrip _
      demo_to_vec_object _ this demo_turn _ _ _ _ run, of "Respond (JObj [])" 0]
  have "\<not> ended \<and> eff = [OneshotSend 0 (Inr (reply_rpc demo_json 1 ''opResponse'' (JObj []) FLAG_TERMINATE_STREAM))]"
    by (simp add: demo_nucleus_def reply_rpcs_def)
  then show ?thesis using run by (intro exI [of _ c']) simp
qed

end
