(* ===== verification/EndToEnd.thy ===== *)
theory EndToEnd
  imports Calls Nucleus
begin

text \<open>
  A call from one end to the other: a task of the running program (\<open>Session\<close>) writes its message, the
  mock nucleus (\<open>tests/support/mod.rs\<close>) reads its bytes and writes what it is told to answer, the read loop (\<open>ReadLoop\<close>)
  reads those bytes, and the task is given the answer. It is what \<open>tests/integration.rs\<close> tries on single operations:
  here for every operation, document, behavior and chunking, among any number of other tasks.
\<close>

section \<open>What the client sends is what the nucleus reads\<close>

text \<open>A send after which the task waits has put the activate message of its call on the wire.\<close>

lemma sent_activate:
  assumes "sys_step api codec js tk s (Send i WriteOk) s1" and "task_phase (tasks s1 ! i) = Waiting"
    and "t = tasks s ! i"
  obtains body frame where "i < length (tasks s)" "task_phase t = Registered" "to_vec js (call_payload (task_call t)) = Inr body"
    "write_message_to codec (activate_message api (task_sid t) (call_operation (task_call t)) (call_model (task_call t)) body) = Inr frame"
    "s1 = set_phase i Waiting (s\<lparr>conn := (conn s)\<lparr>conn_writer := (conn_writer (conn s))\<lparr>wire := wire (conn_writer (conn s)) @ frame\<rparr>\<rparr>\<rparr>)"
proof -
  obtain outcome c where step: "i < length (tasks s)" "task_phase t = Registered"
    "send_activate api codec js (task_sid t) (call_operation (task_call t)) (call_model (task_call t))
      (call_payload (task_call t)) WriteOk (conn s) = (outcome, c)"
    "s1 = set_phase i (case outcome of
           Sent \<Rightarrow> Waiting | SerializeFailed err \<Rightarrow> Returned (Inl err) | WriteFailed err \<Rightarrow> Cleaning err) (set_conn (c, []) s)"
    using assms(1,3) by (auto elim: send_stepE)
  then have "outcome = Sent" using assms(2) by (auto split: sent.splits)
  then show ?thesis using step
    by (auto simp: send_activate_def write_message_ok_iff set_conn_def split: sum.splits prod.splits intro: that)
qed

section \<open>What the nucleus answers is what the program's channel gets\<close>

text \<open>The documents a behavior writes; a nucleus that got through its turn could write all of them.\<close>

definition behavior_docs :: "behavior \<Rightarrow> json list" where
  "behavior_docs beh = (case beh of
      Respond answer \<Rightarrow> [answer]
    | Error model message \<Rightarrow> [JObj [(''message'', JStr message)]]
    | Subscribe ack events \<Rightarrow> ack # map snd events
    | Silent \<Rightarrow> [])"

lemma behavior_docs_written:
  assumes "behavior_replies api js sid op beh = map Some ms" "doc \<in> set (behavior_docs beh)"
  shows "to_vec js doc = Inr (text_of js doc)"
proof -
  have "None \<notin> set (behavior_replies api js sid op beh)" using assms(1) by auto
  then show ?thesis using assms(2)
    by (force simp: behavior_replies_def behavior_docs_def app_message_def app_error_def text_of_def image_iff
        split: behavior.splits sum.splits)
qed

text \<open>A stretch of a run in which only the read loop moves.\<close>

definition only_reads :: "'m label list \<Rightarrow> bool" where
  "only_reads ls \<longleftrightarrow> (\<forall>l \<in> set ls. \<exists>frame out. l = Read frame out)"

lemma loop_labels_reads: "l \<in> set (loop_labels outs i frames) \<Longrightarrow> \<exists>frame out. l = Read frame out"
  by (induction frames arbitrary: i) auto

lemma registered_sink:
  assumes "session_inv s" "i < length (tasks s)" "registered s i"
  shows "abs_registry (conn_registry (conn s)) (task_sid (tasks s ! i)) = Some (task_sink (tasks s ! i))"
  using assms streams_okD(1) [OF session_inv_streams [OF assms(1)]]
  by (simp add: abs_registry_def hm_get_Some_iff registered_def task_entry_def)

text \<open>
  What the two theorems share: the nucleus saw the operation and its document; the read loop over the nucleus's
  bytes is a run of the program from any later state in which the task still waits; and what the loop sends on channels is
  what the demultiplexer makes of the replies.
\<close>

lemma exchange_runs:
  assumes "msg_laws api" and "codec_laws codec held" and "json_roundtrip js"
    and "reach session_init (sys_step api codec js tk) s"
    and "sys_step api codec js tk s (Send i WriteOk) s1" and "task_phase (tasks s1 ! i) = Waiting"
    and "t = tasks s ! i" and "task_sid t \<noteq> 0"
    and "wire (conn_writer (conn s1)) = wire (conn_writer (conn s)) @ concat sent" and "[] \<notin> set sent"
    and "mock_read_frame codec (framed_reader_new codec) (map Inr sent) = (Ready (Inr (Some m)), rd, rest)"
    and "behavior (call_operation (task_call t)) = Some beh"
    and "nucleus_turn api codec js behavior (\<lambda>_. WriteOk) (Incoming (Inr (Some m))) nu = (Going, nu')"
    and "wire (nuc_writer nu) = []" and "concat chunks = wire (nuc_writer nu')" and "[] \<notin> set chunks"
    and "run (sys_step api codec js tk) s1 ls s2" and "reader s2 = Reading"
    and "task_phase (tasks s2 ! i) = Waiting" and "registered s2 i"
    and "length (reply_rpcs js (task_sid t) (call_operation (task_call t)) beh) < fuel"
    and "read_loop api codec js outs 0 fuel (framed_reader_new codec) (map Inr chunks) (conn s2) = (ended, c, eff)"
  shows "nuc_seen nu' = nuc_seen nu @ [(call_operation (task_call t), call_payload (task_call t))]"
    and "tasks s2 ! i = t\<lparr>task_phase := Waiting\<rparr>" and "i < length (tasks s2)" and "session_inv s2"
    and "\<exists>reads. only_reads reads \<and>
      run (sys_step api codec js tk) s2 reads (s2\<lparr>conn := c, log := log s2 @ eff\<rparr>)"
    and "abs_registry (conn_registry (conn s2)) (task_sid t) = Some (task_sink t)"
    and "abs_dispatch_all js (reply_rpcs js (task_sid t) (call_operation (task_call t)) beh) (abs_registry (conn_registry (conn s2))) =
      (abs_registry (conn_registry c), eff)"
    and "\<And>doc. doc \<in> set (behavior_docs beh) \<Longrightarrow> to_vec js doc = Inr (text_of js doc)"
proof -
  obtain body frame where sent: "i < length (tasks s)" "task_phase t = Registered" "to_vec js (call_payload (task_call t)) = Inr body"
    "write_message_to codec (activate_message api (task_sid t) (call_operation (task_call t)) (call_model (task_call t)) body) = Inr frame"
    "s1 = set_phase i Waiting (s\<lparr>conn := (conn s)\<lparr>conn_writer := (conn_writer (conn s))\<lparr>wire := wire (conn_writer (conn s)) @ frame\<rparr>\<rparr>\<rparr>)"
    by (rule sent_activate [OF assms(5-7)])
  have "concat sent = frame" using assms(9) by (simp add: sent(5))
  from first_frame_read [OF assms(2) sent(4) this assms(10)]
  have m: "m = activate_message api (task_sid t) (call_operation (task_call t)) (call_model (task_call t)) body"
    using assms(11) by auto
  note exchange = nucleus_exchange [OF assms(1-3,8) sent(3) assms(12) assms(13) [unfolded m] assms(14-16,21,22)]
  show "nuc_seen nu' = nuc_seen nu @ [(call_operation (task_call t), call_payload (task_call t))]" by (rule exchange(2))
  show "abs_dispatch_all js (reply_rpcs js (task_sid t) (call_operation (task_call t)) beh) (abs_registry (conn_registry (conn s2))) =
      (abs_registry (conn_registry c), eff)" by (rule exchange(3))
  show "\<And>doc. doc \<in> set (behavior_docs beh) \<Longrightarrow> to_vec js doc = Inr (text_of js doc)"
    by (rule nucleus_replies [OF assms(1,3) sent(3) assms(12) assms(13) [unfolded m] assms(14)])
      (rule behavior_docs_written)
  have t1: "tasks s1 ! i = t\<lparr>task_phase := Waiting\<rparr>" "i < length (tasks s1)" "has_channel (tasks s1 ! i)"
    using sent(1,5) assms(7) by (simp_all add: has_channel_def)
  show "i < length (tasks s2)" using run_tasks_grow [OF assms(17)] t1(2) by simp
  moreover have "reach session_init (sys_step api codec js tk) s2"
    using assms(4,5,17) by (meson reach_run reach_step)
  then show inv: "session_inv s2" by (rule streams.inv_reach)
  moreover show t2: "tasks s2 ! i = t\<lparr>task_phase := Waiting\<rparr>"
    using run_task_call [OF assms(17) t1(2)] run_entry [OF assms(17) t1(2,3)] run_chan [OF assms(17) t1(2,3)] t1(1) assms(19)
    by (cases "tasks s2 ! i") (simp add: task_entry_def)
  ultimately show "abs_registry (conn_registry (conn s2)) (task_sid t) = Some (task_sink t)"
    using registered_sink assms(20) by (metis task.select_convs(1-3) task.surjective task.update_convs(4) task_sink_def)
  from read_loop_steps [OF assms(22,18), where tk = tk] exchange(1)
  obtain k where "run (sys_step api codec js tk) s2
      (loop_labels outs 0 (take k (next_frames codec fuel (framed_reader_new codec) (map Inr chunks))))
      \<lparr>conn = c, reader = Reading, tasks = tasks s2, log = log s2 @ eff\<rparr>"
    by auto
  moreover have "\<lparr>conn = c, reader = Reading, tasks = tasks s2, log = log s2 @ eff\<rparr> = s2\<lparr>conn := c, log := log s2 @ eff\<rparr>"
    using assms(18) by (cases s2) simp
  ultimately show "\<exists>reads. only_reads reads \<and>
      run (sys_step api codec js tk) s2 reads (s2\<lparr>conn := c, log := log s2 @ eff\<rparr>)"
    using loop_labels_reads unfolding only_reads_def by metis
qed

section \<open>What the channel gets is what the caller is given\<close>

text \<open>Once a stream is forgotten nothing is sent for it; so a request gets the first reply and no other.\<close>

lemma dispatch_other_streams:
  "m sid = None \<Longrightarrow> \<forall>rpc \<in> set rpcs. stream_id rpc = sid \<Longrightarrow> abs_dispatch_all js rpcs m = (m, [])"
  by (induction rpcs) (auto simp: abs_dispatch_def)

lemma request_dispatched:
  assumes "m sid = Some (Request ch)" "\<forall>rpc \<in> set rpcs. stream_id rpc = sid"
  shows "abs_dispatch_all js rpcs m = (case rpcs of [] \<Rightarrow> (m, [])
    | rpc # _ \<Rightarrow> (m(sid := None), [OneshotSend ch (delivery_of js rpc)]))"
  using assms dispatch_other_streams [of "m(sid := None)" sid]
  by (cases rpcs) (auto simp: abs_dispatch_def sink_stays_def)

lemma ended_subscription_dispatched:
  assumes "m sid = Some (Subscription ch)"
  shows "abs_dispatch_all js (reply_rpcs js sid op (Respond answer)) m =
    (m(sid := None), [MpscSend ch (Inr (reply_rpc js sid (op @ ''Response'') answer FLAG_TERMINATE_STREAM)), SenderDrop ch])"
  using assms
  by (simp add: reply_rpcs_def abs_dispatch_def sink_stays_def terminates_stream_def delivery_of_def reply_rpc_def flag_defs)

lemma error_delivered:
  assumes "json_roundtrip js" "\<And>doc. doc \<in> set (behavior_docs (Error model message)) \<Longrightarrow> to_vec js doc = Inr (text_of js doc)"
    and "reply_rpcs js sid op (Error model message) = rpc # rpcs"
  shows "delivery_of js rpc = Inl (Service model message)"
  using assms(2,3) nucleus_error_delivered [OF assms(1)]
  by (auto simp: reply_rpcs_def delivery_of_def behavior_docs_def)

lemma reply_decoded:
  assumes "json_roundtrip js" "to_vec js doc = Inr (text_of js doc)"
  shows "text_of js doc \<noteq> [] \<Longrightarrow> decode_payload js de (reply_rpc js sid model doc fl) = map_err from_json_error (de doc)"
    and "decode_event js de (reply_rpc js sid model doc fl) = map_err from_json_error (de doc)"
  by (simp_all add: decode_payload_def decode_event_def reply_rpc_def from_slice_to_vec [OF assms])

text \<open>What the first reply tells the caller.\<close>

definition told :: "json_api \<Rightarrow> i32 \<Rightarrow> string \<Rightarrow> behavior \<Rightarrow> delivery option" where
  "told js sid op beh = (case beh of
      Respond answer \<Rightarrow> Some (Inr (reply_rpc js sid (op @ ''Response'') answer FLAG_TERMINATE_STREAM))
    | Error model message \<Rightarrow> Some (Inl (Service model message))
    | Subscribe ack events \<Rightarrow> Some (Inr (reply_rpc js sid (op @ ''Response'') ack 0))
    | Silent \<Rightarrow> None)"

lemma first_reply_told:
  assumes "json_roundtrip js" "\<And>doc. doc \<in> set (behavior_docs beh) \<Longrightarrow> to_vec js doc = Inr (text_of js doc)"
  shows "told js sid op beh = (case reply_rpcs js sid op beh of [] \<Rightarrow> None | rpc # _ \<Rightarrow> Some (delivery_of js rpc))"
  using assms(2) nucleus_error_delivered [OF assms(1)]
  by (cases beh) (auto simp: told_def reply_rpcs_def delivery_of_def reply_rpc_def behavior_docs_def)

lemma request_wakes:
  assumes "tokio_laws tk" "i < length (tasks s)" "task_phase (tasks s ! i) = Waiting"
    "call_kind (task_call (tasks s ! i)) = RequestCall"
  shows "task_events s i = [OneshotSend ch d] \<Longrightarrow> sys_step api codec js tk s (Wake i) (set_phase i (Returned d) s)"
    and "task_events s i = [] \<Longrightarrow> \<not> sys_step api codec js tk s (Wake i) s'"
    and "\<exists>s'. run (sys_step api codec js tk) s [Expire i, Cleanup i] s' \<and> task_phase (tasks s' ! i) =
      Returned (Inl (Timeout (call_operation (task_call (tasks s ! i))) (request_timeout (conn s))))"
proof -
  show "task_events s i = [OneshotSend ch d] \<Longrightarrow> sys_step api codec js tk s (Wake i) (set_phase i (Returned d) s)"
    using step_wake_request [OF assms(2) refl assms(3,4), of tk "Some d"] tokio_lawsD(2) [OF assms(1)]
    by (simp add: request_result_def)
  show "task_events s i = [] \<Longrightarrow> \<not> sys_step api codec js tk s (Wake i) s'"
    using tokio_lawsD(1) [OF assms(1)] assms(4) by (auto elim: sys_stepE)
  obtain s' where s': "exec_run api codec js tk [Expire i, Cleanup i] s = Some s'"
    using assms by (simp add: in_phase_def)
  moreover have "task_phase (tasks s' ! i) =
      Returned (Inl (Timeout (call_operation (task_call (tasks s ! i))) (request_timeout (conn s))))"
    using s' assms by (auto simp: in_phase_def)
  ultimately show "\<exists>s'. run (sys_step api codec js tk) s [Expire i, Cleanup i] s' \<and> task_phase (tasks s' ! i) =
      Returned (Inl (Timeout (call_operation (task_call (tasks s ! i))) (request_timeout (conn s))))"
    using exec_run_run by blast
qed

text \<open>
  C7. A request and its answer, end to end: a task's message goes out, the nucleus reads it from the bytes, cut
  anywhere, and records the operation with the very document the task serialized; other tasks may
  do anything meanwhile; when the read loop gets the bytes of the replies, cut anywhere, the task can return
  exactly what the nucleus was told to answer, the response document (which decodes to what the reader of the
  response type makes of it) or the service error with its model and message; and when the nucleus is told to stay
  silent the task cannot go on but by its timer, which returns \<open>Timeout\<close>.
\<close>

theorem request_round_trip:
  assumes "msg_laws api" and "codec_laws codec held" and "json_roundtrip js" and "tokio_laws tk"
    and "reach session_init (sys_step api codec js tk) s"
    and "sys_step api codec js tk s (Send i WriteOk) s1" and "task_phase (tasks s1 ! i) = Waiting"
    and "t = tasks s ! i" and "task_sid t \<noteq> 0" and "call_kind (task_call t) = RequestCall"
    and "op = call_operation (task_call t)"
    and "wire (conn_writer (conn s1)) = wire (conn_writer (conn s)) @ concat sent" and "[] \<notin> set sent"
    and "mock_read_frame codec (framed_reader_new codec) (map Inr sent) = (Ready (Inr (Some m)), rd, rest)"
    and "behavior op = Some beh"
    and "nucleus_turn api codec js behavior (\<lambda>_. WriteOk) (Incoming (Inr (Some m))) nu = (Going, nu')"
    and "wire (nuc_writer nu) = []" and "concat chunks = wire (nuc_writer nu')" and "[] \<notin> set chunks"
    and "run (sys_step api codec js tk) s1 ls s2" and "reader s2 = Reading"
    and "task_phase (tasks s2 ! i) = Waiting" and "registered s2 i"
    and "length (reply_rpcs js (task_sid t) op beh) < fuel"
    and "read_loop api codec js outs 0 fuel (framed_reader_new codec) (map Inr chunks) (conn s2) = (ended, c, eff)"
  shows "nuc_seen nu' = nuc_seen nu @ [(op, call_payload (task_call t))] \<and>
    (\<exists>reads s3. only_reads reads \<and> run (sys_step api codec js tk) s2 reads s3 \<and> conn s3 = c \<and>
      (case told js (task_sid t) op beh of
         Some d \<Rightarrow> sys_step api codec js tk s3 (Wake i) (set_phase i (Returned d) s3)
       | None \<Rightarrow> (\<nexists>s4. sys_step api codec js tk s3 (Wake i) s4) \<and>
           (\<exists>s4. run (sys_step api codec js tk) s3 [Expire i, Cleanup i] s4 \<and>
              task_phase (tasks s4 ! i) = Returned (Inl (Timeout op (request_timeout c)))))) \<and>
    (\<forall>answer. beh = Respond answer \<and> text_of js answer \<noteq> [] \<longrightarrow>
       decode_payload js de (reply_rpc js (task_sid t) (op @ ''Response'') answer FLAG_TERMINATE_STREAM) =
         map_err from_json_error (de answer))"
proof -
  note ex = exchange_runs [OF assms(1-3,5-9,12-14) assms(15) [unfolded assms(11)] assms(16-23)
      assms(24) [unfolded assms(11)] assms(25), folded assms(11)]
  let ?s3 = "s2\<lparr>conn := c, log := log s2 @ eff\<rparr>" and ?rpcs = "reply_rpcs js (task_sid t) op beh"
  have i: "i < length (tasks ?s3)" "task_phase (tasks ?s3 ! i) = Waiting"
    "call_kind (task_call (tasks ?s3 ! i)) = RequestCall" "call_operation (task_call (tasks ?s3 ! i)) = op"
    using ex(2,3) assms(10,11) by simp_all
  have "task_events s2 i = []"
    using session_history [OF ex(4,3)] assms(10,23) ex(2) by (simp add: has_channel_def task_sink_kind request_history)
  moreover have "abs_registry (conn_registry (conn s2)) (task_sid t) = Some (Request (task_chan t))"
    using ex(6) assms(10) by (simp add: task_sink_kind)
  from request_dispatched [where m = "abs_registry (conn_registry (conn s2))" and rpcs = ?rpcs and js = js, OF this]
  have "eff = (case told js (task_sid t) op beh of None \<Rightarrow> [] | Some d \<Rightarrow> [OneshotSend (task_chan t) d])"
    using ex(7) reply_rpcs_stream by (auto simp: first_reply_told [OF assms(3) ex(8)] split: list.splits)
  ultimately have "task_events ?s3 i = (case told js (task_sid t) op beh of None \<Rightarrow> [] | Some d \<Rightarrow> [OneshotSend (task_chan t) d])"
    using ex(2) by (simp add: task_events_def split: option.splits)
  then have "case told js (task_sid t) op beh of
         Some d \<Rightarrow> sys_step api codec js tk ?s3 (Wake i) (set_phase i (Returned d) ?s3)
       | None \<Rightarrow> (\<nexists>s4. sys_step api codec js tk ?s3 (Wake i) s4) \<and>
           (\<exists>s4. run (sys_step api codec js tk) ?s3 [Expire i, Cleanup i] s4 \<and>
              task_phase (tasks s4 ! i) = Returned (Inl (Timeout op (request_timeout c))))"
    using request_wakes [where api = api and codec = codec and js = js, OF assms(4) i(1-3)] i(4)
    by (simp split: option.splits)
  moreover obtain reads where "only_reads reads" "run (sys_step api codec js tk) s2 reads ?s3"
    using ex(5) by blast
  moreover have "conn ?s3 = c" by simp
  moreover have "\<forall>answer. beh = Respond answer \<and> text_of js answer \<noteq> [] \<longrightarrow>
       decode_payload js de (reply_rpc js (task_sid t) (op @ ''Response'') answer FLAG_TERMINATE_STREAM) =
         map_err from_json_error (de answer)"
    by (auto simp: behavior_docs_def reply_decoded(1) [OF assms(3) ex(8)])
  ultimately show ?thesis using ex(1) by blast
qed

text \<open>An event stream is polled until it has what was sent.\<close>

lemma set_phase_again [simp]: "i < length (tasks s) \<Longrightarrow> set_phase i p (set_phase i q s) = set_phase i p s"
  by (simp add: set_phase_def)

lemma set_phase_same: "i < length (tasks s) \<Longrightarrow> task_phase (tasks s ! i) = p \<Longrightarrow> set_phase i p s = s"
  by (cases "tasks s ! i") (auto simp: set_phase_def list_update_same_conv)

lemma task_events_set_phase [simp]: "i < length (tasks s) \<Longrightarrow> task_events (set_phase i p s) i = task_events s i"
  by (simp add: task_events_def)

lemma run_next_events:
  assumes "tokio_laws tk" "i < length (tasks s)" "task_phase (tasks s ! i) = Streaming (length taken)"
    "sent_values (task_events s i) = taken @ ds @ later"
  shows "run (sys_step api codec js tk) s (map (\<lambda>d. NextEvent i (Some d)) ds)
    (set_phase i (Streaming (length taken + length ds)) s)"
  using assms(2-)
proof (induction ds arbitrary: taken s)
  case Nil
  then show ?case by (simp add: set_phase_same run_Nil)
next
  case (Cons d ds)
  let ?s = "set_phase i (Streaming (Suc (length taken))) s"
  have "sys_step api codec js tk s (NextEvent i (Some d)) ?s"
    using step_next_event [OF Cons.prems(1,2), of tk "Some d"] Cons.prems(3)
      tokio_lawsD(4) [OF assms(1), of "length taken" "task_events s i"] by simp
  moreover have "run (sys_step api codec js tk) ?s (map (\<lambda>d. NextEvent i (Some d)) ds)
      (set_phase i (Streaming (length (taken @ [d]) + length ds)) ?s)"
    using Cons.prems by (intro Cons.IH) simp_all
  ultimately show ?case using Cons.prems(1) by (auto intro: run_Cons)
qed

lemma subscriber_wakes:
  assumes "tokio_laws tk" "i < length (tasks s)" "task_phase (tasks s ! i) = Waiting"
    "call_kind (task_call (tasks s ! i)) = SubscribeCall"
  shows "sent_values (task_events s i) = d # ds \<Longrightarrow>
      sys_step api codec js tk s (Wake i) (set_phase i (subscribe_result js (Some d)) s)"
    and "task_events s i = [] \<Longrightarrow> \<not> sys_step api codec js tk s (Wake i) s'"
proof -
  show "sent_values (task_events s i) = d # ds \<Longrightarrow>
      sys_step api codec js tk s (Wake i) (set_phase i (subscribe_result js (Some d)) s)"
    using step_wake_subscribe [OF assms(2) refl assms(3,4), of tk "Some d"] tokio_lawsD(4) [OF assms(1), of 0 "task_events s i"]
    by simp
  show "task_events s i = [] \<Longrightarrow> \<not> sys_step api codec js tk s (Wake i) s'"
    using tokio_lawsD(5) [OF assms(1), of "[]" 0] assms(4) by (auto elim: sys_stepE)
qed

text \<open>What a subscriber does with the replies, and where it is then.\<close>

definition subscriber_run :: "json_api \<Rightarrow> nat \<Rightarrow> i32 \<Rightarrow> string \<Rightarrow> behavior \<Rightarrow> ('m label list \<times> phase) option" where
  "subscriber_run js i sid op beh = (case beh of
      Subscribe ack events \<Rightarrow>
        Some (Wake i # map (\<lambda>(model, ev). NextEvent i (Some (Inr (reply_rpc js sid model ev 0)))) events,
          Streaming (Suc (length events)))
    | Respond answer \<Rightarrow> Some ([Wake i, NextEvent i None], Streaming 1)
    | Error model message \<Rightarrow> Some ([Wake i, Cleanup i], Returned (Inl (Service model message)))
    | Silent \<Rightarrow> None)"

text \<open>What a subscription's channel is sent for the replies.\<close>

definition subscriber_events :: "json_api \<Rightarrow> i32 \<Rightarrow> string \<Rightarrow> chan \<Rightarrow> behavior \<Rightarrow> effect list" where
  "subscriber_events js sid op ch beh = (case beh of
      Subscribe ack events \<Rightarrow>
        map (\<lambda>(model, ev). MpscSend ch (Inr (reply_rpc js sid model ev 0))) ((op @ ''Response'', ack) # events)
    | Respond answer \<Rightarrow> [MpscSend ch (Inr (reply_rpc js sid (op @ ''Response'') answer FLAG_TERMINATE_STREAM)), SenderDrop ch]
    | Error model message \<Rightarrow> [MpscSend ch (Inl (Service model message)), SenderDrop ch]
    | Silent \<Rightarrow> [])"

lemma subscription_dispatched:
  assumes "m sid = Some (Subscription ch)" "json_roundtrip js"
    and "\<And>doc. doc \<in> set (behavior_docs beh) \<Longrightarrow> to_vec js doc = Inr (text_of js doc)"
  shows "snd (abs_dispatch_all js (reply_rpcs js sid op beh) m) = subscriber_events js sid op ch beh"
  using subscription_replies_dispatched [where m = m and op = op and js = js, OF assms(1)] assms(2,3)
  by (cases beh) (auto simp: subscriber_events_def behavior_docs_def ended_subscription_dispatched [where m = m, OF assms(1)]
      reply_rpcs_def [where beh = Silent])

lemma chan_events_subscriber [simp]: "chan_events ch (subscriber_events js sid op ch beh) = subscriber_events js sid op ch beh"
  by (auto simp: chan_events_def filter_id_conv subscriber_events_def split: behavior.splits)

lemma sent_values_items: "sent_values (map (\<lambda>(model, ev). MpscSend ch (Inr (reply_rpc js sid model ev fl))) events) =
    map (\<lambda>(model, ev). Inr (reply_rpc js sid model ev fl)) events"
  by (induction events) auto

lemma subscription_steps:
  assumes "tokio_laws tk" "i < length (tasks s)" "task_phase (tasks s ! i) = Waiting"
    "call_kind (task_call (tasks s ! i)) = SubscribeCall" "task_events s i = subscriber_events js sid op ch beh"
  shows "case subscriber_run js i sid op beh of
      None \<Rightarrow> \<nexists>s'. sys_step api codec js tk s (Wake i) s'
    | Some (ls, p) \<Rightarrow> \<exists>s'. run (sys_step api codec js tk) s ls s' \<and> task_phase (tasks s' ! i) = p \<and>
        (\<nexists>d s''. sys_step api codec js tk s' (NextEvent i (Some d)) s'')"
proof -
  note wakes = subscriber_wakes(1) [where api = api and codec = codec and js = js, OF assms(1-4)]
  have no_more: "\<not> sys_step api codec js tk (set_phase i (Streaming n) s) (NextEvent i (Some d)) s''"
    if "n = length (sent_values (task_events s i))" for n d s''
    using that tokio_lawsD(5) [OF assms(1), of "task_events s i" n] assms(2) by (auto elim!: sys_stepE split: if_splits)
  have finished: ?thesis
    if "subscriber_run js i sid op beh = Some (ls, p)" "run (sys_step api codec js tk) s ls s'" "task_phase (tasks s' ! i) = p"
      "\<And>d s''. \<not> sys_step api codec js tk s' (NextEvent i (Some d)) s''" for ls p s'
    unfolding that(1) option.case prod.case using that(2-4) by blast
  show ?thesis
  proof (cases beh)
    case (Subscribe ack events)
    let ?s = "set_phase i (Streaming 1) s" and ?item = "\<lambda>(model, ev). Inr (reply_rpc js sid model ev 0) :: delivery"
    have sent: "sent_values (task_events s i) = ?item (op @ ''Response'', ack) # map ?item events"
      using assms(5) Subscribe by (simp add: subscriber_events_def sent_values_items)
    then have "sys_step api codec js tk s (Wake i) ?s"
      using wakes by (simp add: subscribe_result_def reply_rpc_def)
    moreover have "run (sys_step api codec js tk) ?s (map (\<lambda>d. NextEvent i (Some d)) (map ?item events))
        (set_phase i (Streaming (length [?item (op @ ''Response'', ack)] + length (map ?item events))) ?s)"
      by (rule run_next_events [where later = "[]", OF assms(1)]) (use assms(2) sent in simp_all)
    ultimately have "run (sys_step api codec js tk) s (Wake i # map (\<lambda>d. NextEvent i (Some d)) (map ?item events))
        (set_phase i (Streaming (Suc (length events))) s)"
      using assms(2) by (auto intro!: run_Cons)
    then show ?thesis
      by (rule finished [rotated]) (use assms(2) no_more sent Subscribe in \<open>simp_all add: subscriber_run_def comp_def split_def\<close>)
  next
    case (Respond answer)
    let ?s = "set_phase i (Streaming 1) s"
    have "run (sys_step api codec js tk) s [Wake i, NextEvent i None] ?s"
      using wakes step_next_event [of i ?s 1 tk None api codec js] assms(2,5) Respond
        tokio_lawsD(5) [OF assms(1), of "task_events s i" 1]
      by (auto simp: subscriber_events_def subscribe_result_def reply_rpc_def intro: run_Cons run_Nil)
    then show ?thesis
      by (rule finished [rotated]) (use assms(2,5) no_more Respond in \<open>simp_all add: subscriber_run_def subscriber_events_def\<close>)
  next
    case (Error model message)
    let ?s = "set_phase i (Cleaning (Service model message)) s"
    obtain s' where "run (sys_step api codec js tk) s [Wake i, Cleanup i] s'" "task_phase (tasks s' ! i) = Returned (Inl (Service model message))"
      using wakes step_cleanup [of i ?s "tasks ?s ! i" "Service model message" api codec js tk] assms(2,5) Error
      by (auto simp: subscriber_events_def subscribe_result_def intro!: that run_Cons run_Nil)
    then show ?thesis
      by (intro finished [where s' = s']) (use Error in \<open>auto simp: subscriber_run_def elim: sys_stepE\<close>)
  next
    case Silent
    then show ?thesis using subscriber_wakes(2) [where api = api and codec = codec and js = js, OF assms(1-4)] assms(5)
      by (simp add: subscriber_run_def subscriber_events_def)
  qed
qed

text \<open>
  C8. A subscription, end to end: under the same conditions, the subscriber takes the acknowledgement and then,
  one poll each, all the events the nucleus was told to send, in order, each of which decodes to what the reader of the event
  type makes of the document, and is then left waiting, with nothing more to take; an error is returned by
  \<open>subscribe\<close> itself; an acknowledgement that closes the stream gives an event stream that ends at once; with no
  reply at all \<open>subscribe\<close> waits on, for it has no timer.
\<close>

theorem subscription_round_trip:
  assumes "msg_laws api" and "codec_laws codec held" and "json_roundtrip js" and "tokio_laws tk"
    and "reach session_init (sys_step api codec js tk) s"
    and "sys_step api codec js tk s (Send i WriteOk) s1" and "task_phase (tasks s1 ! i) = Waiting"
    and "t = tasks s ! i" and "task_sid t \<noteq> 0" and "call_kind (task_call t) = SubscribeCall"
    and "op = call_operation (task_call t)"
    and "wire (conn_writer (conn s1)) = wire (conn_writer (conn s)) @ concat sent" and "[] \<notin> set sent"
    and "mock_read_frame codec (framed_reader_new codec) (map Inr sent) = (Ready (Inr (Some m)), rd, rest)"
    and "behavior op = Some beh"
    and "nucleus_turn api codec js behavior (\<lambda>_. WriteOk) (Incoming (Inr (Some m))) nu = (Going, nu')"
    and "wire (nuc_writer nu) = []" and "concat chunks = wire (nuc_writer nu')" and "[] \<notin> set chunks"
    and "run (sys_step api codec js tk) s1 ls s2" and "reader s2 = Reading"
    and "task_phase (tasks s2 ! i) = Waiting" and "registered s2 i" and "task_events s2 i = []"
    and "length (reply_rpcs js (task_sid t) op beh) < fuel"
    and "read_loop api codec js outs 0 fuel (framed_reader_new codec) (map Inr chunks) (conn s2) = (ended, c, eff)"
  shows "nuc_seen nu' = nuc_seen nu @ [(op, call_payload (task_call t))] \<and>
    (\<exists>reads s3. only_reads reads \<and> run (sys_step api codec js tk) s2 reads s3 \<and> conn s3 = c \<and>
      (case subscriber_run js i (task_sid t) op beh of
         None \<Rightarrow> \<nexists>s4. sys_step api codec js tk s3 (Wake i) s4
       | Some (ls, p) \<Rightarrow> \<exists>s4. run (sys_step api codec js tk) s3 ls s4 \<and> task_phase (tasks s4 ! i) = p \<and>
           (\<nexists>d s5. sys_step api codec js tk s4 (NextEvent i (Some d)) s5))) \<and>
    (\<forall>ack events. beh = Subscribe ack events \<longrightarrow> (\<forall>(model, ev) \<in> set events.
       decode_event js de (reply_rpc js (task_sid t) model ev 0) = map_err from_json_error (de ev)))"
proof -
  note ex = exchange_runs [OF assms(1-3,5-9,12-14) assms(15) [unfolded assms(11)] assms(16-23)
      assms(25) [unfolded assms(11)] assms(26), folded assms(11)]
  let ?s3 = "s2\<lparr>conn := c, log := log s2 @ eff\<rparr>"
  have i: "i < length (tasks ?s3)" "task_phase (tasks ?s3 ! i) = Waiting" "call_kind (task_call (tasks ?s3 ! i)) = SubscribeCall"
    using ex(2,3) assms(10) by simp_all
  have "abs_registry (conn_registry (conn s2)) (task_sid t) = Some (Subscription (task_chan t))"
    using ex(6) assms(10) by (simp add: task_sink_kind)
  from subscription_dispatched [where m = "abs_registry (conn_registry (conn s2))" and op = op and beh = beh, OF this assms(3) ex(8)]
  have "task_events ?s3 i = subscriber_events js (task_sid t) op (task_chan t) beh"
    using ex(7) assms(24) ex(2) by (simp add: task_events_def)
  note steps = subscription_steps [where api = api and codec = codec, OF assms(4) i this]
  moreover obtain reads where "only_reads reads" "run (sys_step api codec js tk) s2 reads ?s3" using ex(5) by blast
  moreover have "conn ?s3 = c" by simp
  moreover have "\<forall>ack events. beh = Subscribe ack events \<longrightarrow> (\<forall>(model, ev) \<in> set events.
       decode_event js de (reply_rpc js (task_sid t) model ev 0) = map_err from_json_error (de ev))"
    by (auto intro!: reply_decoded(2) [OF assms(3) ex(8)] simp: behavior_docs_def image_iff Bex_def)
  ultimately show ?thesis using ex(1) by blast
qed

section \<open>A request and a subscription\<close>

definition demo_app :: "i32 \<Rightarrow> string \<Rightarrow> (string \<times> unit header_value) list \<times> bytes" where
  "demo_app fl model =
     ([('':message-type'', Int32 0), ('':message-flags'', Int32 fl), ('':stream-id'', Int32 1),
       ('':content-type'', Str ''application/json''), (''service-model-type'', Str model)], [1])"

definition both_codec :: "((string \<times> unit header_value) list \<times> bytes, unit) codec" where
  "both_codec = table_codec [activate_message pair_api 1 ''op'' ''model'' [1], demo_app 2 ''opResponse'',
     demo_app 0 ''opResponse'', demo_app 0 ''event'']"

lemma both_codec_laws [simp]: "codec_laws both_codec (\<lambda>_. [])"
  by (simp add: both_codec_def codec_laws_table_codec)

lemma write_both_codec [simp]:
  "write_message_to both_codec (activate_message pair_api 1 ''op'' ''model'' [1]) = Inr [0, 0]"
  "write_message_to both_codec (demo_app 2 ''opResponse'') = Inr [1, 0]"
  "write_message_to both_codec (demo_app 0 ''opResponse'') = Inr [2, 0]"
  "write_message_to both_codec (demo_app 0 ''event'') = Inr [3, 0]"
  by (simp_all add: both_codec_def write_table_codec activate_message_def demo_app_def
      int32_header_def string_header_def)

definition demo_ready :: "call_kind \<Rightarrow> session" where
  "demo_ready k = demo_start\<lparr>conn := demo_conn [(1, sink_of_call (demo_call k) 0)] 2 1 False,
     tasks := [demo_task k 1 0 Registered]\<rparr>"

definition demo_out :: "call_kind \<Rightarrow> session" where
  "demo_out k = demo_start\<lparr>
     conn := (demo_conn [(1, sink_of_call (demo_call k) 0)] 2 1 False)\<lparr>conn_writer := \<lparr>wire = [0, 0], shut = False\<rparr>\<rparr>,
     tasks := [demo_task k 1 0 Waiting]\<rparr>"

lemma demo_ready_reach: "reach session_init (sys_step pair_api both_codec demo_json demo_tokio) (demo_ready k)"
proof -
  have "exec_run pair_api both_codec demo_json demo_tokio [Start (demo_call k), Register 0] demo_start = Some (demo_ready k)"
    by (cases k) (simp_all add: demo_start_def demo_ready_def demo_defs)
  moreover have "reach session_init (sys_step pair_api both_codec demo_json demo_tokio) demo_start"
    using demo_start_init by (rule reach_init)
  ultimately show ?thesis by (blast intro: reach_run exec_run_run)
qed

lemma demo_ready_send: "sys_step pair_api both_codec demo_json demo_tokio (demo_ready k) (Send 0 WriteOk) (demo_out k)"
proof -
  have "send_activate pair_api both_codec demo_json 1 ''op'' ''model'' (JObj []) WriteOk (conn (demo_ready k)) =
      (Sent, conn (demo_out k))"
    by (simp add: send_activate_ok [OF demo_to_vec_object] demo_ready_def demo_out_def demo_start_def demo_conn_def)
  then show ?thesis
    by (intro sys_exec_step) (simp add: in_phase_def demo_ready_def demo_out_def demo_start_def demo_task_def
      demo_call_def set_phase_def set_conn_def)
qed

lemma demo_app_messages:
  "app_message pair_api demo_json 1 model (JObj []) term = Some (demo_app (if term then 2 else 0) model)"
  by (simp add: app_message_def demo_app_def mock_int32_def mock_string_def mock_constants)

lemma both_turn:
  "nucleus_turn pair_api both_codec demo_json [''op'' \<mapsto> beh] (\<lambda>_. WriteOk)
     (Incoming (Inr (Some (activate_message pair_api 1 ''op'' ''model'' [1])))) (demo_nucleus [] [] []) =
   nucleus_send both_codec (\<lambda>_. WriteOk) (behavior_replies pair_api demo_json 1 ''op'' beh)
     (demo_nucleus [] [(''op'', JObj [])] [\<lparr>of_message_type = 0, of_stream_id = 1, of_flags = 0, of_payload = [1]\<rparr>])"
proof -
  have "json_read demo_json [1] = Inr (JObj [])"
    by (simp add: demo_json_def table_json_def)
  then show ?thesis
    using mock_parse_activate [OF msg_laws_pair_api, of 1 "''op''" "''model''" "[1]"]
    by (simp add: nucleus_turn_def demo_nucleus_def mock_constants)
qed

lemma demo_out_facts:
  "task_phase (tasks (demo_out k) ! 0) = Waiting" "tasks (demo_ready k) ! 0 = demo_task k 1 0 Registered"
  "wire (conn_writer (conn (demo_out k))) = wire (conn_writer (conn (demo_ready k))) @ concat [[0], [0]]"
  "reader (demo_out k) = Reading" "registered (demo_out k) 0" "task_events (demo_out k) 0 = []"
  by (simp_all add: demo_out_def demo_ready_def demo_start_def demo_task_def demo_conn_def demo_call_def registered_def
      task_entry_def task_sink_def sink_of_call_def task_events_def)

lemma both_turns:
  "nucleus_turn pair_api both_codec demo_json [''op'' \<mapsto> Respond (JObj [])] (\<lambda>_. WriteOk)
     (Incoming (Inr (Some (activate_message pair_api 1 ''op'' ''model'' [1])))) (demo_nucleus [] [] []) =
   (Going, demo_nucleus [1, 0] [(''op'', JObj [])] [\<lparr>of_message_type = 0, of_stream_id = 1, of_flags = 0, of_payload = [1]\<rparr>])"
  "nucleus_turn pair_api both_codec demo_json [''op'' \<mapsto> Subscribe (JObj []) [(''event'', JObj []), (''event'', JObj [])]] (\<lambda>_. WriteOk)
     (Incoming (Inr (Some (activate_message pair_api 1 ''op'' ''model'' [1])))) (demo_nucleus [] [] []) =
   (Going, demo_nucleus [2, 0, 3, 0, 3, 0] [(''op'', JObj [])]
      [\<lparr>of_message_type = 0, of_stream_id = 1, of_flags = 0, of_payload = [1]\<rparr>])"
  unfolding both_turn
  by (simp_all add: nucleus_send_def behavior_replies_def demo_app_messages mock_write_frame_def socket_write_def
      demo_nucleus_def)

lemma both_read:
  "\<exists>rd. mock_read_frame both_codec (framed_reader_new both_codec) (map Inr [[0], [0]]) =
      (Ready (Inr (Some (activate_message pair_api 1 ''op'' ''model'' [1]))), rd, [])"
  using first_frame_read [OF both_codec_laws write_both_codec(1), of "[[0], [0]]"] by simp

theorem request_round_trip_witness:
  "\<exists>reads s3. run (sys_step pair_api both_codec demo_json demo_tokio) (demo_out RequestCall) reads s3 \<and>
     sys_step pair_api both_codec demo_json demo_tokio s3 (Wake 0)
       (set_phase 0 (Returned (Inr (reply_rpc demo_json 1 ''opResponse'' (JObj []) FLAG_TERMINATE_STREAM))) s3)"
proof -
  obtain rd where read: "mock_read_frame both_codec (framed_reader_new both_codec) (map Inr [[0], [0]]) =
      (Ready (Inr (Some (activate_message pair_api 1 ''op'' ''model'' [1]))), rd, [])"
    using both_read by blast
  obtain ended c eff where loop: "read_loop pair_api both_codec demo_json (\<lambda>_. WriteOk) 0 2 (framed_reader_new both_codec)
      (map Inr [[1], [0]]) (conn (demo_out RequestCall)) = (ended, c, eff)"
    by (rule prod_cases3)
  note trip = request_round_trip [where t = "demo_task RequestCall 1 0 Registered" and op = "''op''" and sent = "[[0], [0]]",
      OF msg_laws_pair_api both_codec_laws demo_json_roundtrip demo_tokio_laws demo_ready_reach demo_ready_send
        _ _ _ _ _ _ _ read _ both_turns(1) _ _ _ run_Nil _ _ _ _ loop, THEN conjunct2, THEN conjunct1]
  show ?thesis
    by (rule exE [OF trip])
      (auto simp: demo_out_facts demo_task_def demo_call_def demo_nucleus_def reply_rpcs_def told_def, (intro exI conjI; assumption))
qed

text \<open>The subscription is acknowledged and gets two events; then it has nothing more to give.\<close>

theorem subscription_round_trip_witness:
  "\<exists>reads s3 s4. run (sys_step pair_api both_codec demo_json demo_tokio) (demo_out SubscribeCall) reads s3 \<and>
     run (sys_step pair_api both_codec demo_json demo_tokio) s3
       [Wake 0, NextEvent 0 (Some (Inr (reply_rpc demo_json 1 ''event'' (JObj []) 0))),
        NextEvent 0 (Some (Inr (reply_rpc demo_json 1 ''event'' (JObj []) 0)))] s4 \<and>
     task_phase (tasks s4 ! 0) = Streaming (Suc (Suc (Suc 0)))"
proof -
  obtain rd where read: "mock_read_frame both_codec (framed_reader_new both_codec) (map Inr [[0], [0]]) =
      (Ready (Inr (Some (activate_message pair_api 1 ''op'' ''model'' [1]))), rd, [])"
    using both_read by blast
  obtain ended c eff where loop: "read_loop pair_api both_codec demo_json (\<lambda>_. WriteOk) 0 4 (framed_reader_new both_codec)
      (map Inr [[2], [0, 3, 0, 3], [0]]) (conn (demo_out SubscribeCall)) = (ended, c, eff)"
    by (rule prod_cases3)
  note trip = subscription_round_trip [where t = "demo_task SubscribeCall 1 0 Registered" and op = "''op''" and sent = "[[0], [0]]",
      OF msg_laws_pair_api both_codec_laws demo_json_roundtrip demo_tokio_laws demo_ready_reach demo_ready_send
        _ _ _ _ _ _ _ read _ both_turns(2) _ _ _ run_Nil _ _ _ _ _ loop, THEN conjunct2, THEN conjunct1]
  show ?thesis
    by (rule exE [OF trip])
      (auto simp: demo_out_facts demo_task_def demo_call_def demo_nucleus_def reply_rpcs_def subscriber_run_def del: run_ConsE, (intro exI conjI; assumption))
qed
end
