(* ===== verification/Transit.thy ===== *)
theory Transit
  imports EndToEnd
begin

text \<open>
  What travels between the program and the nucleus: the bytes of one direction as the encodings of messages and a
  part of a frame (\<open>pipe\<close>), what a step of the program delivers to its channels and puts on the wire, and what a
  turn of the nucleus does with a message and answers.
\<close>

section \<open>Bytes in flight\<close>

text \<open>
  The backlog of a reader and the bytes on their way to it hold exactly the encodings of some messages, and a
  part of a frame.
\<close>

definition pipe :: "('m, 'd) codec \<Rightarrow> ('d \<Rightarrow> bytes) \<Rightarrow> 'd framed_reader \<Rightarrow> bytes \<Rightarrow> 'm list \<Rightarrow> bytes \<Rightarrow> bool" where
  "pipe codec held rd flying ms part \<longleftrightarrow> partial_frame codec part \<and>
     (\<exists>ws. map (write_message_to codec) ms = map Inr ws \<and> backlog held rd @ flying = concat ws @ part)"

lemma pipe_write:
  assumes "pipe codec held rd flying ms []" "map (write_message_to codec) ms' = map Inr ws'" "partial_frame codec part"
  shows "pipe codec held rd (flying @ concat ws' @ part) (ms @ ms') part"
proof -
  obtain ws where ws: "map (write_message_to codec) ms = map Inr ws" "backlog held rd @ flying = concat ws"
    using assms(1) by (auto simp: pipe_def)
  then have "backlog held rd @ (flying @ concat ws' @ part) = concat (ws @ ws') @ part"
    by (metis append.assoc concat_append)
  then show ?thesis using assms(2,3) ws(1) unfolding pipe_def by (metis map_append)
qed

lemma partial_frame_pending:
  assumes "codec_laws codec held" "partial_frame codec (backlog held rd @ concat chunks)" "[] \<notin> set chunks"
  shows "\<exists>rd'. next_frame codec rd (map Inr chunks) = (Pending, rd', [])"
  using next_frame_ending [OF waits_on_partial_frame [OF assms(1)] assms(2,3), where ending = "[]"] by auto

lemma pipe_read:
  assumes "codec_laws codec held" "pipe codec held rd flying ms part" "flying = concat chunks @ later" "[] \<notin> set chunks"
    and "next_frame codec rd (map Inr chunks) = (Ready frame, rd', [])"
  shows "\<exists>m ms'. ms = m # ms' \<and> frame = Inr (Some m) \<and> pipe codec held rd' later ms' part"
proof -
  obtain ws where ws: "map (write_message_to codec) ms = map Inr ws" "partial_frame codec part"
    "(backlog held rd @ concat chunks) @ later = concat ws @ part"
    using assms(2,3) by (auto simp: pipe_def)
  have whole: "\<not> partial_frame codec (backlog held rd @ concat chunks)"
    using partial_frame_pending [OF assms(1) _ assms(4)] assms(5) by fastforce
  show ?thesis
  proof (cases ms)
    case Nil
    then have "partial_frame codec (backlog held rd @ concat chunks)"
      using ws partial_frame_prefix [of codec _ later] by simp
    then show ?thesis using whole by simp
  next
    case (Cons m ms')
    then obtain w ws' where w: "ws = w # ws'" "write_message_to codec m = Inr w"
      "map (write_message_to codec) ms' = map Inr ws'" using ws(1) by (cases ws) auto
    define arrived where "arrived = backlog held rd @ concat chunks"
    then have "arrived @ later = w @ (concat ws' @ part)" using ws(3) w(1) by simp
    then obtain us where us: "arrived = w @ us \<and> us @ later = concat ws' @ part \<or> arrived @ us = w \<and> later = us @ concat ws' @ part"
      using append_eq_append_conv2 [of arrived later w "concat ws' @ part"] by blast
    have "(\<exists>us. arrived = w @ us \<and> us @ later = concat ws' @ part) \<or> (\<exists>us. arrived @ us = w \<and> us \<noteq> [])"
      using us by (cases "us = []") auto
    then consider us where "backlog held rd @ concat chunks = w @ us" "us @ later = concat ws' @ part"
      | us where "w = (backlog held rd @ concat chunks) @ us" "us \<noteq> []"
      unfolding arrived_def by metis
    then show ?thesis
    proof cases
      case 1
      obtain r' rest where "next_frame codec rd (map Inr chunks) = (Ready (Inr (Some m)), r', map Inr rest)"
        "backlog held r' @ concat rest = us"
        using next_frame_complete [OF assms(1) w(2) 1(1) assms(4), of "[]"] by auto
      then show ?thesis using assms(5) Cons w(3) ws(2) 1(2) by (auto simp: pipe_def)
    next
      case 2
      then have "partial_frame codec (backlog held rd @ concat chunks)"
        using w(2) unfolding partial_frame_def by blast
      then show ?thesis using whole by simp
    qed
  qed
qed


section \<open>What a step delivers\<close>

definition deliveries :: "effect list \<Rightarrow> delivery list" where
  "deliveries evs = concat (map (\<lambda>e. case e of OneshotSend _ d \<Rightarrow> [d] | MpscSend _ d \<Rightarrow> [d] | SenderDrop _ \<Rightarrow> []) evs)"

lemma deliveries_simps [simp]:
  "deliveries [] = []" "deliveries (xs @ ys) = deliveries xs @ deliveries ys"
  "deliveries [sink_send sk d] = [d]" "deliveries (sink_send sk d # evs) = d # deliveries evs"
  "deliveries (SenderDrop c # evs) = deliveries evs"
  by (cases sk; simp add: deliveries_def)+

lemma deliveries_reg_remove: "deliveries (chan_events ch (snd (reg_remove sid reg))) = []"
  by (simp add: reg_remove_def split: option.splits)

lemma deliveries_dispatch:
  assumes "hm_wf reg" "chans_distinct reg" "(sid, sk) \<in> set reg"
  shows "deliveries (chan_events (sink_chan sk) (snd (dispatch js rpc reg))) =
    (if stream_id rpc = sid then [delivery_of js rpc] else [])"
proof (cases "stream_id rpc = sid")
  case True
  then have "hm_get (stream_id rpc) reg = Some sk" using assms by (simp add: hm_get_Some_iff)
  then show ?thesis using True by (simp add: dispatch_eq)
next
  case False
  then show ?thesis using other_chan [OF assms(2,3), of "stream_id rpc"]
    by (auto simp: dispatch_eq split: option.splits)
qed

lemma deliveries_fail_all:
  assumes "chans_distinct reg" "(sid, sk) \<in> set reg"
  shows "deliveries (chan_events (sink_chan sk) (snd (fail_all err reg))) = [Inl err]"
proof -
  have "distinct (map (sink_chan \<circ> snd) reg)" using assms(1) by (simp add: chans_distinct_def)
  from chan_events_fail_all_present [OF this assms(2)] show ?thesis
    by (cases sk) (simp_all add: fail_sink_def deliveries_def)
qed

lemma step_deliveries:
  assumes step: "sys_step api codec js tk s l s'" and inv: "session_inv s"
    and i: "i < length (tasks s)" "has_channel (tasks s ! i)"
  shows "deliveries (task_events s' i) = deliveries (task_events s i) @
    (if \<not> registered s i then []
     else if l = FailAll then [Inl ConnectionClosed]
     else map (delivery_of js) (read_for api (task_sid (tasks s ! i)) l))"
proof (cases "registered s i")
  case False
  then show ?thesis using step_unregistered(2) [OF step inv i] by simp
next
  case True
  let ?c = "task_chan (tasks s ! i)" and ?reg = "conn_registry (conn s)"
  note ok = session_inv_streams [OF inv]
  have ev: "task_events s i = chan_events ?c (log s)" "task_events s' i = chan_events ?c (log s')"
    using step_task(5) [OF step i] by (simp_all add: task_events_def)
  have mem: "(task_sid (tasks s ! i), task_sink (tasks s ! i)) \<in> set ?reg"
    using True by (simp add: registered_def task_entry_def)
  show ?thesis
    using step
  proof cases
    case (step_read frame out flow ce)
    obtain c' eff where ce: "ce = (c', eff)" by (cases ce)
    note fr = read_loop_turn_frame(2) [OF step_read(4) [unfolded ce]]
    show ?thesis
    proof (cases "frame_rpc api frame")
      case None
      then show ?thesis using step_read(1,2) ce fr True unfolding ev by (simp add: read_for_def label_rpc_def)
    next
      case (Some rpc)
      then have "eff = snd (dispatch js rpc ?reg)" using fr by (metis option.simps(5) snd_conv)
      then show ?thesis
        using step_read(1,2) ce Some True deliveries_dispatch [OF streams_okD(1) [OF ok] streams_ok_distinct [OF ok] mem]
        unfolding ev by (simp add: read_for_def label_rpc_def)
    qed
  next
    case (step_fail_all drained)
    have "chans_distinct drained" "set drained = set ?reg"
      using streams_ok_distinct [OF streams_ok_same_entries [OF ok]] step_fail_all mset_eq_setD by blast+
    then show ?thesis
      using step_fail_all True mem deliveries_fail_all [of drained "task_sid (tasks s ! i)" "task_sink (tasks s ! i)"]
      unfolding ev by (simp add: read_loop_fail_frame)
  qed (unfold ev, auto simp: read_for_def label_rpc_def register_def reg_insert_remove unregister_frame
      deliveries_reg_remove split: prod.splits)
qed

section \<open>What a step of the client writes\<close>

text \<open>
  The writes the socket allows: once the write half was shut down no byte gets through any more, and a future that is dropped
  inside its write, or a ping response that fails, has put nothing on the wire.
\<close>

definition socket_takes :: "writer \<Rightarrow> write_outcome \<Rightarrow> bool" where
  "socket_takes wr out \<longleftrightarrow> (case out of WriteOk \<Rightarrow> \<not> shut wr | WriteErr n err \<Rightarrow> shut wr \<longrightarrow> n = 0)"

definition whole_outcome :: "write_outcome \<Rightarrow> bool" where
  "whole_outcome out \<longleftrightarrow> (case out of WriteOk \<Rightarrow> True | WriteErr n err \<Rightarrow> n = 0)"

definition socket_allows :: "writer \<Rightarrow> 'm label \<Rightarrow> bool" where
  "socket_allows wr l \<longleftrightarrow> (case l of
      Send i out \<Rightarrow> socket_takes wr out | CancelSend i n \<Rightarrow> n = 0 | CloseSend i out \<Rightarrow> socket_takes wr out
    | Read frame out \<Rightarrow> socket_takes wr out \<and> whole_outcome out | _ \<Rightarrow> True)"

text \<open>The messages on their way to the nucleus: activations, by their task, and those it makes nothing of but a record.\<close>

datatype 'm outgoing = Activation nat | Aside 'm

definition activation_of :: "('m, 'h, 'o) msg_api \<Rightarrow> json_api \<Rightarrow> task \<Rightarrow> 'm" where
  "activation_of api js t = activate_message api (task_sid t) (call_operation (task_call t)) (call_model (task_call t))
     (text_of js (call_payload (task_call t)))"

definition out_msg :: "('m, 'h, 'o) msg_api \<Rightarrow> json_api \<Rightarrow> task list \<Rightarrow> 'm outgoing \<Rightarrow> 'm" where
  "out_msg api js ts og = (case og of Activation i \<Rightarrow> activation_of api js (ts ! i) | Aside m \<Rightarrow> m)"

definition aside :: "('m, 'h, 'o) msg_api \<Rightarrow> 'm \<Rightarrow> bool" where
  "aside api m \<longleftrightarrow> (let (mt, fl, sid, smt, body) = mock_parse api m in
     mt \<noteq> MT_APPLICATION_MESSAGE \<or> fl AND MOCK_FLAG_TERMINATE_STREAM \<noteq> 0 \<and> body = [])"

lemma aside_messages:
  assumes "msg_laws api"
  shows "aside api (terminate_message api sid)" "aside api (ping_response_message api body)"
  using assms
  by (simp_all add: aside_def mock_parse_def terminate_message_def ping_response_message_def int32_header_def msg_lawsD
      mock_as_i32_def mock_constants flag_defs)

definition task_doc :: "task \<Rightarrow> json" where
  "task_doc t = call_payload (task_call t)"

definition outgoing_ok :: "('m, 'h, 'o) msg_api \<Rightarrow> json_api \<Rightarrow> session \<Rightarrow> session \<Rightarrow> 'm outgoing \<Rightarrow> bool" where
  "outgoing_ok api js s s' og \<longleftrightarrow> (case og of
      Aside m \<Rightarrow> aside api m
    | Activation i \<Rightarrow> i < length (tasks s) \<and> task_phase (tasks s ! i) = Registered \<and>
        task_phase (tasks s' ! i) \<notin> {Allocated, Registered} \<and>
        to_vec js (task_doc (tasks s ! i)) = Inr (text_of js (task_doc (tasks s ! i))))"

text \<open>
  A write puts nothing on the wire, a whole message, or a part of its frame, after which the write half is shut down. Only
  the last message of an activation makes a task wait.
\<close>

definition starts_waiting :: "session \<Rightarrow> session \<Rightarrow> nat \<Rightarrow> bool" where
  "starts_waiting s s' i \<longleftrightarrow> i < length (tasks s') \<and> task_phase (tasks s' ! i) = Waiting \<and>
     \<not> (i < length (tasks s) \<and> task_phase (tasks s ! i) = Waiting)"

definition writes ::
  "('m, 'h, 'o) msg_api \<Rightarrow> ('m, 'd) codec \<Rightarrow> json_api \<Rightarrow> session \<Rightarrow> session \<Rightarrow> 'm outgoing list \<Rightarrow> bytes \<Rightarrow> bool" where
  "writes api codec js s s' ogs part \<longleftrightarrow> (let wr = conn_writer (conn s); wr' = conn_writer (conn s') in
     \<exists>ws. map (write_message_to codec) (map (out_msg api js (tasks s)) ogs) = map Inr ws \<and>
       wire wr' = wire wr @ concat ws @ part \<and> partial_frame codec part \<and> length ogs \<le> 1 \<and>
       (\<forall>og \<in> set ogs. outgoing_ok api js s s' og) \<and> (shut wr \<longrightarrow> shut wr' \<and> ogs = [] \<and> part = []) \<and>
       (part \<noteq> [] \<longrightarrow> shut wr' \<and> ogs = []) \<and> (\<forall>i. starts_waiting s s' i \<longrightarrow> ogs = [Activation i]))"

lemma write_message_puts:
  assumes "write_message codec m out wr = (r, wr')" "socket_takes wr out"
  shows "(\<exists>w. r = Inr () \<and> \<not> shut wr \<and> \<not> shut wr' \<and> write_message_to codec m = Inr w \<and> wire wr' = wire wr @ w) \<or>
    (\<exists>err w. r = Inl err \<and> \<not> shut wr \<and> shut wr' \<and> write_message_to codec m = Inr w \<and> wire wr' = wire wr @ w) \<or>
    (\<exists>err part. r = Inl err \<and> partial_frame codec part \<and> wire wr' = wire wr @ part \<and>
       (shut wr \<longrightarrow> shut wr' \<and> part = []) \<and> (part \<noteq> [] \<longrightarrow> shut wr'))"
proof (cases "write_message_to codec m")
  case (Inl e)
  then show ?thesis using assms(1) by (auto simp: write_message_def partial_frame_def)
next
  case (Inr w)
  show ?thesis
  proof (cases out)
    case WriteOk
    then show ?thesis using assms Inr by (auto simp: write_message_def socket_write_def socket_takes_def)
  next
    case (WriteErr n err)
    then have wr': "wire wr' = wire wr @ take n w" "shut wr'" "r = Inl (from_io_error err)"
      using assms(1) Inr by (auto simp: write_message_def socket_write_def)
    show ?thesis
    proof (cases "n < length w")
      case True
      have "partial_frame codec (take n w)"
        unfolding partial_frame_def using Inr True
        by (intro disjI2 exI [of _ m] exI [of _ "drop n w"]) simp
      then show ?thesis using wr' WriteErr assms(2) by (auto simp: socket_takes_def)
    next
      case False
      then show ?thesis using wr' WriteErr assms(2) Inr
        by (cases "w = []") (auto simp: socket_takes_def partial_frame_def)
    qed
  qed
qed

lemma writes_nothing:
  assumes "wire (conn_writer (conn s')) = wire (conn_writer (conn s))" "shut (conn_writer (conn s)) \<Longrightarrow> shut (conn_writer (conn s'))"
    "\<And>i. \<not> starts_waiting s s' i"
  shows "writes api codec js s s' [] []"
  using assms by (simp add: writes_def partial_frame_def)

lemma writes_message:
  assumes "write_message_to codec (out_msg api js (tasks s) og) = Inr w" "\<not> shut (conn_writer (conn s))"
    "wire (conn_writer (conn s')) = wire (conn_writer (conn s)) @ w" "outgoing_ok api js s s' og"
    "\<And>i. starts_waiting s s' i \<Longrightarrow> og = Activation i"
  shows "writes api codec js s s' [og] []"
  using assms by (auto simp: writes_def Let_def partial_frame_def intro!: exI [of _ "[w]"])

lemma writes_part:
  assumes "partial_frame codec part" "shut (conn_writer (conn s)) \<Longrightarrow> shut (conn_writer (conn s')) \<and> part = []"
    "wire (conn_writer (conn s')) = wire (conn_writer (conn s)) @ part" "part \<noteq> [] \<Longrightarrow> shut (conn_writer (conn s'))"
    "\<And>i. \<not> starts_waiting s s' i"
  shows "writes api codec js s s' [] part"
  using assms by (auto simp: writes_def)

text \<open>The write of one message by a task, and the answer of the read loop.\<close>

lemma writes_by_task:
  assumes "write_message codec (out_msg api js (tasks s) og) out (conn_writer (conn s)) = (r, conn_writer (conn s'))"
    and "socket_takes (conn_writer (conn s)) out" "outgoing_ok api js s s' og"
    and "\<And>i. starts_waiting s s' i \<Longrightarrow> isl r = False \<and> og = Activation i"
  shows "\<exists>ogs part. writes api codec js s s' ogs part"
  using write_message_puts [OF assms(1,2)]
proof (elim disjE exE conjE)
  fix w assume "\<not> shut (conn_writer (conn s))" "write_message_to codec (out_msg api js (tasks s) og) = Inr w"
    "wire (conn_writer (conn s')) = wire (conn_writer (conn s)) @ w"
  then show ?thesis using assms(3,4) by (blast intro: writes_message)
next
  fix err w assume "\<not> shut (conn_writer (conn s))" "write_message_to codec (out_msg api js (tasks s) og) = Inr w"
    "wire (conn_writer (conn s')) = wire (conn_writer (conn s)) @ w"
  then show ?thesis using assms(3,4) by (blast intro: writes_message)
next
  fix err part assume "r = Inl err" "partial_frame codec part" "wire (conn_writer (conn s')) = wire (conn_writer (conn s)) @ part"
    "shut (conn_writer (conn s)) \<longrightarrow> shut (conn_writer (conn s')) \<and> part = []" "part \<noteq> [] \<longrightarrow> shut (conn_writer (conn s'))"
  then show ?thesis using assms(4) by (intro exI [of _ "[]"] exI [of _ part] writes_part) auto
qed

lemma read_writes:
  assumes "msg_laws api" "read_loop_turn api codec js frame out c = (flow, c', eff)" "whole_outcome out" "socket_takes (conn_writer c) out"
  shows "shut (conn_writer c') = shut (conn_writer c) \<and> (wire (conn_writer c') = wire (conn_writer c) \<or>
    (\<exists>m w. aside api m \<and> \<not> shut (conn_writer c) \<and> write_message_to codec m = Inr w \<and>
       wire (conn_writer c') = wire (conn_writer c) @ w))"
proof -
  have "shut wr' = shut wr \<and> (wire wr' = wire wr \<or> (\<exists>w. \<not> shut wr \<and> write_message_to codec m = Inr w \<and> wire wr' = wire wr @ w))"
    if "write_frame codec m out wr = (r, wr')" "socket_takes wr out" for m wr r wr'
    using that assms(3)
    by (auto simp: write_frame_def socket_write_def whole_outcome_def socket_takes_def split: sum.splits write_outcome.splits)
  then show ?thesis
    using assms(2,4) aside_messages(2) [OF assms(1)]
    by (fastforce simp: read_loop_turn_def handle_protocol_message_def split: sum.splits option.splits if_splits prod.splits
        message_type.splits)
qed

lemma starts_waiting_step:
  "sys_step api codec js tk s l s' \<Longrightarrow> starts_waiting s s' i \<Longrightarrow> \<exists>out. l = Send i out"
  by (cases rule: sys_step.cases)
    (auto simp: starts_waiting_def nth_append nth_list_update request_result_def subscribe_result_def
      split: if_splits sent.splits option.splits sum.splits)

lemma step_writes:
  assumes "msg_laws api" and step: "sys_step api codec js tk s l s'" and "socket_allows (conn_writer (conn s)) l"
  shows "\<exists>ogs part. writes api codec js s s' ogs part"
  using step
proof cases
  case (step_send i t out outcome c)
  then have takes: "socket_takes (conn_writer (conn s)) out" using assms(3) by (simp add: socket_allows_def)
  have starts: "starts_waiting s s' j \<Longrightarrow> j = i \<and> outcome = Sent" for j
    using starts_waiting_step [OF step, of j] step_send
    by (auto simp: starts_waiting_def split: sent.splits)
  show ?thesis
  proof (cases "to_vec js (call_payload (task_call t))")
    case (Inl e)
    then have "conn s' = conn s \<and> outcome \<noteq> Sent" using step_send by (auto simp: send_activate_def)
    then show ?thesis using starts by (intro exI [of _ "[]"] writes_nothing) auto
  next
    case (Inr body)
    obtain r wr where res: "write_message codec (activate_message api (task_sid t) (call_operation (task_call t)) (call_model (task_call t)) body)
           out (conn_writer (conn s)) = (r, wr)" by (rule prod.exhaust)
    then have "c = (conn s)\<lparr>conn_writer := wr\<rparr> \<and> outcome = (case r of Inl err \<Rightarrow> WriteFailed err | Inr _ \<Rightarrow> Sent)"
      using step_send Inr by (auto simp: send_activate_def split: sum.splits)
    then have c: "conn_writer (conn s') = wr" "outcome = Sent \<longleftrightarrow> \<not> isl r"
        "task_phase (tasks s' ! i) \<notin> {Allocated, Registered}"
      using step_send by (auto split: sum.splits)
    show ?thesis
    proof (rule writes_by_task [where og = "Activation i", OF _ takes])
      show "write_message codec (out_msg api js (tasks s) (Activation i)) out (conn_writer (conn s)) = (r, conn_writer (conn s'))"
        using res c(1) Inr step_send by (simp add: out_msg_def activation_of_def text_of_def)
      show "outgoing_ok api js s s' (Activation i)"
        using c(3) Inr step_send by (simp add: outgoing_ok_def task_doc_def text_of_def)
    qed (use starts c(2) in auto)
  qed
next
  case (step_cancel_send i t n c)
  then show ?thesis using assms(3) starts_waiting_step [OF step]
    by (intro exI [of _ "[]"] writes_nothing) (auto simp: drop_activate_def drop_write_def socket_allows_def split: sum.splits)
next
  case (step_close_send i t out)
  then have takes: "socket_takes (conn_writer (conn s)) out" using assms(3) by (simp add: socket_allows_def)
  obtain r wr where res: "write_message codec (terminate_message api (task_sid t)) out (conn_writer (conn s)) = (r, wr)"
    by (rule prod.exhaust)
  then have "conn_writer (conn s') = wr" using step_close_send by (simp add: send_terminate_def)
  then show ?thesis
    using res aside_messages(1) [OF assms(1)] starts_waiting_step [OF step] step_close_send
    by (intro writes_by_task [where og = "Aside (terminate_message api (task_sid t))", OF _ takes])
      (auto simp: out_msg_def outgoing_ok_def)
next
  case (step_read frame out flow ce)
  obtain c' eff where ce: "ce = (c', eff)" by (cases ce)
  have takes: "socket_takes (conn_writer (conn s)) out" "whole_outcome out"
    using assms(3) step_read by (simp_all add: socket_allows_def)
  have none: "\<not> starts_waiting s s' i" for i using starts_waiting_step [OF step] step_read by blast
  have wr: "conn_writer (conn s') = conn_writer c'" using step_read(2) ce by simp
  note puts = read_writes [OF assms(1) step_read(4) [unfolded ce] takes(2,1), folded wr]
  show ?thesis
  proof (cases "wire (conn_writer (conn s')) = wire (conn_writer (conn s))")
    case True
    then show ?thesis using puts none by (intro exI [of _ "[]"] writes_nothing) auto
  next
    case False
    then obtain m w where "aside api m" "\<not> shut (conn_writer (conn s))" "write_message_to codec m = Inr w"
      "wire (conn_writer (conn s')) = wire (conn_writer (conn s)) @ w" using puts by blast
    then show ?thesis using none
      by (intro exI [of _ "[Aside m]"] exI [of _ "[]"] writes_message) (auto simp: out_msg_def outgoing_ok_def)
  qed
qed ((intro exI [of _ "[]"] writes_nothing; use starts_waiting_step [OF step] in \<open>force simp: alloc_stream_id_def
    register_def unregister_def read_loop_fail_def read_loop_signal_def split: prod.splits\<close>)+)

text \<open>Once a task has gone on from registering its stream, it never comes back to it.\<close>

lemma step_past_registered:
  assumes "sys_step api codec js tk s l s'" "i < length (tasks s)" "task_phase (tasks s ! i) \<notin> {Allocated, Registered}"
  shows "task_phase (tasks s' ! i) \<notin> {Allocated, Registered}"
  using assms
  by cases (auto simp: nth_append nth_list_update request_result_def subscribe_result_def
      split: sent.splits option.splits sum.splits)

section \<open>What a turn of the nucleus writes\<close>

text \<open>The deliveries a call gets when the nucleus is told to behave in a way; the first is what \<open>told\<close> says.\<close>

definition told_all :: "json_api \<Rightarrow> i32 \<Rightarrow> string \<Rightarrow> behavior \<Rightarrow> delivery list" where
  "told_all js sid op beh = (case beh of
      Respond answer \<Rightarrow> [Inr (reply_rpc js sid (op @ ''Response'') answer FLAG_TERMINATE_STREAM)]
    | Error model message \<Rightarrow> [Inl (Service model message)]
    | Subscribe ack events \<Rightarrow>
        map (\<lambda>(model, ev). Inr (reply_rpc js sid model ev 0)) ((op @ ''Response'', ack) # events)
    | Silent \<Rightarrow> [])"

lemma told_hd: "told js sid op beh = (case told_all js sid op beh of [] \<Rightarrow> None | d # _ \<Rightarrow> Some d)"
  by (simp add: told_def told_all_def split: behavior.splits)

lemma length_behavior_replies [simp]: "length (behavior_replies api js sid op beh) = length (told_all js sid op beh)"
  by (simp add: behavior_replies_def told_all_def split: behavior.splits)

lemma app_message_told:
  assumes "msg_laws api" "app_message api js sid smt doc terminate = Some m"
  shows "parse api m = Inr (reply_rpc js sid smt doc (if terminate then FLAG_TERMINATE_STREAM else 0))"
  using parse_app_message [OF assms] by (auto simp: reply_rpc_def text_of_def)

lemma delivery_of_reply_rpc [simp]: "delivery_of js (reply_rpc js sid model doc fl) = Inr (reply_rpc js sid model doc fl)"
  by (simp add: delivery_of_def reply_rpc_def)

lemma stream_id_reply_rpc [simp]: "stream_id (reply_rpc js sid model doc fl) = sid"
  by (simp add: reply_rpc_def)

lemma behavior_reply_told:
  assumes "msg_laws api" "json_roundtrip js" "j < length (told_all js sid op beh)"
    and "behavior_replies api js sid op beh ! j = Some m"
  shows "\<exists>rpc. parse api m = Inr rpc \<and> stream_id rpc = sid \<and> delivery_of js rpc = told_all js sid op beh ! j"
proof (cases beh)
  case (Respond answer)
  then show ?thesis using assms(3,4) app_message_told [OF assms(1)]
    by (fastforce simp: behavior_replies_def told_all_def)
next
  case (Error model message)
  then obtain body where "to_vec js (JObj [(''message'', JStr message)]) = Inr body"
    "parse api m = Inr \<lparr>message_type = ApplicationError, flags = FLAG_TERMINATE_STREAM, stream_id = sid,
       service_model_type = Some model, payload = body\<rparr>"
    using assms(3,4) parse_app_error [OF assms(1)] by (fastforce simp: behavior_replies_def told_all_def)
  then show ?thesis using Error assms(3) nucleus_error_delivered [OF assms(2)]
    by (auto simp: told_all_def delivery_of_def)
next
  case (Subscribe ack events)
  define docs where "docs = (op @ ''Response'', ack) # events"
  have told: "told_all js sid op beh = map (\<lambda>(model, ev). Inr (reply_rpc js sid model ev 0)) docs"
    and replies: "behavior_replies api js sid op beh = map (\<lambda>(model, ev). app_message api js sid model ev False) docs"
    using Subscribe by (simp_all add: docs_def told_all_def behavior_replies_def)
  obtain model ev where "docs ! j = (model, ev)" by (rule prod.exhaust)
  moreover from this have "app_message api js sid model ev False = Some m"
    using assms(3,4) by (simp add: told replies)
  ultimately show ?thesis using assms(3) app_message_told [OF assms(1)] by (simp add: told)
next
  case Silent
  then show ?thesis using assms(3) by (simp add: told_all_def)
qed

text \<open>The frames of a turn, of which the last may be cut off when a write fails.\<close>

lemma mock_write_frames_whole:
  assumes "mock_write_frames codec outs i fs wr = (end, wr')"
  shows "\<exists>ms ws part rest. fs = map Some ms @ rest \<and> map (write_message_to codec) ms = map Inr ws \<and>
    wire wr' = wire wr @ concat ws @ part \<and> partial_frame codec part \<and> (end = Going \<longrightarrow> rest = [] \<and> part = [])"
  using assms
proof (induction fs arbitrary: i wr)
  case Nil
  then show ?case by (auto simp: partial_frame_def)
next
  case (Cons f fs)
  show ?case
  proof (cases "\<exists>m w. f = Some m \<and> write_message_to codec m = Inr w")
    case False
    then have "wr' = wr \<and> end \<noteq> Going"
      using Cons.prems by (cases f) (auto simp: mock_write_frame_def split: sum.splits)
    then show ?thesis
      by (intro exI [of _ "[]"] exI [of _ "f # fs"]) (auto simp: partial_frame_def)
  next
    case True
    then obtain m w where f: "f = Some m" "write_message_to codec m = Inr w" by blast
    show ?thesis
    proof (cases "outs i")
      case WriteOk
      then have "mock_write_frames codec outs (Suc i) fs (wr\<lparr>wire := wire wr @ w\<rparr>) = (end, wr')"
        using Cons.prems f by (simp add: mock_write_frame_def socket_write_def)
      from Cons.IH [OF this] obtain ms ws part rest where "fs = map Some ms @ rest" "map (write_message_to codec) ms = map Inr ws"
        "wire wr' = (wire wr @ w) @ concat ws @ part" "partial_frame codec part" "end = Going \<longrightarrow> rest = [] \<and> part = []"
        by auto
      then show ?thesis using f
        by (intro exI [of _ "m # ms"] exI [of _ "w # ws"] exI [of _ part] exI [of _ rest]) simp
    next
      case (WriteErr n err)
      then have wr': "wire wr' = wire wr @ take n w" "end \<noteq> Going"
        using Cons.prems f by (auto simp: mock_write_frame_def socket_write_def)
      show ?thesis
      proof (cases "n < length w")
        case True
        have "partial_frame codec (take n w)"
          unfolding partial_frame_def using f(2) True
          by (intro disjI2 exI [of _ m] exI [of _ "drop n w"]) simp
        then show ?thesis using wr'
          by (intro exI [of _ "[]"] exI [of _ "take n w"] exI [of _ "f # fs"]) simp
      next
        case False
        then show ?thesis using wr' f
          by (intro exI [of _ "[m]"] exI [of _ "[w]"] exI [of _ "[]"] exI [of _ fs]) (simp add: partial_frame_def)
      qed
    qed
  qed
qed

lemma control_message_connection_level:
  assumes "msg_laws api" "control_message api command = Some m"
  shows "frame_rpc api (Inr (Some m)) = None"
  using assms
  by (auto simp: control_message_def frame_rpc_def mock_int32_def mock_string_def mock_constants
      builder_simps Let_def split: control.splits sum.splits option.splits if_splits)

lemma nucleus_send_whole:
  assumes "nucleus_send codec outs fs nu = (end, nu')"
  shows "nuc_seen nu' = nuc_seen nu \<and>
    (\<exists>ms ws part rest. fs = map Some ms @ rest \<and> map (write_message_to codec) ms = map Inr ws \<and>
       wire (nuc_writer nu') = wire (nuc_writer nu) @ concat ws @ part \<and> partial_frame codec part \<and>
       (end = Going \<longrightarrow> part = [] \<and> rest = []))"
proof -
  obtain wr where wr: "mock_write_frames codec outs 0 fs (nuc_writer nu) = (end, wr)" "nu' = nu\<lparr>nuc_writer := wr\<rparr>"
    using assms by (auto simp: nucleus_send_def split: prod.splits)
  from mock_write_frames_whole [OF wr(1)] obtain ms ws part rest where
    "fs = map Some ms @ rest" "map (write_message_to codec) ms = map Inr ws"
    "wire wr = wire (nuc_writer nu) @ concat ws @ part" "partial_frame codec part" "end = Going \<longrightarrow> part = [] \<and> rest = []"
    by blast
  then show ?thesis unfolding wr(2)
    by (intro conjI exI [of _ ms] exI [of _ ws] exI [of _ part] exI [of _ rest]) simp_all
qed

lemma nucleus_turn_aside:
  assumes "aside api m" "nucleus_turn api codec js behavior outs (Incoming (Inr (Some m))) nu = (end, nu')"
  shows "end = Going \<and> nuc_writer nu' = nuc_writer nu \<and> nuc_seen nu' = nuc_seen nu"
  using assms by (auto simp: aside_def nucleus_turn_def Let_def split: prod.splits if_splits)

lemma nucleus_turn_command:
  assumes "msg_laws api" "nucleus_turn api codec js behavior outs (Command command) nu = (end, nu')"
  shows "nuc_seen nu' = nuc_seen nu \<and> (\<exists>ms ws part. map (write_message_to codec) ms = map Inr ws \<and>
     wire (nuc_writer nu') = wire (nuc_writer nu) @ concat ws @ part \<and> partial_frame codec part \<and>
     (end = Going \<longrightarrow> part = []) \<and> (\<forall>m \<in> set ms. frame_rpc api (Inr (Some m)) = None \<and> control_message api command = Some m))"
proof (cases "control_message api command")
  case None
  then show ?thesis using assms(2)
    by (auto simp: nucleus_turn_def partial_frame_def intro!: exI [of _ "[]"])
next
  case (Some m)
  then have send: "nucleus_send codec outs [Some m] nu = (end, nu')" using assms(2) by (simp add: nucleus_turn_def)
  then obtain ms ws part rest where whole: "[Some m] = map Some ms @ rest" "map (write_message_to codec) ms = map Inr ws"
     "wire (nuc_writer nu') = wire (nuc_writer nu) @ concat ws @ part" "partial_frame codec part" "end = Going \<longrightarrow> part = []"
    using nucleus_send_whole [OF send] by blast
  then have "set ms \<subseteq> {m}" by (cases ms) auto
  then show ?thesis using whole nucleus_send_whole [OF send] control_message_connection_level [OF assms(1) Some] Some by blast
qed

lemma nucleus_turn_activation:
  assumes "msg_laws api" "json_roundtrip js"
    and "to_vec js (call_payload (task_call t)) = Inr (text_of js (call_payload (task_call t)))"
    and "nucleus_turn api codec js behavior outs (Incoming (Inr (Some (activation_of api js t)))) nu = (end, nu')"
    and "op = call_operation (task_call t)"
  shows "nuc_seen nu' = nuc_seen nu @ [(op, call_payload (task_call t))] \<and>
    (\<exists>ms ws part. map (write_message_to codec) ms = map Inr ws \<and>
       wire (nuc_writer nu') = wire (nuc_writer nu) @ concat ws @ part \<and> partial_frame codec part \<and>
       (end = Going \<longrightarrow> part = []) \<and>
       (\<forall>beh. end = Going \<and> behavior op = Some beh \<longrightarrow> length ms = length (told_all js (task_sid t) op beh)) \<and>
       (ms \<noteq> [] \<longrightarrow> (\<exists>beh. behavior op = Some beh \<and> length ms \<le> length (told_all js (task_sid t) op beh) \<and>
          (\<forall>j < length ms. \<exists>rpc. parse api (ms ! j) = Inr rpc \<and> stream_id rpc = task_sid t \<and>
             delivery_of js rpc = told_all js (task_sid t) op beh ! j))))"
proof -
  let ?body = "text_of js (call_payload (task_call t))"
  have read: "json_read js ?body = Inr (call_payload (task_call t))"
    using assms(2,3) by (simp add: json_roundtrip_def to_vec_def)
  define nu2 where "nu2 = nu\<lparr>nuc_frames := nuc_frames nu @ [\<lparr>of_message_type = 0, of_stream_id = task_sid t, of_flags = 0,
      of_payload = ?body\<rparr>], nuc_seen := nuc_seen nu @ [(op, call_payload (task_call t))]\<rparr>"
  have turn: "(case behavior op of None \<Rightarrow> (Going, nu2)
      | Some beh \<Rightarrow> nucleus_send codec outs (behavior_replies api js (task_sid t) op beh) nu2) = (end, nu')"
    using assms(4,5) read mock_parse_activate [OF assms(1), of "task_sid t" op "call_model (task_call t)" ?body]
    by (cases "behavior op") (simp_all add: nu2_def nucleus_turn_def activation_of_def mock_constants Let_def)
  have nu2: "nuc_seen nu2 = nuc_seen nu @ [(op, call_payload (task_call t))]" "nuc_writer nu2 = nuc_writer nu"
    by (simp_all add: nu2_def)
  show ?thesis
  proof (cases "behavior op")
    case None
    then show ?thesis using nu2 turn by (intro conjI exI [of _ "[]"]) (auto simp: partial_frame_def)
  next
    case (Some beh)
    then have send: "nucleus_send codec outs (behavior_replies api js (task_sid t) op beh) nu2 = (end, nu')" using turn by simp
    then obtain ms ws part rest where whole: "behavior_replies api js (task_sid t) op beh = map Some ms @ rest"
       "map (write_message_to codec) ms = map Inr ws"
       "wire (nuc_writer nu') = wire (nuc_writer nu2) @ concat ws @ part" "partial_frame codec part"
       "end = Going \<longrightarrow> part = [] \<and> rest = []"
      using nucleus_send_whole [OF send] by blast
    have len: "length ms + length rest = length (told_all js (task_sid t) op beh)"
      using arg_cong [OF whole(1), of length] by simp
    have "\<exists>rpc. parse api (ms ! j) = Inr rpc \<and> stream_id rpc = task_sid t \<and>
             delivery_of js rpc = told_all js (task_sid t) op beh ! j" if "j < length ms" for j
      using behavior_reply_told [OF assms(1,2), of j "task_sid t" op beh "ms ! j"] that len whole(1) by (simp add: nth_append)
    then show ?thesis using nucleus_send_whole [OF send] nu2(1,2) whole(2-5) len Some
      by (intro conjI exI [of _ ms] exI [of _ ws] exI [of _ part]) auto
  qed
qed

end
