(* ===== verification/World.thy ===== *)
theory World
  imports Transit
begin

text \<open>
  The two ends together: the program of \<open>Session\<close> with its read loop, and the operation loop of the mock nucleus
  (\<open>handle_conn\<close> in \<open>tests/support/mod.rs\<close>), joined by the two byte streams of one socket, in every interleaving; and
  the same as a function of the schedule.
\<close>

section \<open>Client and nucleus on one socket\<close>

text \<open>
  The program of \<open>Session\<close> and the nucleus, with the readers at both ends and how many bytes of the other's wire each has
  received. Every step of the program is a step here that the socket allows (\<open>socket_allows\<close>), and the read
  loop sees the frames \<open>next_frame\<close> makes of the nucleus's bytes, in any chunks, or a socket that ends or fails at
  any moment; the nucleus likewise, which may also be told to send a ping, to report an error or to close.
\<close>

record 'd world =
  ses :: session
  ses_reader :: "'d framed_reader"
  ses_got :: nat
  nuc :: nucleus
  nuc_reader :: "'d framed_reader"
  nuc_got :: nat
  nuc_end :: turn_end

definition to_nucleus :: "('d, 'z) world_scheme \<Rightarrow> bytes" where
  "to_nucleus w = drop (nuc_got w) (wire (conn_writer (conn (ses w))))"

definition to_client :: "('d, 'z) world_scheme \<Rightarrow> bytes" where
  "to_client w = drop (ses_got w) (wire (nuc_writer (nuc w)))"

datatype 'm world_label =
    Acts "'m label" | ClientReads "bytes list" | ClientEnds "io_error + bytes"
  | NucleusReads "bytes list" | NucleusEnds "io_error + bytes" | Told control

definition is_read :: "'m label \<Rightarrow> bool" where
  "is_read l \<longleftrightarrow> (case l of Read _ _ \<Rightarrow> True | _ \<Rightarrow> False)"

inductive world_step ::
  "('m, 'h, 'o) msg_api \<Rightarrow> ('m, 'd) codec \<Rightarrow> json_api \<Rightarrow> tokio \<Rightarrow> (string \<rightharpoonup> behavior) \<Rightarrow>
   'd world \<Rightarrow> 'm world_label \<Rightarrow> 'd world \<Rightarrow> bool"
  for api :: "('m, 'h, 'o) msg_api" and codec :: "('m, 'd) codec" and js :: json_api and tk :: tokio
  and behavior :: "string \<rightharpoonup> behavior"
where
  world_acts: "sys_step api codec js tk (ses w) l s \<Longrightarrow> \<not> is_read l \<Longrightarrow>
    socket_allows (conn_writer (conn (ses w))) l \<Longrightarrow>
    world_step api codec js tk behavior w (Acts l) (w\<lparr>ses := s\<rparr>)"
| world_client_reads: "to_client w = concat chunks @ later \<Longrightarrow> [] \<notin> set chunks \<Longrightarrow>
    next_frame codec (ses_reader w) (map Inr chunks) = (Ready frame, rd, []) \<Longrightarrow>
    socket_allows (conn_writer (conn (ses w))) (Read frame out) \<Longrightarrow>
    sys_step api codec js tk (ses w) (Read frame out) s \<Longrightarrow>
    world_step api codec js tk behavior w (ClientReads chunks)
      (w\<lparr>ses := s, ses_reader := rd, ses_got := ses_got w + length (concat chunks)\<rparr>)"
| world_client_ends: "ending = Inr [] \<or> ending = Inl err \<Longrightarrow>
    next_frame codec (ses_reader w) [ending] = (Ready frame, rd, []) \<Longrightarrow>
    socket_allows (conn_writer (conn (ses w))) (Read frame out) \<Longrightarrow>
    sys_step api codec js tk (ses w) (Read frame out) s \<Longrightarrow>
    world_step api codec js tk behavior w (ClientEnds ending) (w\<lparr>ses := s, ses_reader := rd\<rparr>)"
| world_nucleus_reads: "nuc_end w = Going \<Longrightarrow> to_nucleus w = concat chunks @ later \<Longrightarrow> [] \<notin> set chunks \<Longrightarrow>
    mock_read_frame codec (nuc_reader w) (map Inr chunks) = (Ready frame, rd, []) \<Longrightarrow>
    nucleus_turn api codec js behavior outs (Incoming frame) (nuc w) = (end, nu) \<Longrightarrow>
    world_step api codec js tk behavior w (NucleusReads chunks)
      (w\<lparr>nuc := nu, nuc_reader := rd, nuc_got := nuc_got w + length (concat chunks), nuc_end := end\<rparr>)"
| world_nucleus_ends: "nuc_end w = Going \<Longrightarrow> ending = Inr [] \<or> ending = Inl err \<Longrightarrow>
    mock_read_frame codec (nuc_reader w) [ending] = (Ready frame, rd, []) \<Longrightarrow>
    nucleus_turn api codec js behavior outs (Incoming frame) (nuc w) = (end, nu) \<Longrightarrow>
    world_step api codec js tk behavior w (NucleusEnds ending) (w\<lparr>nuc := nu, nuc_reader := rd, nuc_end := end\<rparr>)"
| world_told: "nuc_end w = Going \<Longrightarrow> nucleus_turn api codec js behavior outs (Command command) (nuc w) = (end, nu) \<Longrightarrow>
    world_step api codec js tk behavior w (Told command) (w\<lparr>nuc := nu, nuc_end := end\<rparr>)"

text \<open>Both ends after the handshake, with nothing more on the way.\<close>

definition world_init :: "('d \<Rightarrow> bytes) \<Rightarrow> 'd world \<Rightarrow> bool" where
  "world_init held w \<longleftrightarrow> session_init (ses w) \<and> nuc_seen (nuc w) = [] \<and> nuc_end w = Going \<and>
     backlog held (ses_reader w) = [] \<and> backlog held (nuc_reader w) = [] \<and>
     nuc_got w = length (wire (conn_writer (conn (ses w)))) \<and> ses_got w = length (wire (nuc_writer (nuc w)))"

section \<open>Executing a schedule of the two ends\<close>

text \<open>
  The steps as a function of the label, with every write of the read loop and the nucleus succeeding unless the socket was shut down;
  \<open>None\<close> when a step is not enabled.
\<close>

definition answer_outcome :: "writer \<Rightarrow> write_outcome" where
  "answer_outcome wr = (if shut wr then WriteErr 0 \<lparr>io_kind = BrokenPipe, io_text = []\<rparr> else WriteOk)"

definition reads_frame :: "bytes list \<Rightarrow> bytes \<Rightarrow> bool" where
  "reads_frame chunks flying \<longleftrightarrow> [] \<notin> set chunks \<and> take (length (concat chunks)) flying = concat chunks"

fun world_exec ::
  "('m, 'h, 'o) msg_api \<Rightarrow> ('m, 'd) codec \<Rightarrow> json_api \<Rightarrow> tokio \<Rightarrow> (string \<rightharpoonup> behavior) \<Rightarrow>
   'm world_label \<Rightarrow> 'd world \<Rightarrow> 'd world option" where
  "world_exec api codec js tk behavior (Acts l) w =
     (if is_read l \<or> \<not> socket_allows (conn_writer (conn (ses w))) l then None
      else map_option (\<lambda>s. w\<lparr>ses := s\<rparr>) (sys_exec api codec js tk l (ses w)))"
| "world_exec api codec js tk behavior (ClientReads chunks) w =
     (if reads_frame chunks (to_client w) then
        (case next_frame codec (ses_reader w) (map Inr chunks) of
           (Ready frame, rd, []) \<Rightarrow> map_option
             (\<lambda>s. w\<lparr>ses := s, ses_reader := rd, ses_got := ses_got w + length (concat chunks)\<rparr>)
             (sys_exec api codec js tk (Read frame (answer_outcome (conn_writer (conn (ses w))))) (ses w))
         | _ \<Rightarrow> None)
      else None)"
| "world_exec api codec js tk behavior (ClientEnds ending) w =
     (if ending = Inr [] \<or> isl ending then
        (case next_frame codec (ses_reader w) [ending] of
           (Ready frame, rd, []) \<Rightarrow> map_option (\<lambda>s. w\<lparr>ses := s, ses_reader := rd\<rparr>)
             (sys_exec api codec js tk (Read frame (answer_outcome (conn_writer (conn (ses w))))) (ses w))
         | _ \<Rightarrow> None)
      else None)"
| "world_exec api codec js tk behavior (NucleusReads chunks) w =
     (if nuc_end w = Going \<and> reads_frame chunks (to_nucleus w) then
        (case mock_read_frame codec (nuc_reader w) (map Inr chunks) of
           (Ready frame, rd, []) \<Rightarrow>
             (case nucleus_turn api codec js behavior (\<lambda>_. WriteOk) (Incoming frame) (nuc w) of
                (end, nu) \<Rightarrow> Some (w\<lparr>nuc := nu, nuc_reader := rd, nuc_got := nuc_got w + length (concat chunks),
                  nuc_end := end\<rparr>))
         | _ \<Rightarrow> None)
      else None)"
| "world_exec api codec js tk behavior (NucleusEnds ending) w =
     (if nuc_end w = Going \<and> (ending = Inr [] \<or> isl ending) then
        (case mock_read_frame codec (nuc_reader w) [ending] of
           (Ready frame, rd, []) \<Rightarrow>
             (case nucleus_turn api codec js behavior (\<lambda>_. WriteOk) (Incoming frame) (nuc w) of
                (end, nu) \<Rightarrow> Some (w\<lparr>nuc := nu, nuc_reader := rd, nuc_end := end\<rparr>))
         | _ \<Rightarrow> None)
      else None)"
| "world_exec api codec js tk behavior (Told command) w =
     (if nuc_end w = Going then
        (case nucleus_turn api codec js behavior (\<lambda>_. WriteOk) (Command command) (nuc w) of
           (end, nu) \<Rightarrow> Some (w\<lparr>nuc := nu, nuc_end := end\<rparr>))
      else None)"

fun world_run ::
  "('m, 'h, 'o) msg_api \<Rightarrow> ('m, 'd) codec \<Rightarrow> json_api \<Rightarrow> tokio \<Rightarrow> (string \<rightharpoonup> behavior) \<Rightarrow>
   'm world_label list \<Rightarrow> 'd world \<Rightarrow> 'd world option" where
  "world_run api codec js tk behavior [] w = Some w"
| "world_run api codec js tk behavior (l # ls) w = (case world_exec api codec js tk behavior l w of
      None \<Rightarrow> None | Some w' \<Rightarrow> world_run api codec js tk behavior ls w')"

lemma reads_frameD:
  assumes "reads_frame chunks flying"
  shows "flying = concat chunks @ drop (length (concat chunks)) flying" "[] \<notin> set chunks"
  using assms append_take_drop_id [of "length (concat chunks)" flying] by (simp_all add: reads_frame_def)

lemma answer_outcome_allowed [simp]: "socket_allows wr (Read frame (answer_outcome wr))"
  by (simp add: socket_allows_def socket_takes_def whole_outcome_def answer_outcome_def)

lemma world_exec_step:
  "world_exec api codec js tk behavior l w = Some w' \<Longrightarrow> world_step api codec js tk behavior w l w'"
proof (cases l)
  case (Acts l')
  moreover assume "world_exec api codec js tk behavior l w = Some w'"
  ultimately show ?thesis by (auto intro!: world_acts sys_exec_step split: if_splits)
next
  case (ClientReads chunks)
  moreover assume "world_exec api codec js tk behavior l w = Some w'"
  ultimately show ?thesis
    by (auto intro!: world_client_reads sys_exec_step answer_outcome_allowed dest: reads_frameD
        split: if_splits prod.splits poll.splits list.splits)
next
  case (ClientEnds ending)
  moreover assume "world_exec api codec js tk behavior l w = Some w'"
  ultimately show ?thesis
    by (cases ending) (auto intro!: world_client_ends sys_exec_step answer_outcome_allowed
        split: if_splits prod.splits poll.splits list.splits)
next
  case (NucleusReads chunks)
  moreover assume "world_exec api codec js tk behavior l w = Some w'"
  ultimately show ?thesis
    by (auto intro!: world_nucleus_reads dest: reads_frameD split: if_splits prod.splits poll.splits list.splits)
next
  case (NucleusEnds ending)
  moreover assume "world_exec api codec js tk behavior l w = Some w'"
  ultimately show ?thesis
    by (cases ending) (auto intro!: world_nucleus_ends split: if_splits prod.splits poll.splits list.splits)
next
  case (Told command)
  moreover assume "world_exec api codec js tk behavior l w = Some w'"
  ultimately show ?thesis by (auto intro!: world_told split: if_splits prod.splits)
qed

lemma world_run_run:
  "world_run api codec js tk behavior ls w = Some w' \<Longrightarrow> run (world_step api codec js tk behavior) w ls w'"
  by (induction ls arbitrary: w) (auto intro: run.intros dest: world_exec_step split: option.splits)

end
