(* ===== verification/WorldInvariant.thy ===== *)
theory WorldInvariant
  imports World
begin

text \<open>
  The invariant of the two ends. It relates, through the bytes and messages on their way, four ends: which
  calls have written their activation, which of them the nucleus has seen, what it has told each of them, and what has
  reached the channels. Every step of \<open>world_step\<close> keeps it.
\<close>

section \<open>What is on the way and what has arrived\<close>

definition activations :: "'m outgoing list \<Rightarrow> nat list" where
  "activations outs = concat (map (\<lambda>og. case og of Activation i \<Rightarrow> [i] | Aside m \<Rightarrow> []) outs)"

lemma activations_simps [simp]:
  "activations [] = []" "activations (xs @ ys) = activations xs @ activations ys"
  "activations (Activation i # xs) = i # activations xs" "activations (Aside m # xs) = activations xs"
  by (simp_all add: activations_def)

definition heard :: "('m, 'h, 'o) msg_api \<Rightarrow> json_api \<Rightarrow> task list \<Rightarrow> nat list \<Rightarrow> 'm outgoing list \<Rightarrow> bool" where
  "heard api js ts seen pend \<longleftrightarrow> distinct (seen @ activations pend) \<and>
     (\<forall>i \<in> set (seen @ activations pend). i < length ts \<and> task_phase (ts ! i) \<notin> {Allocated, Registered} \<and>
        to_vec js (task_doc (ts ! i)) = Inr (text_of js (task_doc (ts ! i)))) \<and>
     (\<forall>m. Aside m \<in> set pend \<longrightarrow> aside api m)"

definition waiting_sent :: "task list \<Rightarrow> nat list \<Rightarrow> bool" where
  "waiting_sent ts sent \<longleftrightarrow> (\<forall>i < length ts. task_phase (ts ! i) = Waiting \<longrightarrow> i \<in> set sent)"

text \<open>The messages on their way to the client: what they deliver to which task, if anything.\<close>

definition entry_ok :: "('m, 'h, 'o) msg_api \<Rightarrow> json_api \<Rightarrow> task list \<Rightarrow> 'm \<times> (nat \<times> delivery) option \<Rightarrow> bool" where
  "entry_ok api js ts e \<longleftrightarrow> (case snd e of
      None \<Rightarrow> frame_rpc api (Inr (Some (fst e))) = None \<and> (\<exists>command. control_message api command = Some (fst e))
    | Some (i, d) \<Rightarrow> i < length ts \<and> (\<exists>rpc. frame_rpc api (Inr (Some (fst e))) = Some rpc \<and>
        stream_id rpc = task_sid (ts ! i) \<and> delivery_of js rpc = d))"

definition answers :: "('m \<times> (nat \<times> delivery) option) list \<Rightarrow> (nat \<times> delivery) list" where
  "answers es = List.map_filter snd es"

lemma answers_simps [simp]:
  "answers [] = []" "answers (xs @ ys) = answers xs @ answers ys"
  "answers ((m, None) # es) = answers es" "answers ((m, Some x) # es) = x # answers es"
  by (simp_all add: answers_def List.map_filter_def)

definition deliveries_for :: "nat \<Rightarrow> (nat \<times> delivery) list \<Rightarrow> delivery list" where
  "deliveries_for i ds = map snd (filter (\<lambda>x. fst x = i) ds)"

lemma deliveries_for_simps [simp]:
  "deliveries_for i [] = []" "deliveries_for i (xs @ ys) = deliveries_for i xs @ deliveries_for i ys"
  "deliveries_for i (x # xs) = (if fst x = i then snd x # deliveries_for i xs else deliveries_for i xs)"
  by (simp_all add: deliveries_for_def)

lemma deliveries_for_none: "i \<notin> fst ` set ds \<Longrightarrow> deliveries_for i ds = []"
  by (auto simp: deliveries_for_def filter_empty_conv)

text \<open>What the nucleus tells a task in the end, and that what it has told so far are the first of it.\<close>

definition expected :: "json_api \<Rightarrow> (string \<rightharpoonup> behavior) \<Rightarrow> task \<Rightarrow> delivery list" where
  "expected js behavior t = (case behavior (call_operation (task_call t)) of
      None \<Rightarrow> [] | Some beh \<Rightarrow> told_all js (task_sid t) (call_operation (task_call t)) beh)"

definition answered :: "json_api \<Rightarrow> (string \<rightharpoonup> behavior) \<Rightarrow> task list \<Rightarrow> nat list \<Rightarrow> (nat \<times> delivery) list \<Rightarrow> bool" where
  "answered js behavior ts seen ds \<longleftrightarrow> fst ` set ds \<subseteq> set seen \<and>
     (\<forall>i \<in> set seen. \<exists>n. deliveries_for i ds = take n (expected js behavior (ts ! i)))"

definition answered_in_full :: "json_api \<Rightarrow> (string \<rightharpoonup> behavior) \<Rightarrow> task list \<Rightarrow> nat list \<Rightarrow> (nat \<times> delivery) list \<Rightarrow> bool" where
  "answered_in_full js behavior ts seen ds \<longleftrightarrow> (\<forall>i \<in> set seen. deliveries_for i ds = expected js behavior (ts ! i))"

text \<open>What reached the channel of a task, of the messages that were read.\<close>

definition channel_ok :: "session \<Rightarrow> (nat \<times> delivery) list \<Rightarrow> nat \<Rightarrow> bool" where
  "channel_ok s got i \<longleftrightarrow> (\<exists>n fin. n \<le> length (deliveries_for i got) \<and>
     deliveries (task_events s i) = take n (deliveries_for i got) @ fin \<and> fin \<in> {[], [Inl ConnectionClosed]} \<and>
     (registered s i \<longrightarrow> n = length (deliveries_for i got)) \<and>
     (registered s i \<or> reader s \<in> {Reading, LoopLeft} \<longrightarrow> fin = []) \<and>
     (task_phase (tasks s ! i) \<in> {Registered, Waiting} \<and> \<not> registered s i \<longrightarrow> deliveries (task_events s i) \<noteq> []))"

definition channels_ok :: "session \<Rightarrow> (nat \<times> delivery) list \<Rightarrow> bool" where
  "channels_ok s got \<longleftrightarrow> (\<forall>i < length (tasks s). has_channel (tasks s ! i) \<longrightarrow> channel_ok s got i)"

lemma step_reader_back:
  "sys_step api codec js tk s l s' \<Longrightarrow> reader s' \<in> {Reading, LoopLeft} \<Longrightarrow> reader s \<in> {Reading, LoopLeft} \<and> l \<noteq> FailAll"
  by (cases rule: sys_step.cases) (auto split: control_flow.splits)

lemma new_channel_registered:
  assumes "sys_step api codec js tk s l s'" "has_channel (tasks s' ! i)" "i < length (tasks s')"
    "\<not> (i < length (tasks s) \<and> has_channel (tasks s ! i))"
  shows "registered s' i"
  using assms
  by cases (auto simp: has_channel_def nth_append nth_list_update registered_def register_def reg_insert_remove
      task_entry_def task_sink_def split: if_splits)

text \<open>The stream of a call that is under way leaves the registry only with a delivery.\<close>

lemma step_removed:
  assumes step: "sys_step api codec js tk s l s'" and inv: "session_inv s" and len: "length (tasks s) \<le> 2 ^ 32"
    and i: "i < length (tasks s)" "has_channel (tasks s ! i)" "registered s i" "\<not> registered s' i"
    and ph: "task_phase (tasks s' ! i) \<in> {Registered, Waiting}"
  shows "l = FailAll \<or> read_for api (task_sid (tasks s ! i)) l \<noteq> []"
proof -
  have same: "task_sid (tasks s ! j) = task_sid (tasks s ! i) \<Longrightarrow> j < length (tasks s) \<Longrightarrow> j = i" for j
    using task_sids_distinct [OF inv len, of j i] i(1) by simp
  have e: "task_entry (tasks s' ! i) = task_entry (tasks s ! i)" by (rule task_entry_step [OF step i(1,2)])
  have ent: "task_entry (tasks s ! i) = (task_sid (tasks s ! i), task_sink (tasks s ! i))" by (simp add: task_entry_def)
  have mem: "task_entry (tasks s ! i) \<in> set (conn_registry (conn s))" "task_entry (tasks s ! i) \<notin> set (conn_registry (conn s'))"
    using i(3,4) e by (simp_all add: registered_def)
  show ?thesis
    using step
  proof cases
    case (step_read frame out flow ce)
    obtain c' eff where ce: "ce = (c', eff)" by (cases ce)
    note fr = read_loop_turn_frame(2) [OF step_read(4) [unfolded ce]]
    show ?thesis
    proof (cases "frame_rpc api frame")
      case None
      then show ?thesis using fr mem step_read(2) ce by simp
    next
      case (Some rpc)
      then have "conn_registry (conn s') = fst (dispatch js rpc (conn_registry (conn s)))"
        using fr step_read(2) ce by (metis fst_conv option.simps(5) set_conn_simps(1))
      then have "stream_id rpc = task_sid (tasks s ! i)"
        using mem unfolding ent
        by (auto simp: dispatch_eq set_hm_remove set_hm_insert split: option.splits if_splits)
      then show ?thesis using step_read(1) Some by (simp add: read_for_def label_rpc_def)
    qed
  qed (use mem same i(2) ph ent in \<open>auto simp: alloc_stream_id_def send_activate_frame drop_activate_frame send_terminate_frame
      unregister_frame register_def reg_insert_remove reg_remove_def set_hm_remove has_channel_def read_loop_signal_def
      nth_list_update\<close>)
qed

lemma channels_ok_step:
  assumes step: "sys_step api codec js tk s l s'" and inv: "session_inv s" and len: "length (tasks s) \<le> 2 ^ 32" and "channels_ok s got"
    and known: "\<And>i. i \<in> fst ` set (got @ new) \<Longrightarrow> i < length (tasks s) \<and> has_channel (tasks s ! i)"
    and new: "\<And>i. i < length (tasks s) \<Longrightarrow> has_channel (tasks s ! i) \<Longrightarrow> registered s i \<Longrightarrow>
      deliveries_for i new = (if l = FailAll then [] else map (delivery_of js) (read_for api (task_sid (tasks s ! i)) l))"
  shows "channels_ok s' (got @ new)"
  unfolding channels_ok_def
proof (intro allI impI)
  fix i assume i: "i < length (tasks s')" "has_channel (tasks s' ! i)"
  show "channel_ok s' (got @ new) i"
  proof (cases "i < length (tasks s) \<and> has_channel (tasks s ! i)")
    case False
    then have "deliveries_for i (got @ new) = []" using known by (intro deliveries_for_none) blast
    then show ?thesis using new_channel_events [OF step inv i False] new_channel_registered [OF step i(2,1) False]
      unfolding channel_ok_def by simp
  next
    case True
    then obtain n fin where old: "n \<le> length (deliveries_for i got)"
       "deliveries (task_events s i) = take n (deliveries_for i got) @ fin" "fin \<in> {[], [Inl ConnectionClosed]}"
       "registered s i \<longrightarrow> n = length (deliveries_for i got)" "registered s i \<or> reader s \<in> {Reading, LoopLeft} \<longrightarrow> fin = []"
       "task_phase (tasks s ! i) \<in> {Registered, Waiting} \<and> \<not> registered s i \<longrightarrow> deliveries (task_events s i) \<noteq> []"
      using assms(4) unfolding channels_ok_def channel_ok_def by blast
    note sent = step_deliveries [OF step inv conjunct1 [OF True] conjunct2 [OF True]]
    show ?thesis
    proof (cases "registered s i")
      case False
      moreover have "\<not> registered s' i" using step_unregistered(1) [OF step inv] True False by blast
      moreover have "task_phase (tasks s' ! i) \<in> {Registered, Waiting} \<Longrightarrow> task_phase (tasks s ! i) \<in> {Registered, Waiting}"
        using step True
        by cases (auto simp: has_channel_def nth_append nth_list_update request_result_def subscribe_result_def
            split: if_splits sent.splits option.splits sum.splits)
      ultimately show ?thesis using old sent step_reader_back [OF step] unfolding channel_ok_def
        by (intro exI [of _ n] exI [of _ fin]) auto
    next
      case reg: True
      then have ev: "deliveries (task_events s' i) = deliveries_for i got @
          (if l = FailAll then [Inl ConnectionClosed] else deliveries_for i new)"
        using old sent new True by simp
      have "registered s' i \<Longrightarrow> l \<noteq> FailAll"
        using step by cases (auto simp: registered_def read_loop_fail_frame fail_all_def)
      moreover have "deliveries (task_events s' i) \<noteq> []"
        if "\<not> registered s' i" "task_phase (tasks s' ! i) \<in> {Registered, Waiting}"
        using step_removed [OF step inv len _ _ reg that] True ev new reg by auto
      ultimately show ?thesis using ev reg new True step_reader_back [OF step] unfolding channel_ok_def
        by (cases "l = FailAll"; intro exI [of _ "length (deliveries_for i (got @ new))"]
            exI [of _ "if l = FailAll then [Inl ConnectionClosed] else []"]) auto
    qed
  qed
qed

section \<open>The invariant of the two ends\<close>

definition keeps :: "task list \<Rightarrow> task list \<Rightarrow> bool" where
  "keeps ts ts' \<longleftrightarrow> length ts \<le> length ts' \<and> (\<forall>i < length ts. task_call (ts' ! i) = task_call (ts ! i) \<and>
     task_sid (ts' ! i) = task_sid (ts ! i) \<and>
     (task_phase (ts ! i) \<notin> {Allocated, Registered} \<longrightarrow> task_phase (ts' ! i) \<notin> {Allocated, Registered}))"

lemma keepsD:
  assumes "keeps ts ts'" "i < length ts"
  shows "i < length ts'" "task_call (ts' ! i) = task_call (ts ! i)" "task_sid (ts' ! i) = task_sid (ts ! i)"
    "task_phase (ts ! i) \<notin> {Allocated, Registered} \<Longrightarrow> task_phase (ts' ! i) \<notin> {Allocated, Registered}"
    "task_doc (ts' ! i) = task_doc (ts ! i)" "activation_of api js (ts' ! i) = activation_of api js (ts ! i)"
    "expected js behavior (ts' ! i) = expected js behavior (ts ! i)"
  using assms by (auto simp: keeps_def task_doc_def activation_of_def expected_def split: option.split)

lemma step_keeps: "sys_step api codec js tk s l s' \<Longrightarrow> keeps (tasks s) (tasks s')"
  unfolding keeps_def
proof (intro conjI allI impI)
  assume step: "sys_step api codec js tk s l s'"
  then show "length (tasks s) \<le> length (tasks s')" by cases auto
  fix i assume i: "i < length (tasks s)"
  show "task_call (tasks s' ! i) = task_call (tasks s ! i)" "task_sid (tasks s' ! i) = task_sid (tasks s ! i)"
    by (rule step_task [OF step i])+
  show "task_phase (tasks s ! i) \<notin> {Allocated, Registered} \<Longrightarrow> task_phase (tasks s' ! i) \<notin> {Allocated, Registered}"
    by (rule step_past_registered [OF step i])
qed

text \<open>The messages on the way, as the tasks have them.\<close>

definition out_msgs :: "('m, 'h, 'o) msg_api \<Rightarrow> json_api \<Rightarrow> task list \<Rightarrow> 'm outgoing list \<Rightarrow> 'm list" where
  "out_msgs api js ts outs = map (out_msg api js ts) outs"

lemma out_msgs_append [simp]: "out_msgs api js ts (xs @ [og]) = out_msgs api js ts xs @ [out_msg api js ts og]"
  by (simp add: out_msgs_def)

lemma heardD:
  assumes "heard api js ts seen pend" "i \<in> set seen \<or> i \<in> set (activations pend)"
  shows "i < length ts" "task_phase (ts ! i) \<notin> {Allocated, Registered}" "has_channel (ts ! i)"
    "to_vec js (task_doc (ts ! i)) = Inr (text_of js (task_doc (ts ! i)))"
  using assms by (auto simp: heard_def has_channel_def)

lemma heard_keeps:
  assumes "heard api js ts seen pend" "keeps ts ts'"
  shows "heard api js ts' seen pend" "out_msgs api js ts' pend = out_msgs api js ts pend"
proof -
  have "i < length ts' \<and> task_phase (ts' ! i) \<notin> {Allocated, Registered} \<and>
      to_vec js (task_doc (ts' ! i)) = Inr (text_of js (task_doc (ts' ! i)))" if "i \<in> set (seen @ activations pend)" for i
  proof -
    have i: "i \<in> set seen \<or> i \<in> set (activations pend)" using that by simp
    note old = heardD [OF assms(1) i]
    show ?thesis using old(2,4) keepsD(1,4,5) [OF assms(2) old(1)] by simp
  qed
  then show "heard api js ts' seen pend" using assms(1) unfolding heard_def by blast
  have "out_msg api js ts' og = out_msg api js ts og" if "og \<in> set pend" for og
  proof (cases og)
    case (Activation i)
    then have "i \<in> set (activations pend)" using that by (force simp: activations_def)
    then show ?thesis using heardD(1) [OF assms(1), of i] keepsD(6) [where api = api and js = js, OF assms(2), of i] Activation
      by (simp add: out_msg_def)
  qed (simp add: out_msg_def)
  then show "out_msgs api js ts' pend = out_msgs api js ts pend" by (simp add: out_msgs_def)
qed

lemma entry_ok_keeps: "entry_ok api js ts e \<Longrightarrow> keeps ts ts' \<Longrightarrow> entry_ok api js ts' e"
  by (auto simp: entry_ok_def keepsD split: option.splits)

lemma answered_keeps:
  "answered js behavior ts seen ds \<Longrightarrow> heard api js ts seen pend \<Longrightarrow> keeps ts ts' \<Longrightarrow> answered js behavior ts' seen ds"
  by (auto simp: answered_def keepsD(7) heardD(1))

lemma answered_in_full_keeps:
  "answered_in_full js behavior ts seen ds \<Longrightarrow> heard api js ts seen pend \<Longrightarrow> keeps ts ts' \<Longrightarrow> answered_in_full js behavior ts' seen ds"
  by (auto simp: answered_in_full_def keepsD(7) heardD(1))

text \<open>
  The side of the nucleus: what is on its way to it, with a part of a frame only once the client has shut its write half down. The
  side of the client: what is on its way to it, with a part of a frame only once the nucleus has left its loop.
\<close>

definition nucleus_side ::
  "('m, 'h, 'o) msg_api \<Rightarrow> ('m, 'd) codec \<Rightarrow> ('d \<Rightarrow> bytes) \<Rightarrow> json_api \<Rightarrow> 'd world \<Rightarrow> nat list \<Rightarrow> 'm outgoing list \<Rightarrow> bool" where
  "nucleus_side api codec held js w seen pend \<longleftrightarrow> heard api js (tasks (ses w)) seen pend \<and>
     waiting_sent (tasks (ses w)) (seen @ activations pend) \<and>
     nuc_got w \<le> length (wire (conn_writer (conn (ses w)))) \<and>
     (nuc_end w = Going \<longrightarrow> (\<exists>part. (\<not> shut (conn_writer (conn (ses w))) \<longrightarrow> part = []) \<and>
        pipe codec held (nuc_reader w) (to_nucleus w) (out_msgs api js (tasks (ses w)) pend) part)) \<and>
     nuc_seen (nuc w) = map (\<lambda>i. (call_operation (task_call (tasks (ses w) ! i)), task_doc (tasks (ses w) ! i))) seen"

definition client_side ::
  "('m, 'h, 'o) msg_api \<Rightarrow> ('m, 'd) codec \<Rightarrow> ('d \<Rightarrow> bytes) \<Rightarrow> json_api \<Rightarrow> (string \<rightharpoonup> behavior) \<Rightarrow> 'd world \<Rightarrow> nat list \<Rightarrow>
   (nat \<times> delivery) list \<Rightarrow> ('m \<times> (nat \<times> delivery) option) list \<Rightarrow> bytes \<Rightarrow> bool" where
  "client_side api codec held js behavior w seen got flight part \<longleftrightarrow>
     ses_got w \<le> length (wire (nuc_writer (nuc w))) \<and>
     (reader (ses w) = Reading \<longrightarrow> pipe codec held (ses_reader w) (to_client w) (map fst flight) part) \<and>
     (nuc_end w = Going \<longrightarrow> part = [] \<and> answered_in_full js behavior (tasks (ses w)) seen (got @ answers flight)) \<and>
     (\<forall>e \<in> set flight. entry_ok api js (tasks (ses w)) e) \<and>
     answered js behavior (tasks (ses w)) seen (got @ answers flight) \<and> channels_ok (ses w) got"

definition world_inv ::
  "('m, 'h, 'o) msg_api \<Rightarrow> ('m, 'd) codec \<Rightarrow> ('d \<Rightarrow> bytes) \<Rightarrow> json_api \<Rightarrow> (string \<rightharpoonup> behavior) \<Rightarrow> 'd world \<Rightarrow> bool" where
  "world_inv api codec held js behavior w \<longleftrightarrow> session_inv (ses w) \<and> (length (tasks (ses w)) < 2 ^ 32 \<longrightarrow>
     (\<exists>seen pend got flight part. nucleus_side api codec held js w seen pend \<and>
        client_side api codec held js behavior w seen got flight part))"

subsection \<open>Steps of the program\<close>

lemma heard_outgoing:
  assumes "outgoing_ok api js s s' og" "heard api js (tasks s) seen pend" "keeps (tasks s) (tasks s')"
  shows "out_msg api js (tasks s') og = out_msg api js (tasks s) og" "heard api js (tasks s') seen (pend @ [og])"
proof -
  have "out_msg api js (tasks s') og = out_msg api js (tasks s) og \<and> heard api js (tasks s') seen (pend @ [og])"
  proof (cases og)
    case (Aside m)
    then show ?thesis using assms(1) heard_keeps(1) [OF assms(2,3)]
      by (auto simp: outgoing_ok_def out_msg_def heard_def)
  next
    case (Activation i)
    then have i: "i < length (tasks s)" "task_phase (tasks s ! i) = Registered" "task_phase (tasks s' ! i) \<notin> {Allocated, Registered}"
        "to_vec js (task_doc (tasks s ! i)) = Inr (text_of js (task_doc (tasks s ! i)))"
      using assms(1) by (auto simp: outgoing_ok_def)
    then have "i \<notin> set (seen @ activations pend)" using heardD(2) [OF assms(2), of i] by auto
    then show ?thesis using heard_keeps(1) [OF assms(2,3)] i(3,4) Activation keepsD(1,5) [OF assms(3) i(1)]
        keepsD(6) [where api = api and js = js, OF assms(3) i(1)]
      by (auto simp: out_msg_def heard_def)
  qed
  then show "out_msg api js (tasks s') og = out_msg api js (tasks s) og" "heard api js (tasks s') seen (pend @ [og])"
    by blast+
qed

lemma heard_writes:
  assumes "writes api codec js s s' ogs part" "heard api js (tasks s) seen pend" "keeps (tasks s) (tasks s')"
  shows "out_msgs api js (tasks s') (pend @ ogs) = out_msgs api js (tasks s) pend @ map (out_msg api js (tasks s)) ogs"
    "heard api js (tasks s') seen (pend @ ogs)"
proof -
  note keep = heard_keeps [OF assms(2,3)]
  consider "ogs = []" | og where "ogs = [og]" "outgoing_ok api js s s' og"
    using assms(1) by (cases ogs) (auto simp: writes_def Let_def)
  then have "out_msgs api js (tasks s') (pend @ ogs) = out_msgs api js (tasks s) pend @ map (out_msg api js (tasks s)) ogs \<and>
      heard api js (tasks s') seen (pend @ ogs)"
  proof cases
    case 2
    then show ?thesis using heard_outgoing [OF 2(2) assms(2,3)] keep(2) by simp
  qed (use keep in simp)
  then show "out_msgs api js (tasks s') (pend @ ogs) = out_msgs api js (tasks s) pend @ map (out_msg api js (tasks s)) ogs"
    "heard api js (tasks s') seen (pend @ ogs)" by blast+
qed

lemma waiting_sent_writes:
  assumes "writes api codec js s s' ogs part" "waiting_sent (tasks s) (seen @ activations pend)"
  shows "waiting_sent (tasks s') (seen @ activations (pend @ ogs))"
  unfolding waiting_sent_def
proof (intro allI impI)
  fix i assume i: "i < length (tasks s')" "task_phase (tasks s' ! i) = Waiting"
  show "i \<in> set (seen @ activations (pend @ ogs))"
  proof (cases "starts_waiting s s' i")
    case True
    then have "ogs = [Activation i]" using assms(1) by (auto simp: writes_def Let_def)
    then show ?thesis by simp
  next
    case False
    then show ?thesis using i assms(2) by (auto simp: starts_waiting_def waiting_sent_def)
  qed
qed

lemma pipe_writes:
  assumes "writes api codec js s s' ogs new" "pipe codec held rd flying ms part"
    and "\<not> shut (conn_writer (conn s)) \<longrightarrow> part = []" "n \<le> length (wire (conn_writer (conn s)))"
    and "flying = drop n (wire (conn_writer (conn s)))"
  shows "\<exists>part'. (\<not> shut (conn_writer (conn s')) \<longrightarrow> part' = []) \<and>
    pipe codec held rd (drop n (wire (conn_writer (conn s')))) (ms @ map (out_msg api js (tasks s)) ogs) part'"
proof -
  obtain ws where ws: "map (write_message_to codec) (map (out_msg api js (tasks s)) ogs) = map Inr ws"
    "wire (conn_writer (conn s')) = wire (conn_writer (conn s)) @ concat ws @ new" "partial_frame codec new"
    "shut (conn_writer (conn s)) \<longrightarrow> shut (conn_writer (conn s')) \<and> ogs = [] \<and> new = []"
    "new \<noteq> [] \<longrightarrow> shut (conn_writer (conn s'))"
    using assms(1) by (auto simp: writes_def Let_def)
  show ?thesis
  proof (cases "shut (conn_writer (conn s))")
    case True
    then show ?thesis using ws assms(2,5) by (intro exI [of _ part]) auto
  next
    case False
    then have "pipe codec held rd (flying @ concat ws @ new) (ms @ map (out_msg api js (tasks s)) ogs) new"
      using assms(2,3) ws(1,3) by (intro pipe_write) auto
    then show ?thesis using ws(2,5) assms(4,5) by (intro exI [of _ new]) auto
  qed
qed

lemma nucleus_side_program:
  assumes "msg_laws api" "sys_step api codec js tk (ses w) l s" "socket_allows (conn_writer (conn (ses w))) l"
    and "nucleus_side api codec held js w seen pend" and "ses w' = s" "nuc_got w' = nuc_got w" "nuc_end w' = nuc_end w"
    "nuc_reader w' = nuc_reader w" "nuc_seen (nuc w') = nuc_seen (nuc w)"
  shows "\<exists>pend'. nucleus_side api codec held js w' seen pend'"
proof -
  note keeps = step_keeps [OF assms(2)]
  have old: "heard api js (tasks (ses w)) seen pend" "waiting_sent (tasks (ses w)) (seen @ activations pend)"
    "nuc_got w \<le> length (wire (conn_writer (conn (ses w))))"
    "nuc_end w = Going \<longrightarrow> (\<exists>part. (\<not> shut (conn_writer (conn (ses w))) \<longrightarrow> part = []) \<and>
        pipe codec held (nuc_reader w) (to_nucleus w) (out_msgs api js (tasks (ses w)) pend) part)"
    "nuc_seen (nuc w) = map (\<lambda>i. (call_operation (task_call (tasks (ses w) ! i)), task_doc (tasks (ses w) ! i))) seen"
    using assms(4) by (simp_all add: nucleus_side_def)
  have seen: "nuc_seen (nuc w') = map (\<lambda>i. (call_operation (task_call (tasks s ! i)), task_doc (tasks s ! i))) seen"
    using old(5) assms(9) heardD(1) [OF old(1)] keepsD(2,5) [OF keeps] by simp
  from step_writes [OF assms(1-3)] obtain ogs new where writes: "writes api codec js (ses w) s ogs new" by blast
  have "nuc_got w \<le> length (wire (conn_writer (conn s)))" using writes old(3) by (auto simp: writes_def Let_def)
  moreover have "\<exists>part. (\<not> shut (conn_writer (conn s)) \<longrightarrow> part = []) \<and>
      pipe codec held (nuc_reader w) (to_nucleus w') (out_msgs api js (tasks s) (pend @ ogs)) part" if going: "nuc_end w = Going"
  proof -
    obtain part where "\<not> shut (conn_writer (conn (ses w))) \<longrightarrow> part = []"
      "pipe codec held (nuc_reader w) (to_nucleus w) (out_msgs api js (tasks (ses w)) pend) part"
      using mp [OF old(4) going] by (elim exE conjE) rule
    from pipe_writes [OF writes this(2,1) old(3)] show ?thesis
      using heard_writes(1) [OF writes old(1) keeps] assms(5,6) by (simp add: to_nucleus_def)
  qed
  ultimately show ?thesis
    using seen assms(5-8) heard_writes(2) [OF writes old(1) keeps] waiting_sent_writes [OF writes old(2)]
    by (intro exI [of _ "pend @ ogs"]) (simp add: nucleus_side_def)
qed

lemma client_side_program:
  assumes step: "sys_step api codec js tk (ses w) l s" and inv: "session_inv (ses w)" and len: "length (tasks (ses w)) \<le> 2 ^ 32"
    and heard: "heard api js (tasks (ses w)) seen pend"
    and "client_side api codec held js behavior w seen got (new @ flight) part"
    and "\<And>i. i < length (tasks (ses w)) \<Longrightarrow> has_channel (tasks (ses w) ! i) \<Longrightarrow> registered (ses w) i \<Longrightarrow>
      deliveries_for i (answers new) =
        (if l = FailAll then [] else map (delivery_of js) (read_for api (task_sid (tasks (ses w) ! i)) l))"
    and "ses w' = s" "nuc w' = nuc w" "nuc_end w' = nuc_end w" "ses_got w' \<le> length (wire (nuc_writer (nuc w)))"
    and "reader s = Reading \<Longrightarrow> pipe codec held (ses_reader w') (to_client w') (map fst flight) part"
  shows "client_side api codec held js behavior w' seen (got @ answers new) flight part"
proof -
  note keeps = step_keeps [OF step]
  have old: "answered js behavior (tasks (ses w)) seen (got @ answers new @ answers flight)" "channels_ok (ses w) got"
    "nuc_end w = Going \<longrightarrow> part = [] \<and> answered_in_full js behavior (tasks (ses w)) seen (got @ answers new @ answers flight)"
    "\<forall>e \<in> set (new @ flight). entry_ok api js (tasks (ses w)) e"
    using assms(5) by (simp_all add: client_side_def)
  have "i < length (tasks (ses w)) \<and> has_channel (tasks (ses w) ! i)" if "i \<in> fst ` set (got @ answers new)" for i
  proof -
    have "i \<in> set seen" using that old(1) by (auto simp: answered_def)
    then show ?thesis using heardD(1,3) [OF heard] by blast
  qed
  then have "channels_ok s (got @ answers new)"
    using assms(6) by (intro channels_ok_step [OF step inv len old(2)])
  moreover have "\<forall>e \<in> set flight. entry_ok api js (tasks s) e"
    using old(4) by (auto intro: entry_ok_keeps [OF _ keeps])
  ultimately show ?thesis
    using answered_keeps [OF old(1) heard keeps] answered_in_full_keeps [OF _ heard keeps] old(3) assms(7-11)
    by (simp add: client_side_def)
qed

lemmas client_side_quiet = client_side_program [where new = "[]", unfolded append_Nil answers_simps append_Nil2 deliveries_for_simps]

lemma read_for_not_read: "\<not> is_read l \<Longrightarrow> read_for api sid l = []"
  by (cases l) (auto simp: is_read_def read_for_def label_rpc_def)

lemma reading_before:
  "sys_step api codec js tk s l s' \<Longrightarrow> reader s' = Reading \<Longrightarrow> reader s = Reading"
  by (cases rule: sys_step.cases) auto

lemma world_acts_inv:
  assumes "msg_laws api" "world_inv api codec held js behavior w"
    and step: "sys_step api codec js tk (ses w) l s" and "\<not> is_read l" "socket_allows (conn_writer (conn (ses w))) l"
  shows "world_inv api codec held js behavior (w\<lparr>ses := s\<rparr>)"
  unfolding world_inv_def
proof (intro conjI impI)
  have inv: "session_inv (ses w)" using assms(2) by (simp add: world_inv_def)
  show "session_inv (ses (w\<lparr>ses := s\<rparr>))" using session_inv_step [OF inv step] by simp
  assume "length (tasks (ses (w\<lparr>ses := s\<rparr>))) < 2 ^ 32"
  then have len: "length (tasks (ses w)) < 2 ^ 32" using step_keeps [OF step] by (simp add: keeps_def)
  then obtain seen pend got flight part where old: "nucleus_side api codec held js w seen pend"
      "client_side api codec held js behavior w seen got flight part"
    using assms(2) unfolding world_inv_def by blast
  obtain pend' where "nucleus_side api codec held js (w\<lparr>ses := s\<rparr>) seen pend'"
    using nucleus_side_program [OF assms(1) step assms(5) old(1), of "w\<lparr>ses := s\<rparr>"] by auto
  moreover have "client_side api codec held js behavior (w\<lparr>ses := s\<rparr>) seen got flight part"
  proof (rule client_side_quiet [OF step inv less_imp_le [OF len] _ old(2)])
    show "heard api js (tasks (ses w)) seen pend" using old(1) by (simp add: nucleus_side_def)
  qed (use old(2) reading_before [OF step] read_for_not_read [OF assms(4)] in \<open>auto simp: client_side_def to_client_def\<close>)
  ultimately show "\<exists>seen pend got flight part. nucleus_side api codec held js (w\<lparr>ses := s\<rparr>) seen pend \<and>
        client_side api codec held js behavior (w\<lparr>ses := s\<rparr>) seen got flight part" by blast
qed

text \<open>The step of the program's read loop, on the frame that was on its way or on the socket's end.\<close>

lemma read_entry:
  assumes "entry_ok api js (tasks s) (m, x)" "session_inv s" "length (tasks s) < 2 ^ 32" "i < length (tasks s)"
  shows "deliveries_for i (answers [(m, x)]) =
    map (delivery_of js) (read_for api (task_sid (tasks s ! i)) (Read (Inr (Some m)) out))"
proof (cases x)
  case None
  then show ?thesis using assms(1) by (simp add: entry_ok_def read_for_def label_rpc_def)
next
  case (Some jd)
  then obtain j d rpc where "x = Some (j, d)" "j < length (tasks s)" "frame_rpc api (Inr (Some m)) = Some rpc"
      "stream_id rpc = task_sid (tasks s ! j)" "delivery_of js rpc = d"
    using assms(1) by (cases jd) (auto simp: entry_ok_def)
  then show ?thesis using task_sids_distinct [OF assms(2), of i j] assms(3,4)
    by (auto simp: read_for_def label_rpc_def)
qed

lemma client_reads_sides:
  assumes "msg_laws api" and inv: "session_inv (ses w)" and len: "length (tasks (ses w)) < 2 ^ 32"
    and old: "nucleus_side api codec held js w seen pend" "client_side api codec held js behavior w seen got flight part"
    and allowed: "socket_allows (conn_writer (conn (ses w))) (Read frame out)"
    and step: "sys_step api codec js tk (ses w) (Read frame out) s"
    and w': "ses w' = s" "nuc w' = nuc w" "nuc_end w' = nuc_end w" "nuc_got w' = nuc_got w" "nuc_reader w' = nuc_reader w"
    and new: "flight = new @ rest" "ses_got w' \<le> length (wire (nuc_writer (nuc w)))"
      "reader s = Reading \<longrightarrow> pipe codec held (ses_reader w') (to_client w') (map fst rest) part"
      "case new of [] \<Rightarrow> frame_rpc api frame = None | e # es \<Rightarrow> es = [] \<and> frame = Inr (Some (fst e))"
  shows "\<exists>pend'. nucleus_side api codec held js w' seen pend' \<and>
    client_side api codec held js behavior w' seen (got @ answers new) rest part"
proof -
  obtain pend' where "nucleus_side api codec held js w' seen pend'"
    using nucleus_side_program [OF assms(1) step allowed old(1), of w'] w' by auto
  moreover have "client_side api codec held js behavior w' seen (got @ answers new) rest part"
  proof (rule client_side_program [OF step inv less_imp_le [OF len] _ old(2) [unfolded new(1)] _ w'(1-3) new(2)])
    show "heard api js (tasks (ses w)) seen pend" using old(1) by (simp add: nucleus_side_def)
    show "pipe codec held (ses_reader w') (to_client w') (map fst rest) part" if "reader s = Reading"
      using new(3) that by simp
    show "deliveries_for i (answers new) =
        (if Read frame out = FailAll then [] else map (delivery_of js) (read_for api (task_sid (tasks (ses w) ! i)) (Read frame out)))"
      if "i < length (tasks (ses w))" for i
    proof (cases new)
      case Nil
      then show ?thesis using new(4) by (simp add: read_for_def label_rpc_def)
    next
      case (Cons e es)
      obtain m x where e: "e = (m, x)" by (rule prod.exhaust)
      then have "entry_ok api js (tasks (ses w)) (m, x)" "frame = Inr (Some m)" "new = [(m, x)]"
        using old(2) new(1,4) Cons by (auto simp: client_side_def)
      then show ?thesis using read_entry [OF _ inv len that, of api js m x out] by simp
    qed
  qed
  ultimately show ?thesis by blast
qed

lemma world_reads_inv:
  assumes "msg_laws api" "world_inv api codec held js behavior w" "socket_allows (conn_writer (conn (ses w))) (Read frame out)"
    and step: "sys_step api codec js tk (ses w) (Read frame out) s"
    and w': "ses w' = s" "nuc w' = nuc w" "nuc_end w' = nuc_end w" "nuc_got w' = nuc_got w" "nuc_reader w' = nuc_reader w"
    and arrives: "\<And>seen got flight part. client_side api codec held js behavior w seen got flight part \<Longrightarrow>
      \<exists>new rest. flight = new @ rest \<and> ses_got w' \<le> length (wire (nuc_writer (nuc w))) \<and>
        (reader s = Reading \<longrightarrow> pipe codec held (ses_reader w') (to_client w') (map fst rest) part) \<and>
        (case new of [] \<Rightarrow> frame_rpc api frame = None | e # es \<Rightarrow> es = [] \<and> frame = Inr (Some (fst e)))"
  shows "world_inv api codec held js behavior w'"
  unfolding world_inv_def
proof (intro conjI impI)
  have inv: "session_inv (ses w)" using assms(2) by (simp add: world_inv_def)
  show "session_inv (ses w')" using session_inv_step [OF inv step] w'(1) by simp
  assume "length (tasks (ses w')) < 2 ^ 32"
  then have len: "length (tasks (ses w)) < 2 ^ 32" using step_keeps [OF step] w'(1) by (simp add: keeps_def)
  then obtain seen pend got flight part where old: "nucleus_side api codec held js w seen pend"
      "client_side api codec held js behavior w seen got flight part"
    using assms(2) unfolding world_inv_def by blast
  obtain new rest where "flight = new @ rest" "ses_got w' \<le> length (wire (nuc_writer (nuc w)))"
      "reader s = Reading \<longrightarrow> pipe codec held (ses_reader w') (to_client w') (map fst rest) part"
      "case new of [] \<Rightarrow> frame_rpc api frame = None | e # es \<Rightarrow> es = [] \<and> frame = Inr (Some (fst e))"
    using arrives [OF old(2)] by blast
  from client_reads_sides [OF assms(1) inv len old assms(3) step w' this]
  show "\<exists>seen pend got flight part. nucleus_side api codec held js w' seen pend \<and>
        client_side api codec held js behavior w' seen got flight part" by blast
qed

text \<open>The next message on its way to the client, read from the socket.\<close>

lemma client_reads_flight:
  assumes "codec_laws codec held" "client_side api codec held js behavior w seen got flight part" "reader (ses w) = Reading"
    and "to_client w = concat chunks @ later" "[] \<notin> set chunks"
    and "next_frame codec (ses_reader w) (map Inr chunks) = (Ready frame, rd, [])"
    and w': "nuc w' = nuc w" "ses_reader w' = rd" "ses_got w' = ses_got w + length (concat chunks)"
  obtains e rest where "flight = e # rest" "frame = Inr (Some (fst e))" "ses_got w' \<le> length (wire (nuc_writer (nuc w)))"
    "pipe codec held (ses_reader w') (to_client w') (map fst rest) part"
proof -
  have "pipe codec held (ses_reader w) (to_client w) (map fst flight) part" using assms(2,3) by (simp add: client_side_def)
  from pipe_read [OF assms(1) this assms(4-6)] obtain m ms where
    m: "map fst flight = m # ms" "frame = Inr (Some m)" "pipe codec held rd later ms part" by (elim exE conjE) rule
  then obtain e rest where flight: "flight = e # rest" "m = fst e" "ms = map fst rest" by (cases flight) auto
  have "length (wire (nuc_writer (nuc w))) - ses_got w = length (concat chunks) + length later"
    using arg_cong [OF assms(4), of length] by (simp add: to_client_def)
  moreover have "ses_got w \<le> length (wire (nuc_writer (nuc w)))" using assms(2) by (simp add: client_side_def)
  moreover have "to_client w' = drop (length (concat chunks)) (to_client w)" using w' by (simp add: to_client_def add.commute)
  then have "to_client w' = later" using assms(4) by simp
  ultimately show thesis using flight m w' by (intro that [of e rest]) simp_all
qed

lemma world_client_reads_inv:
  assumes "msg_laws api" "codec_laws codec held" "world_inv api codec held js behavior w"
    and "to_client w = concat chunks @ later" "[] \<notin> set chunks"
    and "next_frame codec (ses_reader w) (map Inr chunks) = (Ready frame, rd, [])"
    and "socket_allows (conn_writer (conn (ses w))) (Read frame out)"
    and step: "sys_step api codec js tk (ses w) (Read frame out) s"
  shows "world_inv api codec held js behavior
    (w\<lparr>ses := s, ses_reader := rd, ses_got := ses_got w + length (concat chunks)\<rparr>)" (is "world_inv _ _ _ _ _ ?w")
proof (rule world_reads_inv [OF assms(1,3,7) step])
  fix seen got flight part assume side: "client_side api codec held js behavior w seen got flight part"
  have "reader (ses w) = Reading" using step by cases
  then obtain e rest where "flight = e # rest" "frame = Inr (Some (fst e))" "ses_got ?w \<le> length (wire (nuc_writer (nuc w)))"
    "pipe codec held (ses_reader ?w) (to_client ?w) (map fst rest) part"
    by (rule client_reads_flight [OF assms(2) side _ assms(4-6), of ?w]) simp_all
  then show "\<exists>new rest. flight = new @ rest \<and> ses_got ?w \<le> length (wire (nuc_writer (nuc w))) \<and>
        (reader s = Reading \<longrightarrow> pipe codec held (ses_reader ?w) (to_client ?w) (map fst rest) part) \<and>
        (case new of [] \<Rightarrow> frame_rpc api frame = None | e # es \<Rightarrow> es = [] \<and> frame = Inr (Some (fst e)))"
    by (intro exI [of _ "[e]"] exI [of _ rest]) simp
qed simp_all

text \<open>A read that reports the end of the stream or an error: no message, and the loop is left.\<close>

lemma next_frame_ends:
  assumes "ending = Inr [] \<or> ending = Inl err" "next_frame codec rd [ending] = (Ready frame, rd', [])"
  shows "frame = Inr None \<or> (\<exists>e. frame = Inl e)"
  using assms by (auto simp: next_frame.simps split: prod.splits sum.splits decoded_frame.splits)

lemma world_client_ends_inv:
  assumes "msg_laws api" "world_inv api codec held js behavior w"
    and "ending = Inr [] \<or> ending = Inl err" "next_frame codec (ses_reader w) [ending] = (Ready frame, rd, [])"
    and "socket_allows (conn_writer (conn (ses w))) (Read frame out)" and step: "sys_step api codec js tk (ses w) (Read frame out) s"
  shows "world_inv api codec held js behavior (w\<lparr>ses := s, ses_reader := rd\<rparr>)"
proof (rule world_reads_inv [OF assms(1,2,5) step])
  fix seen got flight part assume "client_side api codec held js behavior w seen got flight part"
  moreover have "frame_rpc api frame = None \<and> reader s \<noteq> Reading"
    using next_frame_ends [OF assms(3,4)] step
    by (auto simp: frame_rpc_def read_loop_turn_def elim!: sys_step.cases)
  ultimately show "\<exists>new rest. flight = new @ rest \<and> ses_got (w\<lparr>ses := s, ses_reader := rd\<rparr>) \<le> length (wire (nuc_writer (nuc w))) \<and>
        (reader s = Reading \<longrightarrow> pipe codec held (ses_reader (w\<lparr>ses := s, ses_reader := rd\<rparr>))
          (to_client (w\<lparr>ses := s, ses_reader := rd\<rparr>)) (map fst rest) part) \<and>
        (case new of [] \<Rightarrow> frame_rpc api frame = None | e # es \<Rightarrow> es = [] \<and> frame = Inr (Some (fst e)))"
    by (intro exI [of _ "[]"] exI [of _ flight]) (simp add: client_side_def)
qed simp_all

subsection \<open>Steps of the nucleus\<close>

lemma client_side_turn:
  assumes "client_side api codec held js behavior w seen got flight part" "nuc_end w = Going"
    and "ses w' = ses w" "ses_reader w' = ses_reader w" "ses_got w' = ses_got w"
    and "wire (nuc_writer (nuc w')) = wire (nuc_writer (nuc w)) @ concat ws @ part'"
    and "map (write_message_to codec) (map fst es) = map Inr ws" "partial_frame codec part'"
    and "nuc_end w' = Going \<longrightarrow> part' = [] \<and> answered_in_full js behavior (tasks (ses w)) seen' (got @ answers (flight @ es))"
    and "\<forall>e \<in> set es. entry_ok api js (tasks (ses w)) e"
    and "answered js behavior (tasks (ses w)) seen' (got @ answers (flight @ es))"
  shows "client_side api codec held js behavior w' seen' got (flight @ es) part'"
proof -
  have old: "part = []" "ses_got w \<le> length (wire (nuc_writer (nuc w)))"
    "reader (ses w) = Reading \<longrightarrow> pipe codec held (ses_reader w) (to_client w) (map fst flight) []"
    "\<forall>e \<in> set flight. entry_ok api js (tasks (ses w)) e" "channels_ok (ses w) got"
    using assms(1,2) by (auto simp: client_side_def)
  have "to_client w' = to_client w @ concat ws @ part'"
    using old(2) assms(5,6) by (simp add: to_client_def)
  then show ?thesis
    using old assms(3-6,8-11) pipe_write [OF _ assms(7,8), of held "ses_reader w" "to_client w" "map fst flight"]
    by (auto simp: client_side_def)
qed

lemma mock_read_frame_next:
  assumes "mock_read_frame codec rd reads = (Ready frame, rd', reads')"
  shows "\<exists>f. next_frame codec rd reads = (Ready f, rd', reads') \<and> (\<forall>x. f = Inr x \<longrightarrow> frame = Inr x) \<and> ((\<exists>e. f = Inl e) \<longrightarrow> (\<exists>e. frame = Inl e))"
  using assms by (auto simp: mock_read_frame_def split: prod.splits poll.splits sum.splits error.splits)

lemma nucleus_reads_pend:
  assumes "codec_laws codec held" "nucleus_side api codec held js w seen pend" "nuc_end w = Going"
    and "to_nucleus w = concat chunks @ later" "[] \<notin> set chunks"
    and "mock_read_frame codec (nuc_reader w) (map Inr chunks) = (Ready frame, rd, [])"
  obtains og rest part where "pend = og # rest" "frame = Inr (Some (out_msg api js (tasks (ses w)) og))"
    "\<not> shut (conn_writer (conn (ses w))) \<longrightarrow> part = []" "pipe codec held rd later (out_msgs api js (tasks (ses w)) rest) part"
    "nuc_got w + length (concat chunks) \<le> length (wire (conn_writer (conn (ses w))))"
    "drop (nuc_got w + length (concat chunks)) (wire (conn_writer (conn (ses w)))) = later"
proof -
  obtain f where f: "next_frame codec (nuc_reader w) (map Inr chunks) = (Ready f, rd, [])" "\<forall>x. f = Inr x \<longrightarrow> frame = Inr x"
    using mock_read_frame_next [OF assms(6)] by blast
  obtain part where part: "\<not> shut (conn_writer (conn (ses w))) \<longrightarrow> part = []"
    "pipe codec held (nuc_reader w) (to_nucleus w) (out_msgs api js (tasks (ses w)) pend) part"
    using assms(2,3) by (auto simp: nucleus_side_def)
  from pipe_read [OF assms(1) part(2) assms(4,5) f(1)] obtain m ms where
    m: "out_msgs api js (tasks (ses w)) pend = m # ms" "f = Inr (Some m)" "pipe codec held rd later ms part" by (elim exE conjE) rule
  then obtain og rest where "pend = og # rest" "m = out_msg api js (tasks (ses w)) og"
      "ms = out_msgs api js (tasks (ses w)) rest" by (cases pend) (auto simp: out_msgs_def)
  moreover have "length (wire (conn_writer (conn (ses w)))) - nuc_got w = length (concat chunks) + length later"
    using arg_cong [OF assms(4), of length] by (simp add: to_nucleus_def)
  moreover have "nuc_got w \<le> length (wire (conn_writer (conn (ses w))))" using assms(2) by (simp add: nucleus_side_def)
  moreover have "drop (length (concat chunks)) (to_nucleus w) = later" using assms(4) by simp
  ultimately show thesis using m(2,3) f(2) part(1) by (intro that [of og rest part]) (simp_all add: to_nucleus_def add.commute)
qed

text \<open>What the frames of one activation add to what each task is told.\<close>

definition told_entries :: "nat \<Rightarrow> 'm list \<Rightarrow> delivery list \<Rightarrow> ('m \<times> (nat \<times> delivery) option) list" where
  "told_entries i ms ds = map (\<lambda>j. (ms ! j, Some (i, ds ! j))) [0..<length ms]"

lemma told_entries:
  assumes "length ms \<le> length ds"
  shows "map fst (told_entries i ms ds) = ms"
    and "fst ` set (answers (told_entries i ms ds)) \<subseteq> {i}"
    and "deliveries_for i (answers (told_entries i ms ds)) = take (length ms) ds"
proof -
  have "answers (map (\<lambda>j. (ms ! j, Some (i, ds ! j))) ns) = map (\<lambda>j. (i, ds ! j)) ns" for ns
    by (induction ns) simp_all
  moreover have "deliveries_for i (map (\<lambda>j. (i, ds ! j)) ns) = map ((!) ds) ns" for ns
    by (induction ns) simp_all
  moreover have "take (length ms) ds = map ((!) ds) [0..<length ms]"
    using assms by (auto intro!: nth_equalityI)
  ultimately show "map fst (told_entries i ms ds) = ms" "fst ` set (answers (told_entries i ms ds)) \<subseteq> {i}"
      "deliveries_for i (answers (told_entries i ms ds)) = take (length ms) ds"
    by (auto simp: told_entries_def intro!: nth_equalityI)
qed

lemma answered_activation:
  assumes "answered js behavior ts seen ds" "i \<notin> set seen" "fst ` set new \<subseteq> {i}"
    and "\<exists>n. deliveries_for i new = take n (expected js behavior (ts ! i))"
  shows "answered js behavior ts (seen @ [i]) (ds @ new)"
proof -
  have "deliveries_for i ds = []" using assms(1,2) by (intro deliveries_for_none) (auto simp: answered_def)
  moreover have "deliveries_for k new = []" if "k \<noteq> i" for k
    using that assms(3) by (intro deliveries_for_none) blast
  ultimately have "\<exists>n. deliveries_for k (ds @ new) = take n (expected js behavior (ts ! k))"
    if "k \<in> set seen \<or> k = i" for k
    using that assms(1,4) by (cases "k = i") (auto simp: answered_def)
  then show ?thesis using assms(1,3) unfolding answered_def by auto
qed


lemma answered_in_full_activation:
  assumes "answered js behavior ts seen ds" "answered_in_full js behavior ts seen ds" "i \<notin> set seen" "fst ` set new \<subseteq> {i}"
    and "deliveries_for i new = expected js behavior (ts ! i)"
  shows "answered_in_full js behavior ts (seen @ [i]) (ds @ new)"
proof -
  have "deliveries_for i ds = []" using assms(1,3) by (intro deliveries_for_none) (auto simp: answered_def)
  moreover have "deliveries_for k new = []" if "k \<noteq> i" for k
    using that assms(4) by (intro deliveries_for_none) blast
  ultimately have "deliveries_for k (ds @ new) = expected js behavior (ts ! k)" if "k \<in> set seen \<or> k = i" for k
    using that assms(2,5) by (cases "k = i") (auto simp: answered_in_full_def)
  then show ?thesis by (simp add: answered_in_full_def)
qed


lemma task_sid_nonzero:
  assumes "session_inv s" "length (tasks s) < 2 ^ 32" "i < length (tasks s)"
  shows "task_sid (tasks s ! i) \<noteq> 0"
proof
  assume "task_sid (tasks s ! i) = 0"
  then have "(word_of_nat (Suc i) :: i32) = 0" using assms(1,3) by (simp add: session_inv_def)
  then have "unat (word_of_nat (Suc i) :: i32) = 0" by (simp only: unat_0)
  then show False using assms(2,3) by (simp add: unat_of_nat take_bit_nat_eq_self del: of_nat_Suc)
qed

text \<open>A turn on a frame the nucleus makes nothing of, and on an activation.\<close>

lemma turn_aside_inv:
  assumes "client_side api codec held js behavior w seen got flight part" "nuc_end w = Going"
    and "heard api js (tasks (ses w)) seen (og # rest)" "og = Aside m"
    and "nucleus_turn api codec js behavior outs (Incoming (Inr (Some (out_msg api js (tasks (ses w)) og)))) (nuc w) = (end, nu)"
    and w': "ses w' = ses w" "ses_reader w' = ses_reader w" "ses_got w' = ses_got w" "nuc w' = nu" "nuc_end w' = end"
  shows "heard api js (tasks (ses w)) seen rest \<and> nuc_seen nu = nuc_seen (nuc w) \<and>
    client_side api codec held js behavior w' seen got flight part"
proof -
  have "aside api m" using assms(3,4) by (auto simp: heard_def)
  then have "end = Going \<and> nuc_writer nu = nuc_writer (nuc w) \<and> nuc_seen nu = nuc_seen (nuc w)"
    using assms(4,5) by (intro nucleus_turn_aside) (simp_all add: out_msg_def)
  then show ?thesis using assms(1-4) w' by (auto simp: client_side_def to_client_def heard_def)
qed

lemma turn_activation_inv:
  assumes "msg_laws api" "json_roundtrip js"
    and "session_inv (ses w)" "length (tasks (ses w)) < 2 ^ 32"
    and side: "client_side api codec held js behavior w seen got flight part" "nuc_end w = Going"
    and heard: "heard api js (tasks (ses w)) seen (Activation i # rest)" and t: "t = tasks (ses w) ! i"
    and turn: "nucleus_turn api codec js behavior outs (Incoming (Inr (Some (activation_of api js t)))) (nuc w) = (end, nu)"
    and w': "ses w' = ses w" "ses_reader w' = ses_reader w" "ses_got w' = ses_got w" "nuc w' = nu" "nuc_end w' = end"
  shows "nuc_seen nu = nuc_seen (nuc w) @ [(call_operation (task_call t), task_doc t)] \<and>
    (\<exists>flight' part'. client_side api codec held js behavior w' (seen @ [i]) got flight' part')"
proof -
  define op where "op = call_operation (task_call t)"
  have i: "i < length (tasks (ses w))" "i \<notin> set seen"
    "to_vec js (call_payload (task_call t)) = Inr (text_of js (call_payload (task_call t)))"
    using heard by (auto simp: heard_def task_doc_def t)
  from nucleus_turn_activation [OF assms(1,2) i(3) turn op_def] obtain ms ws part' where seen:
      "nuc_seen nu = nuc_seen (nuc w) @ [(op, call_payload (task_call t))]"
    and ms: "map (write_message_to codec) ms = map Inr ws"
      "wire (nuc_writer nu) = wire (nuc_writer (nuc w)) @ concat ws @ part'" "partial_frame codec part'" "end = Going \<longrightarrow> part' = []"
    and full: "\<forall>beh. end = Going \<and> behavior op = Some beh \<longrightarrow> length ms = length (told_all js (task_sid t) op beh)"
    and told: "ms \<noteq> [] \<longrightarrow> (\<exists>beh. behavior op = Some beh \<and> length ms \<le> length (told_all js (task_sid t) op beh) \<and>
          (\<forall>j < length ms. \<exists>rpc. parse api (ms ! j) = Inr rpc \<and> stream_id rpc = task_sid t \<and>
             delivery_of js rpc = told_all js (task_sid t) op beh ! j))" by blast
  define ds where "ds = expected js behavior t"
  have ds: "length ms \<le> length ds" "\<And>j. j < length ms \<Longrightarrow>
      \<exists>rpc. frame_rpc api (Inr (Some (ms ! j))) = Some rpc \<and> stream_id rpc = task_sid t \<and> delivery_of js rpc = ds ! j"
    using told task_sid_nonzero [OF assms(3,4) i(1)]
    by (cases "ms = []"; fastforce simp: ds_def expected_def op_def t frame_rpc_def)+
  note entries = told_entries [OF ds(1)]
  have all: "end = Going \<Longrightarrow> take (length ms) ds = ds"
    using full by (auto simp: ds_def expected_def op_def split: option.split)
  have "client_side api codec held js behavior w' (seen @ [i]) got (flight @ told_entries i ms ds) part'"
  proof (rule client_side_turn [OF side w'(1-3)])
    show "\<forall>e \<in> set (told_entries i ms ds). entry_ok api js (tasks (ses w)) e"
      using ds(2) i(1) by (auto simp: told_entries_def entry_ok_def t)
    have old: "answered js behavior (tasks (ses w)) seen (got @ answers flight)"
      "answered_in_full js behavior (tasks (ses w)) seen (got @ answers flight)"
      using side by (simp_all add: client_side_def)
    from answered_activation [OF old(1) i(2) entries(2)]
    show "answered js behavior (tasks (ses w)) (seen @ [i]) (got @ answers (flight @ told_entries i ms ds))"
      using entries(3) by (auto simp: ds_def t)
    show "nuc_end w' = Going \<longrightarrow>
        part' = [] \<and> answered_in_full js behavior (tasks (ses w)) (seen @ [i]) (got @ answers (flight @ told_entries i ms ds))"
      using answered_in_full_activation [OF old i(2) entries(2)] entries(3) all ms(4) w'(5) by (simp add: ds_def t)
  qed (use ms entries(1) w' in simp_all)
  then show ?thesis using seen by (auto simp: op_def task_doc_def)
qed


lemma nucleus_reads_sides:
  assumes "msg_laws api" "json_roundtrip js" "codec_laws codec held" "session_inv (ses w)" "length (tasks (ses w)) < 2 ^ 32"
    and side: "nucleus_side api codec held js w seen pend" "client_side api codec held js behavior w seen got flight part"
    and "nuc_end w = Going" "to_nucleus w = concat chunks @ later" "[] \<notin> set chunks"
    and "mock_read_frame codec (nuc_reader w) (map Inr chunks) = (Ready frame, rd, [])"
    and "nucleus_turn api codec js behavior outs (Incoming frame) (nuc w) = (end, nu)"
    and w': "w' = w\<lparr>nuc := nu, nuc_reader := rd, nuc_got := nuc_got w + length (concat chunks), nuc_end := end\<rparr>"
  shows "\<exists>og rest seen' flight' part'. pend = og # rest \<and> seen' = seen @ activations [og] \<and>
    nucleus_side api codec held js w' seen' rest \<and> client_side api codec held js behavior w' seen' got flight' part'"
proof -
  obtain og rest new where og: "pend = og # rest" "frame = Inr (Some (out_msg api js (tasks (ses w)) og))"
    "\<not> shut (conn_writer (conn (ses w))) \<longrightarrow> new = []" "pipe codec held rd later (out_msgs api js (tasks (ses w)) rest) new"
    "nuc_got w + length (concat chunks) \<le> length (wire (conn_writer (conn (ses w))))"
    "drop (nuc_got w + length (concat chunks)) (wire (conn_writer (conn (ses w)))) = later"
    by (rule nucleus_reads_pend [OF assms(3) side(1) assms(8-11)])
  have heard: "heard api js (tasks (ses w)) seen (og # rest)"
    "nuc_seen (nuc w) = map (\<lambda>i. (call_operation (task_call (tasks (ses w) ! i)), task_doc (tasks (ses w) ! i))) seen"
    "waiting_sent (tasks (ses w)) (seen @ activations (og # rest))"
    using side(1) og(1) by (simp_all add: nucleus_side_def)
  have "\<exists>flight' part'. heard api js (tasks (ses w)) (seen @ activations [og]) rest \<and>
      nuc_seen nu = map (\<lambda>i. (call_operation (task_call (tasks (ses w) ! i)), task_doc (tasks (ses w) ! i))) (seen @ activations [og]) \<and>
      client_side api codec held js behavior w' (seen @ activations [og]) got flight' part'"
  proof (cases og)
    case (Aside m)
    from turn_aside_inv [OF side(2) assms(8) heard(1) this, of outs "end" nu w'] show ?thesis
      using assms(12) og(2) heard(2) Aside w' by auto
  next
    case (Activation i)
    then have "nucleus_turn api codec js behavior outs (Incoming (Inr (Some (activation_of api js (tasks (ses w) ! i))))) (nuc w) = (end, nu)"
      using assms(12) og(2) by (simp add: out_msg_def)
    from turn_activation_inv [OF assms(1,2,4,5) side(2) assms(8) heard(1) [unfolded Activation] refl this, of w'] show ?thesis
      using heard(1,2) Activation w' by (auto simp: heard_def)
  qed
  then obtain flight' part' where "heard api js (tasks (ses w)) (seen @ activations [og]) rest"
      "nuc_seen nu = map (\<lambda>i. (call_operation (task_call (tasks (ses w) ! i)), task_doc (tasks (ses w) ! i))) (seen @ activations [og])"
      "client_side api codec held js behavior w' (seen @ activations [og]) got flight' part'" by blast
  moreover from this have "nucleus_side api codec held js w' (seen @ activations [og]) rest"
    using og(3-6) heard(3) w' by (cases og) (auto simp: nucleus_side_def to_nucleus_def)
  ultimately show ?thesis using og(1) by blast
qed

lemma world_nucleus_reads_inv:
  assumes "msg_laws api" "json_roundtrip js" "codec_laws codec held" "world_inv api codec held js behavior w" "nuc_end w = Going"
    and "to_nucleus w = concat chunks @ later" "[] \<notin> set chunks"
    and "mock_read_frame codec (nuc_reader w) (map Inr chunks) = (Ready frame, rd, [])"
    and "nucleus_turn api codec js behavior outs (Incoming frame) (nuc w) = (end, nu)"
  shows "world_inv api codec held js behavior
    (w\<lparr>nuc := nu, nuc_reader := rd, nuc_got := nuc_got w + length (concat chunks), nuc_end := end\<rparr>)"
    (is "world_inv _ _ _ _ _ ?w")
  unfolding world_inv_def
proof (intro conjI impI)
  show inv: "session_inv (ses ?w)" using assms(4) by (simp add: world_inv_def)
  assume "length (tasks (ses ?w)) < 2 ^ 32"
  then obtain seen pend got flight part where old: "nucleus_side api codec held js w seen pend"
      "client_side api codec held js behavior w seen got flight part" and len: "length (tasks (ses w)) < 2 ^ 32"
    using assms(4) unfolding world_inv_def by auto
  from nucleus_reads_sides [OF assms(1-3) inv [simplified] len old assms(5-9) refl]
  show "\<exists>seen pend got flight part. nucleus_side api codec held js ?w seen pend \<and>
        client_side api codec held js behavior ?w seen got flight part" by blast
qed

text \<open>The end of the nucleus, and what it is told by the test.\<close>

lemma world_turn_inv:
  assumes "world_inv api codec held js behavior w" "nuc_end w = Going"
    and "nuc_seen nu = nuc_seen (nuc w)" "map (write_message_to codec) ms = map Inr ws"
    and "wire (nuc_writer nu) = wire (nuc_writer (nuc w)) @ concat ws @ part" "partial_frame codec part"
    and "end = Going \<longrightarrow> part = [] \<and> rd = nuc_reader w"
    and "\<forall>m \<in> set ms. frame_rpc api (Inr (Some m)) = None \<and> (\<exists>command. control_message api command = Some m)"
  shows "world_inv api codec held js behavior (w\<lparr>nuc := nu, nuc_reader := rd, nuc_end := end\<rparr>)"
    (is "world_inv _ _ _ _ _ ?w")
  unfolding world_inv_def
proof (intro conjI impI)
  show "session_inv (ses ?w)" using assms(1) by (simp add: world_inv_def)
  assume "length (tasks (ses ?w)) < 2 ^ 32"
  then obtain seen pend got flight old_part where old: "nucleus_side api codec held js w seen pend"
      "client_side api codec held js behavior w seen got flight old_part"
    using assms(1) unfolding world_inv_def by auto
  define es where "es = map (\<lambda>m. (m, None :: (nat \<times> delivery) option)) ms"
  have es: "map fst es = ms" "answers es = []"
    unfolding es_def by (simp add: comp_def, induction ms) simp_all
  have "client_side api codec held js behavior ?w seen got (flight @ es) part"
  proof (rule client_side_turn [OF old(2) assms(2)])
    show "\<forall>e \<in> set es. entry_ok api js (tasks (ses w)) e" using assms(8) by (auto simp: es_def entry_ok_def)
    show "answered js behavior (tasks (ses w)) seen (got @ answers (flight @ es))"
      using old(2) es(2) by (simp add: client_side_def)
    show "nuc_end ?w = Going \<longrightarrow> part = [] \<and> answered_in_full js behavior (tasks (ses w)) seen (got @ answers (flight @ es))"
      using old(2) es(2) assms(2,7) by (simp add: client_side_def)
  qed (use assms(4-6) es(1) in simp_all)
  moreover have "nucleus_side api codec held js ?w seen pend"
    using old(1) assms(2,3,7) by (auto simp: nucleus_side_def to_nucleus_def)
  ultimately show "\<exists>seen pend got flight part. nucleus_side api codec held js ?w seen pend \<and>
        client_side api codec held js behavior ?w seen got flight part" by blast
qed

lemma world_step_inv:
  assumes "msg_laws api" "json_roundtrip js" "codec_laws codec held"
    and inv: "world_inv api codec held js behavior w" and "world_step api codec js tk behavior w l w'"
  shows "world_inv api codec held js behavior w'"
  using assms(5)
proof cases
  case (world_acts l s)
  then show ?thesis using world_acts_inv [OF assms(1) inv] by simp
next
  case (world_client_reads chunks later frame rd out s)
  then show ?thesis using world_client_reads_inv [OF assms(1,3) inv] by simp
next
  case (world_client_ends ending err frame rd out s)
  then show ?thesis using world_client_ends_inv [OF assms(1) inv] by simp
next
  case (world_nucleus_reads chunks later frame rd outs "end" nu)
  then show ?thesis using world_nucleus_reads_inv [OF assms(1-3) inv] by simp
next
  case (world_nucleus_ends ending err frame rd outs "end" nu)
  from mock_read_frame_next [OF world_nucleus_ends(5)] obtain f where
    "next_frame codec (nuc_reader w) [ending] = (Ready f, rd, [])" "\<forall>x. f = Inr x \<longrightarrow> frame = Inr x"
    "(\<exists>e. f = Inl e) \<longrightarrow> (\<exists>e. frame = Inl e)" by blast
  then have "frame = Inr None \<or> (\<exists>e. frame = Inl e)" using next_frame_ends [OF world_nucleus_ends(4)] by blast
  then have "end \<noteq> Going \<and> nu = nuc w" using world_nucleus_ends(6) by (auto simp: nucleus_turn_def)
  then show ?thesis using world_turn_inv [OF inv world_nucleus_ends(3), of nu "[]" "[]" "[]" "end" rd] world_nucleus_ends(2)
    by (simp add: partial_frame_def)
next
  case (world_told outs command "end" nu)
  from nucleus_turn_command [OF assms(1) world_told(4)] obtain ms ws part where
    "nuc_seen nu = nuc_seen (nuc w)" "map (write_message_to codec) ms = map Inr ws"
    "wire (nuc_writer nu) = wire (nuc_writer (nuc w)) @ concat ws @ part" "partial_frame codec part"
    "end = Going \<longrightarrow> part = []"
    "\<forall>m \<in> set ms. frame_rpc api (Inr (Some m)) = None \<and> (\<exists>command. control_message api command = Some m)" by blast
  then have "world_inv api codec held js behavior (w\<lparr>nuc := nu, nuc_reader := nuc_reader w, nuc_end := end\<rparr>)"
    by (intro world_turn_inv [OF inv world_told(3)]) simp_all
  then show ?thesis using world_told(2) by simp
qed

lemma world_inv_init:
  assumes "world_init held w"
  shows "world_inv api codec held js behavior w"
proof -
  have "tasks (ses w) = []" using assms by (auto simp: world_init_def session_init_def)
  then have "nucleus_side api codec held js w [] [] \<and> client_side api codec held js behavior w [] [] [] []"
    using assms
    by (simp add: world_init_def nucleus_side_def client_side_def heard_def waiting_sent_def answered_def answered_in_full_def
        channels_ok_def out_msgs_def
        pipe_def to_nucleus_def to_client_def partial_frame_def)
  then show ?thesis using assms session_inv_init unfolding world_inv_def world_init_def by blast
qed

end
