(* ===== verification/WorldProperties.thy ===== *)
theory WorldProperties
  imports WorldInvariant
begin

text \<open>
  What holds of every run of the two ends: what calls return and event streams yield is what the nucleus was told to
  answer, and the nucleus sees what was called.
\<close>

section \<open>What a call reports\<close>

text \<open>The errors a call makes itself: of its document, of its write, and of its own timeout.\<close>

definition own_error :: "json_api \<Rightarrow> duration \<Rightarrow> task \<Rightarrow> error \<Rightarrow> bool" where
  "own_error js timeout t err \<longleftrightarrow> (case err of
      Payload e \<Rightarrow> to_vec js (task_doc t) = Inl e | Io _ \<Rightarrow> True | Frame _ \<Rightarrow> True | ConnectionClosed \<Rightarrow> True
    | Timeout op d \<Rightarrow> call_kind (task_call t) = RequestCall \<and> op = call_operation (task_call t) \<and> d = timeout
    | _ \<Rightarrow> False)"

definition reported :: "task \<Rightarrow> error \<Rightarrow> bool" where
  "reported t err \<longleftrightarrow> task_phase t = Cleaning err \<or> task_phase t = Returned (Inl err)"

definition reports_ok :: "json_api \<Rightarrow> session \<Rightarrow> nat \<Rightarrow> bool" where
  "reports_ok js s i \<longleftrightarrow> (\<forall>err. reported (tasks s ! i) err \<longrightarrow>
     own_error js (request_timeout (conn s)) (tasks s ! i) err \<or> Inl err \<in> set (deliveries (task_events s i)))"

lemma sent_values_deliveries: "set (sent_values evs) \<subseteq> set (deliveries evs)"
  by (induction evs rule: sent_values.induct) (auto simp: deliveries_def)

lemma step_timeout: "sys_step api codec js tk s l s' \<Longrightarrow> request_timeout (conn s') = request_timeout (conn s)"
proof (erule sys_step.cases)
  fix sa frame out flow ce
  assume "s = sa" "s' = set_conn ce (sa\<lparr>reader := case flow of Continue \<Rightarrow> Reading | Break \<Rightarrow> LoopLeft\<rparr>)"
    "read_loop_turn api codec js frame out (conn sa) = (flow, ce)"
  then show ?thesis using read_loop_turn_frame(1) [of api codec js frame out "conn sa" flow "fst ce" "snd ce"] by simp
next
  fix sa i t out outcome c
  assume "s = sa" "send_activate api codec js (task_sid t) (call_operation (task_call t)) (call_model (task_call t))
      (call_payload (task_call t)) out (conn sa) = (outcome, c)"
    "s' = set_phase i (case outcome of Sent \<Rightarrow> Waiting | SerializeFailed err \<Rightarrow> Returned (Inl err) | WriteFailed err \<Rightarrow> Cleaning err)
       (set_conn (c, []) sa)"
  then show ?thesis using send_activate_frame by fastforce
next
  fix sa i t n c
  assume "s = sa" "s' = set_phase i Cancelled (set_conn (c, []) sa)"
    "drop_activate api codec js (task_sid t) (call_operation (task_call t)) (call_model (task_call t))
      (call_payload (task_call t)) n (conn sa) = Some c"
  then show ?thesis using drop_activate_frame by fastforce
qed (auto simp: alloc_stream_id_def register_def unregister_def send_terminate_def read_loop_fail_def read_loop_signal_def
    split: prod.splits)

lemma reports_ok_stable:
  assumes "reports_ok js s i" "sys_step api codec js tk s l s'" "i < length (tasks s)" "tasks s' ! i = tasks s ! i"
  shows "reports_ok js s' i"
  unfolding reports_ok_def
proof (intro allI impI)
  fix err assume rep: "reported (tasks s' ! i) err"
  then have "has_channel (tasks s ! i)" using assms(4) by (auto simp: reported_def has_channel_def)
  from step_events [OF assms(2,3) this] obtain new where "task_events s' i = task_events s i @ new" by blast
  then show "own_error js (request_timeout (conn s')) (tasks s' ! i) err \<or> Inl err \<in> set (deliveries (task_events s' i))"
    using assms(1,4) rep step_timeout [OF assms(2)] by (auto simp: reports_ok_def)
qed

lemma reports_ok_acting:
  assumes step: "sys_step api codec js tk s l s'" and inv: "session_inv s" and tk: "tokio_laws tk"
    and i: "label_task l = Some i" "i < length (tasks s)" and ok: "reports_ok js s i"
  shows "reports_ok js s' i"
  using step
proof cases
  case (step_send j t out outcome c)
  then show ?thesis using i
    by (auto simp: reports_ok_def reported_def own_error_def task_doc_def label_task_def send_activate_def write_message_def
        write_frame_def socket_write_def split: sent.splits sum.splits prod.splits write_outcome.splits)
next
  case (step_wake_request j t r)
  then have hist: "history (task_sid t) (Request (task_chan t)) (registered s i) (task_events s i)"
    using session_history [OF inv i(2)] i by (simp add: label_task_def has_channel_def task_sink_kind)
  then show ?thesis
    using step_wake_request i oneshot_poll_history [OF tk hist]
    by (auto simp: reports_ok_def reported_def own_error_def label_task_def request_result_def task_events_def
        request_history deliveries_def split: if_splits)
next
  case (step_wake_subscribe j t r)
  then have hist: "history (task_sid t) (task_sink t) (registered s i) (task_events s i)"
    using session_history [OF inv i(2)] i by (simp add: label_task_def has_channel_def)
  have "\<exists>d. r = Some d \<and> d \<in> set (sent_values (task_events s i))" if "r \<noteq> None"
    using that step_wake_subscribe(7) i(1) step_wake_subscribe(1)
    by (auto simp: label_task_def dest!: mpsc_poll_Some [OF tk])
  moreover have "message_type ack \<noteq> ApplicationError" if "Inr ack \<in> set (sent_values (task_events s i))" for ack
    using sent_values_sent [OF that] open_events_shape [OF hist] by blast
  ultimately show ?thesis using step_wake_subscribe i sent_values_deliveries [of "task_events s i"]
    by (auto simp: reports_ok_def reported_def own_error_def label_task_def subscribe_result_def task_events_def
        split: option.splits sum.splits if_splits)
next
  case (step_cleanup j t err)
  moreover have "has_channel (tasks s ! i)" using step_cleanup i by (auto simp: label_task_def has_channel_def)
  from step_events [OF step i(2) this] obtain new where "task_events s' i = task_events s i @ new" by blast
  ultimately show ?thesis using i ok step_timeout [OF step]
    by (auto simp: reports_ok_def reported_def label_task_def own_error_def task_doc_def split: error.splits)
qed (use i in \<open>auto simp: reports_ok_def reported_def label_task_def own_error_def\<close>)

definition reports_inv :: "tokio \<Rightarrow> json_api \<Rightarrow> session \<Rightarrow> bool" where
  "reports_inv tk js s \<longleftrightarrow> answers_inv tk s \<and> (\<forall>i < length (tasks s). reports_ok js s i)"

lemma reports_inv_step:
  assumes "reports_inv tk js s" "sys_step api codec js tk s l s'"
  shows "reports_inv tk js s'"
proof -
  have inv: "tokio_laws tk" "session_inv s" using assms(1) by (simp_all add: reports_inv_def answers_inv_def)
  have "reports_ok js s' i" if "i < length (tasks s')" for i
  proof (cases "i < length (tasks s)")
    case True
    then have "reports_ok js s i" using assms(1) by (simp add: reports_inv_def)
    then show ?thesis
      using reports_ok_acting [OF assms(2) inv(2,1) _ True] step_other_task [OF assms(2) _ True]
        reports_ok_stable [OF _ assms(2) True] by blast
  next
    case False
    then show ?thesis using step_new_task [OF assms(2) that] by (simp add: reports_ok_def reported_def)
  qed
  then show ?thesis using answers_inv_step [OF _ assms(2)] assms(1) by (simp add: reports_inv_def)
qed

lemma reports_inv_init: "session_init s \<Longrightarrow> tokio_laws tk \<Longrightarrow> reports_inv tk js s"
  using session_inv_init by (auto simp: reports_inv_def answers_inv_def session_init_def)

section \<open>Every run of the two ends\<close>

text \<open>What is seen of the program in such a run is a run of the program, and the invariant holds.\<close>

definition world_laws :: "('m, 'h, 'o) msg_api \<Rightarrow> ('m, 'd) codec \<Rightarrow> ('d \<Rightarrow> bytes) \<Rightarrow> json_api \<Rightarrow> tokio \<Rightarrow> bool" where
  "world_laws api codec held js tk \<longleftrightarrow> msg_laws api \<and> codec_laws codec held \<and> json_roundtrip js \<and> tokio_laws tk"

interpretation sockets: simulation "\<lambda>w. world_init held w \<and> world_laws api codec held js tk"
    "world_step api codec js tk behavior"
    "\<lambda>w. world_laws api codec held js tk \<and> world_inv api codec held js behavior w \<and> reports_inv tk js (ses w)"
    session_init "sys_step api codec js tk" "\<lambda>w. Some (ses w)"
  for api :: "('m, 'h, 'o) msg_api" and codec :: "('m, 'd) codec" and held js tk behavior
proof unfold_locales
  show "world_laws api codec held js tk \<and> world_inv api codec held js behavior w \<and> reports_inv tk js (ses w)"
    if "world_init held w \<and> world_laws api codec held js tk" for w
    using that reports_inv_init
    by (intro conjI world_inv_init) (auto simp: world_init_def world_laws_def)
  show ses: "\<exists>a. Some (ses w) = Some a \<and> (b = a \<or> (\<exists>m. sys_step api codec js tk a m b))"
    if "world_step api codec js tk behavior w l w'" "Some (ses w') = Some b" for w l w' b
    using that by cases auto
  show "world_laws api codec held js tk \<and> world_inv api codec held js behavior w' \<and> reports_inv tk js (ses w')"
    if "world_laws api codec held js tk \<and> world_inv api codec held js behavior w \<and> reports_inv tk js (ses w)"
      "world_step api codec js tk behavior w l w'" for w l w'
    using that world_step_inv [of api js codec held behavior w tk l w'] ses [OF that(2) refl] reports_inv_step
    by (auto simp: world_laws_def)
qed (simp add: world_init_def)


lemma channel_told:
  assumes "world_inv api codec held js behavior w" "length (tasks (ses w)) < 2 ^ 32"
    and "i < length (tasks (ses w))" "t = tasks (ses w) ! i" "has_channel t"
  obtains n fin where "deliveries (task_events (ses w) i) = take n (expected js behavior t) @ fin"
    "fin \<in> {[], [Inl ConnectionClosed]}"
    "take n (expected js behavior t) \<noteq> [] \<Longrightarrow> (call_operation (task_call t), task_doc t) \<in> set (nuc_seen (nuc w))"
proof -
  obtain seen pend got flight part where side: "nucleus_side api codec held js w seen pend"
      "client_side api codec held js behavior w seen got flight part"
    using assms(1,2) unfolding world_inv_def by blast
  obtain n fin where n: "deliveries (task_events (ses w) i) = take n (deliveries_for i got) @ fin"
      "fin \<in> {[], [Inl ConnectionClosed]}"
    using side(2) assms(3-5) unfolding client_side_def channels_ok_def channel_ok_def by metis
  have told: "answered js behavior (tasks (ses w)) seen (got @ answers flight)" using side(2) by (simp add: client_side_def)
  show thesis
  proof (cases "i \<in> set seen")
    case True
    then obtain k where k: "deliveries_for i got @ deliveries_for i (answers flight) = take k (expected js behavior t)"
      using told assms(4) by (auto simp: answered_def)
    have "deliveries_for i got = take (length (deliveries_for i got)) (take k (expected js behavior t))"
      unfolding k [symmetric] by simp
    then have "take n (deliveries_for i got) = take (min n (min (length (deliveries_for i got)) k)) (expected js behavior t)"
      by (metis take_take)
    moreover have "(call_operation (task_call t), task_doc t) \<in> set (nuc_seen (nuc w))"
      using True side(1) assms(4) by (auto simp: nucleus_side_def)
    ultimately show thesis using n that by metis
  next
    case False
    then have "deliveries_for i got = []" using told by (intro deliveries_for_none) (auto simp: answered_def)
    then show thesis using n that [of 0 fin] by simp
  qed
qed

lemma expected_errors:
  assumes "Inl err \<in> set (expected js behavior t)"
  shows "\<exists>model message. err = Service model message \<and>
    behavior (call_operation (task_call t)) = Some (Error model message)"
proof (cases "behavior (call_operation (task_call t))")
  case (Some beh)
  then have "Inl err \<in> set (told_all js (task_sid t) (call_operation (task_call t)) beh)"
    using assms by (simp add: expected_def)
  then show ?thesis using Some by (cases beh) (auto simp: told_all_def)
qed (use assms in \<open>simp add: expected_def\<close>)

lemma expected_hd:
  "take n (expected js behavior t) = d # ds \<Longrightarrow>
   \<exists>beh. behavior (call_operation (task_call t)) = Some beh \<and>
     told js (task_sid t) (call_operation (task_call t)) beh = Some d"
  by (cases "expected js behavior t"; cases n) (auto simp: expected_def told_hd split: option.splits)

text \<open>
  C1. What a call returns is what the nucleus was told. Client and nucleus run together on one socket, with any number of calls,
  in any interleaving, with the bytes cut in any chunks, the test's commands in between and the socket ending or
  failing at any moment. If a call has returned \<open>Ok\<close>, it is a request, the nucleus has seen its operation and its document,
  was told how to behave for that operation, and the message is exactly the first one of that behavior, on the
  call's own stream; if it has returned a service error, the nucleus has seen the call and was told to answer that very error. Every
  other error is the call's own: its timeout names its operation and the configured time, only requests time out,
  and a payload error is that of its own document. No call ever gets another's answer, an event of another operation or
  anything that was not sent. (Fewer than \<open>2^32\<close> calls, as the stream ids wrap. A call's write may fail after
  any part of its frame, which shuts the write half down; the writes the socket allows are those of \<open>socket_allows\<close>.)
\<close>

theorem calls_report_what_the_nucleus_was_told:
  assumes "msg_laws api" and "codec_laws codec held" and "json_roundtrip js" and "tokio_laws tk"
    and "reach (world_init held) (world_step api codec js tk behavior) w" and "length (tasks (ses w)) < 2 ^ 32"
    and "i < length (tasks (ses w))" and "t = tasks (ses w) ! i" and "task_phase t = Returned r"
    and "op = call_operation (task_call t)"
  shows "case r of
      Inr rpc \<Rightarrow> call_kind (task_call t) = RequestCall \<and>
        (\<exists>beh. behavior op = Some beh \<and> told js (task_sid t) op beh = Some (Inr rpc)) \<and>
        (op, call_payload (task_call t)) \<in> set (nuc_seen (nuc w))
    | Inl (Service model message) \<Rightarrow> behavior op = Some (Error model message) \<and>
        (op, call_payload (task_call t)) \<in> set (nuc_seen (nuc w))
    | Inl (Timeout op' d) \<Rightarrow> call_kind (task_call t) = RequestCall \<and> op' = op \<and> d = request_timeout (conn (ses w))
    | Inl (Payload err) \<Rightarrow> to_vec js (call_payload (task_call t)) = Inl err
    | Inl (NotUnderGreengrass text) \<Rightarrow> False
    | Inl (Handshake text) \<Rightarrow> False
    | Inl err \<Rightarrow> True"
proof -
  have inv: "world_inv api codec held js behavior w" "reports_ok js (ses w) i" "answers_inv tk (ses w)"
    using sockets.inv_reach [OF reach_both [OF assms(5)]] assms(1-4,7)
    by (auto simp: world_laws_def reports_inv_def)
  have "has_channel t" using assms(9) by (simp add: has_channel_def)
  from channel_told [OF inv(1) assms(6-8) this] obtain n fin where
    told: "deliveries (task_events (ses w) i) = take n (expected js behavior t) @ fin" "fin \<in> {[], [Inl ConnectionClosed]}"
    "take n (expected js behavior t) \<noteq> [] \<Longrightarrow> (op, call_payload (task_call t)) \<in> set (nuc_seen (nuc w))"
    unfolding assms(10) task_doc_def by blast
  show ?thesis
  proof (cases r)
    case (Inr rpc)
    then have ev: "call_kind (task_call t) = RequestCall" "task_events (ses w) i = [OneshotSend (task_chan t) (Inr rpc)]"
      using inv(3) assms(7-9) by (auto simp: answers_inv_def phase_ok_def Let_def)
    then have "take n (expected js behavior t) = [Inr rpc]"
      using told(1,2) by (auto simp: deliveries_def Cons_eq_append_conv)
    then show ?thesis using Inr ev(1) told(3) expected_hd [of n js behavior t "Inr rpc" "[]"] assms(10) by simp
  next
    case (Inl err)
    then have "own_error js (request_timeout (conn (ses w))) t err \<or> Inl err \<in> set (deliveries (task_events (ses w) i))"
      using inv(2) assms(8,9) by (simp add: reports_ok_def reported_def)
    moreover have "Inl err \<in> set (take n (expected js behavior t)) \<or> err = ConnectionClosed"
      if "Inl err \<in> set (deliveries (task_events (ses w) i))"
      using that told(1,2) by auto
    moreover have "\<exists>model message. err = Service model message \<and> behavior op = Some (Error model message)"
      if "Inl err \<in> set (take n (expected js behavior t))"
      using expected_errors [OF in_set_takeD [OF that]] assms(10) by simp
    moreover have "(op, call_payload (task_call t)) \<in> set (nuc_seen (nuc w))"
      if "Inl err \<in> set (take n (expected js behavior t))"
      by (rule told(3), rule notI) (use that in auto)
    ultimately show ?thesis using Inl assms(10)
      by (cases err) (auto simp: own_error_def task_doc_def)
  qed
qed

text \<open>What the consumer of an event stream gets in a run.\<close>

definition world_items :: "nat \<Rightarrow> 'm world_label \<Rightarrow> delivery list" where
  "world_items i l = (case l of Acts l' \<Rightarrow> items_of i l' | _ \<Rightarrow> [])"

lemma world_run_session:
  "run (world_step api codec js tk behavior) w ls w' \<Longrightarrow>
   \<exists>ls'. run (sys_step api codec js tk) (ses w) ls' (ses w') \<and>
     concat (map (items_of i) ls') = concat (map (world_items i) ls)"
proof (induction rule: run.induct)
  case (run_Nil w)
  then show ?case by (intro exI [of _ "[]"]) (simp add: run.run_Nil)
next
  case (run_Cons w l v ls u)
  then obtain ls' where ls': "run (sys_step api codec js tk) (ses v) ls' (ses u)"
    "concat (map (items_of i) ls') = concat (map (world_items i) ls)" by blast
  have "(ses v = ses w \<and> world_items i l = []) \<or> (\<exists>m. sys_step api codec js tk (ses w) m (ses v) \<and> items_of i m = world_items i l)"
    using run_Cons.hyps(1)
  proof cases
    case (world_acts l s)
    then show ?thesis by (auto simp: world_items_def)
  next
    case (world_client_reads chunks later frame rd out s)
    then show ?thesis by (intro disjI2 exI [of _ "Read frame out"]) (simp add: world_items_def items_of_def)
  next
    case (world_client_ends ending err frame rd out s)
    then show ?thesis by (intro disjI2 exI [of _ "Read frame out"]) (simp add: world_items_def items_of_def)
  qed (simp_all add: world_items_def)
  then show ?case
  proof
    assume "\<exists>m. sys_step api codec js tk (ses w) m (ses v) \<and> items_of i m = world_items i l"
    then obtain m where "sys_step api codec js tk (ses w) m (ses v)" "items_of i m = world_items i l" by blast
    then show ?thesis using ls' by (intro exI [of _ "m # ls'"]) (auto intro: run.run_Cons)
  qed (use ls' in auto)
qed

lemma sent_values_history:
  assumes "history sid (Subscription c) reg evs"
  shows "sent_values evs = deliveries evs"
proof -
  have "sent_values evs = deliveries evs" if "\<forall>c d. OneshotSend c d \<notin> set evs" for evs
    using that by (induction evs rule: sent_values.induct) (auto simp: deliveries_def)
  moreover have "\<forall>c d. OneshotSend c d \<notin> set evs"
    using subscription_history [OF assms] by (auto split: if_splits)
  ultimately show ?thesis by blast
qed

lemma take_after_first:
  assumes "fin \<in> {[], [x]}"
  shows "\<exists>n' fin'. take k (drop 1 (take n xs @ fin)) = take n' (tl xs) @ fin' \<and> fin' \<in> {[], [x]}"
proof (cases xs)
  case (Cons y ys)
  show ?thesis
  proof (cases n)
    case (Suc n')
    then have "take k (drop 1 (take n xs @ fin)) = take (min k n') (tl xs) @ take (k - min (length ys) n') fin"
      using Cons by simp
    moreover have "take j fin \<in> {[], [x]}" for j using assms by (auto simp: take_Cons')
    ultimately show ?thesis by blast
  qed (use assms in \<open>intro exI [of _ 0] exI [of _ "[]"], auto\<close>)
qed (use assms in \<open>intro exI [of _ 0] exI [of _ "[]"], auto\<close>)

text \<open>
  C2. What an event stream yields is what the nucleus was told: in any run of the two ends, from the moment the subscription is
  acknowledged, the consumer has got a prefix of the events the nucleus was told to send for its operation, in their
  order, none skipped, repeated or taken from another stream, then at most one \<open>ConnectionClosed\<close>.
\<close>

theorem event_streams_yield_what_the_nucleus_was_told:
  assumes "msg_laws api" and "codec_laws codec held" and "json_roundtrip js" and "tokio_laws tk"
    and "reach (world_init held) (world_step api codec js tk behavior) w"
    and "run (world_step api codec js tk behavior) w ls w'" and "length (tasks (ses w')) < 2 ^ 32"
    and "i < length (tasks (ses w))" and "t = tasks (ses w) ! i"
    and "task_phase t = Streaming 1" and "task_phase (tasks (ses w') ! i) = Streaming m"
  shows "\<exists>n fin. concat (map (world_items i) ls) =
      take n (tl (case behavior (call_operation (task_call t)) of
          None \<Rightarrow> [] | Some beh \<Rightarrow> told_all js (task_sid t) (call_operation (task_call t)) beh)) @ fin \<and>
    fin \<in> {[], [Inl ConnectionClosed]}"
proof -
  obtain ls' where ls': "run (sys_step api codec js tk) (ses w) ls' (ses w')"
      "concat (map (items_of i) ls') = concat (map (world_items i) ls)"
    using world_run_session [OF assms(6)] by blast
  have inv: "world_inv api codec held js behavior w'" "answers_inv tk (ses w)"
    using sockets.inv_reach [OF reach_both [OF assms(5)]] sockets.inv_reach [OF reach_both [OF reach_run [OF assms(6,5)]]] assms(1-4)
    by (auto simp: world_laws_def reports_inv_def)
  have t: "has_channel t" "call_kind (task_call t) = SubscribeCall"
    using assms(8-10) inv(2) by (auto simp: has_channel_def answers_inv_def phase_ok_def Let_def)
  let ?t = "tasks (ses w') ! i"
  have t': "i < length (tasks (ses w'))" "task_call ?t = task_call t" "task_sid ?t = task_sid t" "has_channel ?t"
    using run_tasks_grow [OF ls'(1)] run_task_call [OF ls'(1) assms(8)] run_entry [OF ls'(1) assms(8)] t(1) assms(8-11)
    by (auto simp: has_channel_def task_entry_def)
  have "concat (map (world_items i) ls) = take (m - 1) (drop 1 (sent_values (task_events (ses w') i)))"
    using run_items [OF ls'(1) inv(2) assms(8), of 1 m] ls'(2) assms(9-11) by simp
  moreover have "history (task_sid ?t) (Subscription (task_chan ?t)) (registered (ses w') i) (task_events (ses w') i)"
    using session_history [of "ses w'" i] inv(1) t' t(2) by (simp add: world_inv_def task_sink_kind)
  ultimately have items: "concat (map (world_items i) ls) = take (m - 1) (drop 1 (deliveries (task_events (ses w') i)))"
    by (simp add: sent_values_history)
  from channel_told [OF inv(1) assms(7) t'(1) refl t'(4)] obtain n fin where
    "deliveries (task_events (ses w') i) = take n (expected js behavior ?t) @ fin" "fin \<in> {[], [Inl ConnectionClosed]}"
    by blast
  moreover have "expected js behavior ?t = expected js behavior t" using t'(2,3) by (simp add: expected_def split: option.split)
  ultimately show ?thesis
    using items take_after_first [of fin "Inl ConnectionClosed" "m - 1" n "expected js behavior t"]
    unfolding expected_def by simp
qed

text \<open>
  C3. What the nucleus sees is what was called: what it records are the operation and the document of calls that sent their
  activation, each call at most once, and nothing else; terminations, ping responses and what arrives in
  pieces never show up there.
\<close>

theorem nucleus_sees_each_call_once:
  assumes "msg_laws api" and "codec_laws codec held" and "json_roundtrip js" and "tokio_laws tk"
    and "reach (world_init held) (world_step api codec js tk behavior) w" and "length (tasks (ses w)) < 2 ^ 32"
  shows "\<exists>order. distinct order \<and>
    (\<forall>i \<in> set order. i < length (tasks (ses w)) \<and> task_phase (tasks (ses w) ! i) \<notin> {Allocated, Registered}) \<and>
    nuc_seen (nuc w) = map (\<lambda>i. (call_operation (task_call (tasks (ses w) ! i)), call_payload (task_call (tasks (ses w) ! i)))) order"
proof -
  have "world_inv api codec held js behavior w"
    using sockets.inv_reach [OF reach_both [OF assms(5)]] assms(1-4) by (auto simp: world_laws_def)
  then obtain seen pend where "nucleus_side api codec held js w seen pend"
    using assms(6) unfolding world_inv_def by blast
  then show ?thesis by (intro exI [of _ seen]) (auto simp: nucleus_side_def heard_def task_doc_def)
qed

section \<open>A request and a subscription\<close>

definition demo_world :: "unit world" where
  "demo_world = \<lparr>ses = demo_start, ses_reader = framed_reader_new both_codec, ses_got = 0,
     nuc = demo_nucleus [] [] [], nuc_reader = framed_reader_new both_codec, nuc_got = 0, nuc_end = Going\<rparr>"

definition demo_behavior :: "behavior \<Rightarrow> string \<rightharpoonup> behavior" where
  "demo_behavior beh = [''op'' \<mapsto> beh]"

definition demo_world_run ::
  "behavior \<Rightarrow> ((string \<times> unit header_value) list \<times> bytes) world_label list \<Rightarrow> unit world option" where
  "demo_world_run beh ls = world_run pair_api both_codec demo_json demo_tokio (demo_behavior beh) ls demo_world"

definition demo_calls :: "call_kind \<Rightarrow> ((string \<times> unit header_value) list \<times> bytes) world_label list" where
  "demo_calls k = [Acts (Start (demo_call k)), Acts (Register 0), Acts (Send 0 WriteOk), NucleusReads [[0], [0]]]"

lemma demo_world_reach:
  assumes "demo_world_run beh ls = Some w"
  shows "reach (world_init (\<lambda>_. [])) (world_step pair_api both_codec demo_json demo_tokio (demo_behavior beh)) w"
proof -
  have "world_init (\<lambda>_. []) demo_world"
    using demo_start_init
    by (simp add: world_init_def demo_world_def demo_start_def demo_conn_def new_connection_def demo_nucleus_def backlog_new)
  then show ?thesis using assms unfolding demo_world_run_def
    by (blast intro: reach_run world_run_run reach_init)
qed

abbreviation demo_answer :: rpc_message where
  "demo_answer \<equiv> reply_rpc demo_json 1 ''opResponse'' (JObj []) FLAG_TERMINATE_STREAM"

lemma demo_answered_run:
  "case demo_world_run (Respond (JObj [])) (demo_calls RequestCall @ [ClientReads [[1, 0]], Acts (Wake 0)]) of
     None \<Rightarrow> False
   | Some w \<Rightarrow> tasks (ses w) = [demo_task RequestCall 1 0 (Returned (Inr demo_answer))]"
  by code_simp

theorem calls_report_what_the_nucleus_was_told_witness:
  "\<exists>w. demo_world_run (Respond (JObj [])) (demo_calls RequestCall @ [ClientReads [[1, 0]], Acts (Wake 0)]) = Some w \<and>
     task_phase (tasks (ses w) ! 0) = Returned (Inr demo_answer) \<and> (''op'', JObj []) \<in> set (nuc_seen (nuc w))"
proof -
  obtain w where w: "demo_world_run (Respond (JObj [])) (demo_calls RequestCall @ [ClientReads [[1, 0]], Acts (Wake 0)]) = Some w"
      "tasks (ses w) = [demo_task RequestCall 1 0 (Returned (Inr demo_answer))]"
    using demo_answered_run by (auto split: option.splits)
  note told = calls_report_what_the_nucleus_was_told [OF msg_laws_pair_api both_codec_laws demo_json_roundtrip demo_tokio_laws
      demo_world_reach [OF w(1)], where i = 0 and r = "Inr demo_answer"]
  show ?thesis using w told [OF _ _ refl _ refl] by (simp add: demo_task_def demo_call_def)
qed

theorem nucleus_sees_each_call_once_witness:
  "\<exists>w. demo_world_run (Respond (JObj [])) (demo_calls RequestCall @ [ClientReads [[1, 0]], Acts (Wake 0)]) = Some w \<and>
     nuc_seen (nuc w) \<in> {[], [(''op'', JObj [])]}"
proof -
  obtain w where w: "demo_world_run (Respond (JObj [])) (demo_calls RequestCall @ [ClientReads [[1, 0]], Acts (Wake 0)]) = Some w"
      "tasks (ses w) = [demo_task RequestCall 1 0 (Returned (Inr demo_answer))]"
    using demo_answered_run by (auto split: option.splits)
  note seen = nucleus_sees_each_call_once [OF msg_laws_pair_api both_codec_laws demo_json_roundtrip demo_tokio_laws
      demo_world_reach [OF w(1)]]
  obtain order where order: "distinct order" "\<forall>i \<in> set order. i < length (tasks (ses w))"
     "nuc_seen (nuc w) = map (\<lambda>i. (call_operation (task_call (tasks (ses w) ! i)), call_payload (task_call (tasks (ses w) ! i)))) order"
    by (rule exE [OF seen]) (use w(2) in auto)
  have "order \<in> {[], [0]}"
  proof (cases order)
    case (Cons i rest)
    then show ?thesis using order(1,2) w(2) by (cases rest) auto
  qed simp
  then show ?thesis using w order(3) by (auto simp: demo_task_def demo_call_def)
qed

abbreviation demo_event :: rpc_message where
  "demo_event \<equiv> reply_rpc demo_json 1 ''event'' (JObj []) 0"

abbreviation demo_told :: behavior where
  "demo_told \<equiv> Subscribe (JObj []) [(''event'', JObj []), (''event'', JObj [])]"

definition demo_subscribe :: "((string \<times> unit header_value) list \<times> bytes) world_label list" where
  "demo_subscribe = demo_calls SubscribeCall @ [ClientReads [[2], [0, 3, 0, 3]], Acts (Wake 0)]"

definition demo_consume :: "((string \<times> unit header_value) list \<times> bytes) world_label list" where
  "demo_consume = [ClientReads [], Acts (NextEvent 0 (Some (Inr demo_event))), ClientReads [[0]],
     Acts (NextEvent 0 (Some (Inr demo_event)))]"

lemma demo_subscribed_run:
  "case demo_world_run demo_told demo_subscribe of None \<Rightarrow> False
   | Some w \<Rightarrow> tasks (ses w) = [demo_task SubscribeCall 1 0 (Streaming 1)] \<and>
      (case world_run pair_api both_codec demo_json demo_tokio (demo_behavior demo_told) demo_consume w of
         None \<Rightarrow> False | Some w' \<Rightarrow> tasks (ses w') = [demo_task SubscribeCall 1 0 (Streaming 3)])"
  by code_simp

theorem event_streams_yield_what_the_nucleus_was_told_witness:
  "\<exists>w w' n fin. demo_world_run demo_told demo_subscribe = Some w \<and>
     world_run pair_api both_codec demo_json demo_tokio (demo_behavior demo_told) demo_consume w = Some w' \<and>
     concat (map (world_items 0) demo_consume) = take n [Inr demo_event, Inr demo_event] @ fin \<and>
     fin \<in> {[], [Inl ConnectionClosed]}"
proof -
  obtain w where w: "demo_world_run demo_told demo_subscribe = Some w" "tasks (ses w) = [demo_task SubscribeCall 1 0 (Streaming 1)]"
    "case world_run pair_api both_codec demo_json demo_tokio (demo_behavior demo_told) demo_consume w of
         None \<Rightarrow> False | Some w' \<Rightarrow> tasks (ses w') = [demo_task SubscribeCall 1 0 (Streaming 3)]"
    using demo_subscribed_run by (auto split: option.splits)
  then obtain w' where w': "world_run pair_api both_codec demo_json demo_tokio (demo_behavior demo_told) demo_consume w = Some w'"
    "tasks (ses w') = [demo_task SubscribeCall 1 0 (Streaming 3)]"
    by (auto split: option.splits)
  note items = event_streams_yield_what_the_nucleus_was_told [OF msg_laws_pair_api both_codec_laws demo_json_roundtrip
      demo_tokio_laws demo_world_reach [OF w(1)] world_run_run [OF w'(1)], where i = 0 and m = 3, OF _ _ refl]
  have "\<exists>n fin. concat (map (world_items 0) demo_consume) = take n [Inr demo_event, Inr demo_event] @ fin \<and>
      fin \<in> {[], [Inl ConnectionClosed]}"
    using items w(2) w'(2) by (simp add: demo_task_def demo_call_def demo_behavior_def told_all_def)
  then show ?thesis using w(1) w'(1) by blast
qed

end
