(* ===== verification/WorldProgress.thy ===== *)
theory WorldProgress
  imports WorldProperties
begin

text \<open>
  Progress of the two ends: whatever has happened so far, a call that waits for its answer can be brought to it by nothing
  but the two ends reading what is on its way to them.
\<close>

section \<open>The next message can be read\<close>

lemma pipe_available:
  assumes "codec_laws codec held" "pipe codec held rd flying (m # ms) part"
  shows "\<exists>chunks later rd'. flying = concat chunks @ later \<and> [] \<notin> set chunks \<and>
    next_frame codec rd (map Inr chunks) = (Ready (Inr (Some m)), rd', [])"
proof -
  obtain w rest where w: "write_message_to codec m = Inr w" "backlog held rd @ flying = w @ rest"
    using assms(2) by (auto simp: pipe_def)
  from w(2) [unfolded append_eq_append_conv2] obtain us where
    us: "backlog held rd = w @ us \<or> backlog held rd @ us = w \<and> flying = us @ rest" by blast
  consider "backlog held rd = w @ us" | "w = backlog held rd @ us" "flying = us @ rest" "us \<noteq> []"
    using us by (cases "us = []") auto
  then show ?thesis
  proof cases
    case 1
    then show ?thesis using next_frame_complete [OF assms(1) w(1), of rd "[]" us "[]"]
      by (intro exI [of _ "[]"] exI [of _ flying]) auto
  next
    case 2
    then obtain rd' chunks' where "next_frame codec rd [Inr us] = (Ready (Inr (Some m)), rd', map Inr chunks')"
      "concat chunks' = []" "set chunks' \<subseteq> {us}"
      using next_frame_complete [OF assms(1) w(1), of rd "[us]" "[]" "[]"] by auto
    moreover from this have "chunks' = []" using 2(3) by (cases chunks') auto
    ultimately show ?thesis using 2 by (intro exI [of _ "[us]"] exI [of _ rest]) auto
  qed
qed

section \<open>The nucleus reads what is on its way\<close>

text \<open>The replies the nucleus was told to make to the calls can be built and encoded.\<close>

definition can_answer ::
  "('m, 'h, 'o) msg_api \<Rightarrow> ('m, 'd) codec \<Rightarrow> json_api \<Rightarrow> (string \<rightharpoonup> behavior) \<Rightarrow> task list \<Rightarrow> bool" where
  "can_answer api codec js behavior ts \<longleftrightarrow> (\<forall>t \<in> set ts. case behavior (call_operation (task_call t)) of
      None \<Rightarrow> True
    | Some beh \<Rightarrow> \<forall>reply \<in> set (behavior_replies api js (task_sid t) (call_operation (task_call t)) beh).
        case reply of None \<Rightarrow> False | Some m \<Rightarrow> \<not> isl (write_message_to codec m))"

definition sides ::
  "('m, 'h, 'o) msg_api \<Rightarrow> ('m, 'd) codec \<Rightarrow> ('d \<Rightarrow> bytes) \<Rightarrow> json_api \<Rightarrow> (string \<rightharpoonup> behavior) \<Rightarrow> 'd world \<Rightarrow> nat list \<Rightarrow>
   'm outgoing list \<Rightarrow> (nat \<times> delivery) list \<Rightarrow> ('m \<times> (nat \<times> delivery) option) list \<Rightarrow> bool" where
  "sides api codec held js behavior w seen pend got flight \<longleftrightarrow> session_inv (ses w) \<and> length (tasks (ses w)) < 2 ^ 32 \<and>
     nuc_end w = Going \<and> nucleus_side api codec held js w seen pend \<and>
     (\<exists>part. client_side api codec held js behavior w seen got flight part)"

lemma mock_write_frames_all:
  assumes "\<forall>f \<in> set fs. case f of None \<Rightarrow> False | Some m \<Rightarrow> \<not> isl (write_message_to codec m)"
  shows "\<exists>wr'. mock_write_frames codec (\<lambda>_. WriteOk) i fs wr = (Going, wr')"
  using assms
proof (induction fs arbitrary: i wr)
  case (Cons f fs)
  then obtain m b where "f = Some m" "write_message_to codec m = Inr b"
    by (auto split: option.splits simp: isl_def) (metis sum.exhaust)
  then show ?case using Cons by (simp add: mock_write_frame_def socket_write_def)
qed simp

lemma nucleus_turn_answers:
  assumes "msg_laws api" "can_answer api codec js behavior ts" "t \<in> set ts"
  shows "\<exists>nu'. nucleus_turn api codec js behavior (\<lambda>_. WriteOk) (Incoming (Inr (Some (activation_of api js t)))) nu = (Going, nu')"
proof (cases "behavior (call_operation (task_call t))")
  case None
  then show ?thesis
    using mock_parse_activate [OF assms(1), of "task_sid t" "call_operation (task_call t)" "call_model (task_call t)"]
    by (simp add: nucleus_turn_def activation_of_def mock_constants Let_def)
next
  case (Some beh)
  let ?replies = "behavior_replies api js (task_sid t) (call_operation (task_call t)) beh"
  have all: "\<forall>f \<in> set ?replies. case f of None \<Rightarrow> False | Some m \<Rightarrow> \<not> isl (write_message_to codec m)"
    using assms(2,3) Some by (auto simp: can_answer_def split: option.splits)
  have "\<exists>nu'. nucleus_send codec (\<lambda>_. WriteOk) ?replies nu2 = (Going, nu')" for nu2
  proof -
    obtain wr' where "mock_write_frames codec (\<lambda>_. WriteOk) 0 ?replies (nuc_writer nu2) = (Going, wr')"
      using mock_write_frames_all [OF all] by blast
    then show ?thesis by (simp add: nucleus_send_def)
  qed
  then show ?thesis
    using Some mock_parse_activate [OF assms(1), of "task_sid t" "call_operation (task_call t)" "call_model (task_call t)"]
    by (simp add: nucleus_turn_def activation_of_def mock_constants Let_def)
qed

definition reads_only :: "'m world_label list \<Rightarrow> bool" where
  "reads_only ls \<longleftrightarrow> (\<forall>l \<in> set ls. case l of NucleusReads _ \<Rightarrow> True | ClientReads _ \<Rightarrow> True | _ \<Rightarrow> False)"

lemma nucleus_reads_next:
  assumes laws: "msg_laws api" "json_roundtrip js" "codec_laws codec held"
    and side: "sides api codec held js behavior w seen (og # rest) got flight"
    and "can_answer api codec js behavior (tasks (ses w))"
  shows "\<exists>chunks w' flight'. world_step api codec js tk behavior w (NucleusReads chunks) w' \<and> ses w' = ses w \<and>
    sides api codec held js behavior w' (seen @ activations [og]) rest got flight'"
proof -
  obtain part where old: "session_inv (ses w)" "length (tasks (ses w)) < 2 ^ 32" "nuc_end w = Going"
    "nucleus_side api codec held js w seen (og # rest)" "client_side api codec held js behavior w seen got flight part"
    using side by (auto simp: sides_def)
  obtain m where m: "m = out_msg api js (tasks (ses w)) og" by simp
  obtain new where "pipe codec held (nuc_reader w) (to_nucleus w) (m # out_msgs api js (tasks (ses w)) rest) new"
    using old(3,4) by (auto simp: nucleus_side_def out_msgs_def m)
  from pipe_available [OF laws(3) this] obtain chunks later rd where
    chunks: "to_nucleus w = concat chunks @ later" "[] \<notin> set chunks"
      "mock_read_frame codec (nuc_reader w) (map Inr chunks) = (Ready (Inr (Some m)), rd, [])"
    by (auto simp: mock_read_frame_def)
  have heard: "heard api js (tasks (ses w)) seen (og # rest)" using old(4) by (simp add: nucleus_side_def)
  have "\<exists>nu. nucleus_turn api codec js behavior (\<lambda>_. WriteOk) (Incoming (Inr (Some m))) (nuc w) = (Going, nu)"
  proof (cases og)
    case (Activation i)
    then have "tasks (ses w) ! i \<in> set (tasks (ses w))" using heard by (auto simp: heard_def)
    from nucleus_turn_answers [OF laws(1) assms(5) this] show ?thesis using Activation by (simp add: m out_msg_def)
  next
    case (Aside m')
    then have "aside api m" using heard by (auto simp: heard_def m out_msg_def)
    obtain e nu where "nucleus_turn api codec js behavior (\<lambda>_. WriteOk) (Incoming (Inr (Some m))) (nuc w) = (e, nu)"
      by (rule prod.exhaust)
    with nucleus_turn_aside [OF \<open>aside api m\<close> this] show ?thesis by simp
  qed
  then obtain nu where turn: "nucleus_turn api codec js behavior (\<lambda>_. WriteOk) (Incoming (Inr (Some m))) (nuc w) = (Going, nu)"
    by blast
  let ?w = "w\<lparr>nuc := nu, nuc_reader := rd, nuc_got := nuc_got w + length (concat chunks), nuc_end := Going\<rparr>"
  from nucleus_reads_sides [OF laws old(1,2,4,5,3) chunks turn refl]
  have "\<exists>flight' part'. nucleus_side api codec held js ?w (seen @ activations [og]) rest \<and>
      client_side api codec held js behavior ?w (seen @ activations [og]) got flight' part'" by auto
  then have "\<exists>flight'. sides api codec held js behavior ?w (seen @ activations [og]) rest got flight'"
    using old(1,2) by (auto simp: sides_def)
  then show ?thesis using world_nucleus_reads [OF old(3) chunks turn, of tk] by fastforce
qed

lemma nucleus_drains:
  assumes laws: "msg_laws api" "json_roundtrip js" "codec_laws codec held"
    and "sides api codec held js behavior w seen pend got flight" "can_answer api codec js behavior (tasks (ses w))"
  shows "\<exists>ls w' flight'. run (world_step api codec js tk behavior) w ls w' \<and> reads_only ls \<and> ses w' = ses w \<and>
    sides api codec held js behavior w' (seen @ activations pend) [] got flight'"
  using assms(4,5)
proof (induction pend arbitrary: w seen flight)
  case Nil
  then show ?case by (intro exI [of _ "[]"] exI [of _ w] exI [of _ flight]) (auto simp: reads_only_def intro: run_Nil)
next
  case (Cons og pend)
  from nucleus_reads_next [OF laws Cons.prems] obtain chunks v flight' where
    v: "world_step api codec js tk behavior w (NucleusReads chunks) v" "ses v = ses w"
      "sides api codec held js behavior v (seen @ activations [og]) pend got flight'" by blast
  have "can_answer api codec js behavior (tasks (ses v))" using Cons.prems(2) v(2) by simp
  from Cons.IH [OF v(3) this] obtain ls w' flight'' where ls: "run (world_step api codec js tk behavior) v ls w'" "reads_only ls"
      "ses w' = ses v" "sides api codec held js behavior w' ((seen @ activations [og]) @ activations pend) [] got flight''" by blast
  have "activations (og # pend) = activations [og] @ activations pend" by (cases og) simp_all
  then show ?case using ls v
    by (intro exI [of _ "NucleusReads chunks # ls"] exI [of _ w'] exI [of _ flight'']) (auto simp: reads_only_def intro: run_Cons)
qed

section \<open>The read loop reads what is on its way\<close>

text \<open>Of the messages the nucleus sends, only a protocol error ends the read loop.\<close>

lemma control_message_ends_loop:
  assumes "msg_laws api" "control_message api command = Some m" "read_loop_turn api codec js (Inr (Some m)) out c = (Break, ce)"
  shows "\<exists>mt body. command = SendProtocolError mt body"
proof (cases command)
  case (SendPing body)
  then have "parse api m = Inr \<lparr>message_type = Ping, flags = 0, stream_id = 0, service_model_type = None, payload = body\<rparr>"
    using assms(1,2) by (auto simp: control_message_def builder_simps mock_int32_def mock_constants)
  then show ?thesis using assms(3) by (simp add: read_loop_turn_def handle_protocol_message_def Let_def split: prod.splits)
qed (use assms(2) in \<open>auto simp: control_message_def\<close>)

text \<open>A run whose last step leaves the loop, as it reads a protocol error of the nucleus.\<close>

definition ended_by_nucleus ::
  "('m, 'h, 'o) msg_api \<Rightarrow> ('m, 'd) codec \<Rightarrow> json_api \<Rightarrow> tokio \<Rightarrow> (string \<rightharpoonup> behavior) \<Rightarrow>
   'd world \<Rightarrow> 'm world_label list \<Rightarrow> 'd world \<Rightarrow> bool" where
  "ended_by_nucleus api codec js tk behavior w ls w' \<longleftrightarrow> reader (ses w') = LoopLeft \<and>
     (\<exists>ks v chunks rd mt body m. ls = ks @ [ClientReads chunks] \<and> run (world_step api codec js tk behavior) w ks v \<and>
        world_step api codec js tk behavior v (ClientReads chunks) w' \<and>
        next_frame codec (ses_reader v) (map Inr chunks) = (Ready (Inr (Some m)), rd, []) \<and>
        control_message api (SendProtocolError mt body) = Some m)"

lemma ended_by_nucleus_after:
  assumes "run (world_step api codec js tk behavior) w js' v" "ended_by_nucleus api codec js tk behavior v ls w'"
  shows "ended_by_nucleus api codec js tk behavior w (js' @ ls) w'"
proof -
  obtain ks u chunks rd mt body m where u: "ls = ks @ [ClientReads chunks]" "run (world_step api codec js tk behavior) v ks u"
    "world_step api codec js tk behavior u (ClientReads chunks) w'"
    "next_frame codec (ses_reader u) (map Inr chunks) = (Ready (Inr (Some m)), rd, [])"
    "control_message api (SendProtocolError mt body) = Some m" "reader (ses w') = LoopLeft"
    using assms(2) unfolding ended_by_nucleus_def by blast
  have "js' @ ls = (js' @ ks) @ [ClientReads chunks]" using u(1) by simp
  then show ?thesis using u(3-6) run_append [OF assms(1) u(2)] unfolding ended_by_nucleus_def by blast
qed

lemma client_reads_next:
  assumes laws: "msg_laws api" "codec_laws codec held"
    and side: "sides api codec held js behavior w seen pend got (e # flight)" and "reader (ses w) = Reading"
  shows "\<exists>chunks w' pend'. world_step api codec js tk behavior w (ClientReads chunks) w' \<and> tasks (ses w') = tasks (ses w) \<and>
    sides api codec held js behavior w' seen pend' (got @ answers [e]) flight \<and>
    (reader (ses w') = Reading \<or> ended_by_nucleus api codec js tk behavior w [ClientReads chunks] w')"
proof -
  obtain part where old: "session_inv (ses w)" "length (tasks (ses w)) < 2 ^ 32" "nuc_end w = Going"
    "nucleus_side api codec held js w seen pend" "client_side api codec held js behavior w seen got (e # flight) part"
    using side by (auto simp: sides_def)
  have "pipe codec held (ses_reader w) (to_client w) (fst e # map fst flight) part"
    using old(5) assms(4) by (simp add: client_side_def)
  from pipe_available [OF laws(2) this] obtain chunks later rd where
    chunks: "to_client w = concat chunks @ later" "[] \<notin> set chunks"
      "next_frame codec (ses_reader w) (map Inr chunks) = (Ready (Inr (Some (fst e))), rd, [])" by blast
  let ?frame = "Inr (Some (fst e))" and ?out = "answer_outcome (conn_writer (conn (ses w)))"
  obtain flow ce where turn: "read_loop_turn api codec js ?frame ?out (conn (ses w)) = (flow, ce)" by (rule prod.exhaust)
  define s where "s = set_conn ce (ses w\<lparr>reader := (case flow of Continue \<Rightarrow> Reading | Break \<Rightarrow> LoopLeft)\<rparr>)"
  have step: "sys_step api codec js tk (ses w) (Read ?frame ?out) s" unfolding s_def by (rule step_read [OF assms(4) turn])
  define w' where "w' = w\<lparr>ses := s, ses_reader := rd, ses_got := ses_got w + length (concat chunks)\<rparr>"
  have wstep: "world_step api codec js tk behavior w (ClientReads chunks) w'"
    unfolding w'_def by (rule world_client_reads [OF chunks answer_outcome_allowed step])
  obtain rest e' where "e # flight = e' # rest" "?frame = Inr (Some (fst e'))" "ses_got w' \<le> length (wire (nuc_writer (nuc w)))"
    "pipe codec held (ses_reader w') (to_client w') (map fst rest) part"
    by (rule client_reads_flight [OF laws(2) old(5) assms(4) chunks, of w']) (simp_all add: w'_def)
  then have "\<exists>pend'. nucleus_side api codec held js w' seen pend' \<and>
      client_side api codec held js behavior w' seen (got @ answers [e]) flight part"
    by (intro client_reads_sides [OF laws(1) old(1,2,4,5) answer_outcome_allowed step]) (simp_all add: w'_def)
  then have "\<exists>pend'. sides api codec held js behavior w' seen pend' (got @ answers [e]) flight"
    using old(2,3) session_inv_step [OF old(1) step] by (auto simp: sides_def w'_def s_def)
  moreover have "reader (ses w') = Reading \<or> ended_by_nucleus api codec js tk behavior w [ClientReads chunks] w'"
  proof (cases flow)
    case Break
    have "entry_ok api js (tasks (ses w)) e" using old(5) by (simp add: client_side_def)
    moreover have "frame_rpc api ?frame = None"
      using turn Break by (auto simp: read_loop_turn_def frame_rpc_def split: sum.splits if_splits prod.splits)
    ultimately obtain command where command: "control_message api command = Some (fst e)"
      by (auto simp: entry_ok_def split: option.splits)
    then obtain mt body where "control_message api (SendProtocolError mt body) = Some (fst e)"
      using control_message_ends_loop [OF laws(1) command turn [unfolded Break]] command by blast
    moreover have "reader (ses w') = LoopLeft" using Break by (simp add: w'_def s_def)
    ultimately show ?thesis using wstep chunks(3) unfolding ended_by_nucleus_def
      by (intro disjI2 conjI exI [of _ "[]"] exI [of _ w] exI [of _ chunks]) (auto intro: run_Nil)
  qed (simp add: w'_def s_def)
  moreover have "tasks (ses w') = tasks (ses w)" by (simp add: w'_def s_def)
  ultimately show ?thesis using wstep by blast
qed

lemma client_drains:
  assumes laws: "msg_laws api" "codec_laws codec held"
    and "sides api codec held js behavior w seen pend got flight" "reader (ses w) = Reading"
  shows "\<exists>ls w' pend' got' flight'. run (world_step api codec js tk behavior) w ls w' \<and> reads_only ls \<and>
    tasks (ses w') = tasks (ses w) \<and> sides api codec held js behavior w' seen pend' got' flight' \<and>
    (reader (ses w') = Reading \<and> flight' = [] \<or> ended_by_nucleus api codec js tk behavior w ls w')"
  using assms(3,4)
proof (induction flight arbitrary: w pend got)
  case Nil
  then show ?case by (intro exI [of _ "[]"] exI [of _ w] exI [of _ pend] exI [of _ got]) (auto simp: reads_only_def intro: run_Nil)
next
  case (Cons e flight)
  from client_reads_next [OF laws Cons.prems] obtain chunks v pend' where
    v: "world_step api codec js tk behavior w (ClientReads chunks) v" "tasks (ses v) = tasks (ses w)"
      "sides api codec held js behavior v seen pend' (got @ answers [e]) flight"
      "reader (ses v) = Reading \<or> ended_by_nucleus api codec js tk behavior w [ClientReads chunks] v" by blast
  have one: "run (world_step api codec js tk behavior) w [ClientReads chunks] v" using v(1) by (blast intro: run.intros)
  show ?case
  proof (cases "reader (ses v) = Reading")
    case True
    from Cons.IH [OF v(3) True] obtain ls w' pend'' got' flight' where
      "run (world_step api codec js tk behavior) v ls w'" "reads_only ls" "tasks (ses w') = tasks (ses v)"
      "sides api codec held js behavior w' seen pend'' got' flight'"
      "reader (ses w') = Reading \<and> flight' = [] \<or> ended_by_nucleus api codec js tk behavior v ls w'" by blast
    then show ?thesis using v(2) run_append [OF one] ended_by_nucleus_after [OF one]
      by (intro exI [of _ "[ClientReads chunks] @ ls"] exI [of _ w'] exI [of _ pend''] exI [of _ got'] exI [of _ flight'])
        (auto simp: reads_only_def)
  next
    case False
    then show ?thesis using v(2-4) one
      by (intro exI [of _ "[ClientReads chunks]"] exI [of _ v] exI [of _ pend'] exI [of _ "got @ answers [e]"] exI [of _ flight])
        (auto simp: reads_only_def)
  qed
qed

section \<open>The answer\<close>

lemma told_reaches_channel:
  assumes "sides api codec held js behavior w seen pend got []" "reader (ses w) = Reading"
    and "i < length (tasks (ses w))" "task_phase (tasks (ses w) ! i) = Waiting" "i \<in> set seen"
    and "expected js behavior (tasks (ses w) ! i) = d # ds"
  shows "\<exists>ds'. deliveries (task_events (ses w) i) = d # ds'"
proof -
  have all: "deliveries_for i got = d # ds"
    using assms(1,5,6) by (auto simp: sides_def client_side_def answered_in_full_def)
  have "has_channel (tasks (ses w) ! i)" using assms(4) by (simp add: has_channel_def)
  then have "channel_ok (ses w) got i"
    using assms(1,3) by (auto simp: sides_def client_side_def channels_ok_def)
  then obtain n fin where "deliveries (task_events (ses w) i) = take n (deliveries_for i got) @ fin" "fin = []"
    "registered (ses w) i \<longrightarrow> n = length (deliveries_for i got)"
    "\<not> registered (ses w) i \<longrightarrow> deliveries (task_events (ses w) i) \<noteq> []"
    using assms(2,4) unfolding channel_ok_def by blast
  then show ?thesis using all by (cases n) auto
qed

lemma delivered_wakes:
  assumes tk: "tokio_laws tk" and inv: "session_inv s"
    and i: "i < length (tasks s)" "t = tasks s ! i" "task_phase t = Waiting" and d: "deliveries (task_events s i) = d # ds"
  shows "sys_step api codec js tk s (Wake i) (set_phase i (case call_kind (task_call t) of
    RequestCall \<Rightarrow> request_result (Some d) | SubscribeCall \<Rightarrow> subscribe_result js (Some d)) s)"
proof -
  have hist: "history (task_sid t) (task_sink t) (registered s i) (task_events s i)"
    using session_history [OF inv i(1)] i(2,3) by (simp add: has_channel_def)
  show ?thesis
  proof (cases "call_kind (task_call t)")
    case RequestCall
    note h = hist [unfolded task_sink_kind(1) [OF RequestCall]]
    have "task_events s i = [OneshotSend (task_chan t) d] \<and> \<not> registered s i"
      using h d by (auto simp: request_history deliveries_def split: if_splits)
    then have "oneshot_poll tk (task_events s i) = Ready (Some d)" using oneshot_poll_history [OF tk h] by simp
    then show ?thesis using step_wake_request [OF i RequestCall] RequestCall by simp
  next
    case SubscribeCall
    have "sent_values (task_events s i) = d # ds"
      using sent_values_history hist d by (simp add: task_sink_kind(2) [OF SubscribeCall])
    then have "mpsc_poll tk 0 (task_events s i) = Ready (Some d)"
      using tokio_lawsD(4) [OF tk, of 0 "task_events s i"] by simp
    then show ?thesis using step_wake_subscribe [OF i SubscribeCall] SubscribeCall by simp
  qed
qed


section \<open>A call that waits\<close>

definition demo_sent :: "((string \<times> unit header_value) list \<times> bytes) world_label list" where
  "demo_sent = [Acts (Start (demo_call RequestCall)), Acts (Register 0), Acts (Send 0 WriteOk)]"

lemma demo_sent_run:
  "case demo_world_run (Respond (JObj [])) demo_sent of None \<Rightarrow> False
   | Some w \<Rightarrow> tasks (ses w) = [demo_task RequestCall 1 0 Waiting] \<and> reader (ses w) = Reading \<and> nuc_end w = Going \<and>
       can_answer pair_api both_codec demo_json (demo_behavior (Respond (JObj []))) (tasks (ses w))"
  by code_simp


end
