(* ===== verification/Scenarios.thy ===== *)
theory Scenarios
  imports WorldProperties
begin

text \<open>
  The integration tests of \<open>tests/integration.rs\<close>, each as a function of the parameters it uses that starts the mock nucleus,
  connects a client, runs both and says whether all the test's assertions hold. What the test waits for with sleeps and timeouts
  is here that everything on the way arrives (\<open>deliver_all\<close>). What a test does is a run of \<open>world_step\<close> that
  begins where the handshake ends.
\<close>

section \<open>Starting a nucleus and connecting to it\<close>

text \<open>
  \<open>MockNucleus::start\<close> and \<open>Client::connect\<close>: the handshake of both ends, and what it leaves. The result is \<open>None\<close> when
  a document or a frame cannot be encoded, an end waits for more bytes or the mock's assertion fails.
\<close>

definition mock_token :: string where "mock_token = ''test-svcuid''"

definition env_for :: "string \<Rightarrow> ipc_env" where
  "env_for token = \<lparr>socket_path = bytes_of_str ''ipc.sock'', auth_token = token\<rparr>"

definition joined :: "connection \<Rightarrow> 'd framed_reader \<Rightarrow> 'd framed_reader \<Rightarrow> bytes \<Rightarrow> bytes \<Rightarrow> bool \<Rightarrow> 'd world" where
  "joined c cr rd hello ack accepted =
     \<lparr>ses = \<lparr>conn = c, reader = Reading, tasks = [], log = []\<rparr>, ses_reader = cr, ses_got = length ack,
      nuc = \<lparr>nuc_writer = \<lparr>wire = ack, shut = False\<rparr>, nuc_seen = [], nuc_frames = []\<rparr>, nuc_reader = rd,
      nuc_got = length hello, nuc_end = (if accepted then Going else Done)\<rparr>"

definition start_and_connect ::
  "('m, 'h, 'o) msg_api \<Rightarrow> ('m, 'd) codec \<Rightarrow> json_api \<Rightarrow> ipc_env \<Rightarrow> client_config \<Rightarrow> (error + 'd world) option" where
  "start_and_connect api codec js env config =
     (case to_vec js (ser_connect_payload (auth_token env)) of Inl _ \<Rightarrow> None | Inr body \<Rightarrow>
     (case write_message_to codec (connect_message api body) of Inl _ \<Rightarrow> None | Inr hello \<Rightarrow>
     (case mock_read_frame codec (framed_reader_new codec) [Inr hello] of
        (Ready (Inr (Some m)), rd, []) \<Rightarrow>
          (case nucleus_handshake api js mock_token m of None \<Rightarrow> None | Some (accepted, ack) \<Rightarrow>
          (case write_message_to codec ack of Inl _ \<Rightarrow> None | Inr ack_bytes \<Rightarrow>
          (case connect_with_config api codec js (\<lambda>_. Inr ()) WriteOk [Inr ack_bytes] env config of
             Ready (Inr (cl, cr, [])) \<Rightarrow> Some (Inr (joined (client_conn cl) cr rd hello ack_bytes accepted))
           | Ready (Inl err) \<Rightarrow> Some (Inl err)
           | _ \<Rightarrow> None)))
      | _ \<Rightarrow> None)))"

section \<open>Running both ends\<close>

text \<open>
  What is enabled next of what happens by itself: one end reads what is on its way, the client sees the socket end when the
  nucleus has gone, and the read loop that was left does its teardown.
\<close>

definition in_one :: "bytes \<Rightarrow> bytes list" where
  "in_one bs = (if bs = [] then [] else [bs])"

definition next_labels :: "'d world \<Rightarrow> 'm world_label list" where
  "next_labels w = [NucleusReads (in_one (to_nucleus w)), ClientReads (in_one (to_client w))] @
     (if nuc_end w = Going then [] else [ClientEnds (Inr [])]) @ [Acts FailAll, Acts Signal]"

fun first_enabled ::
  "('m, 'h, 'o) msg_api \<Rightarrow> ('m, 'd) codec \<Rightarrow> json_api \<Rightarrow> tokio \<Rightarrow> (string \<rightharpoonup> behavior) \<Rightarrow>
   'm world_label list \<Rightarrow> 'd world \<Rightarrow> 'd world option" where
  "first_enabled api codec js tk behavior [] w = None"
| "first_enabled api codec js tk behavior (l # ls) w = (case world_exec api codec js tk behavior l w of
      Some w' \<Rightarrow> Some w' | None \<Rightarrow> first_enabled api codec js tk behavior ls w)"

fun deliver_all ::
  "('m, 'h, 'o) msg_api \<Rightarrow> ('m, 'd) codec \<Rightarrow> json_api \<Rightarrow> tokio \<Rightarrow> (string \<rightharpoonup> behavior) \<Rightarrow> nat \<Rightarrow> 'd world \<Rightarrow> 'd world" where
  "deliver_all api codec js tk behavior 0 w = w"
| "deliver_all api codec js tk behavior (Suc n) w = (case first_enabled api codec js tk behavior (next_labels w) w of
      None \<Rightarrow> w | Some w' \<Rightarrow> deliver_all api codec js tk behavior n w')"

text \<open>A call begins, and what is on the way arrives; then it returns, or its timer expires.\<close>

definition begins ::
  "('m, 'h, 'o) msg_api \<Rightarrow> ('m, 'd) codec \<Rightarrow> json_api \<Rightarrow> tokio \<Rightarrow> (string \<rightharpoonup> behavior) \<Rightarrow> call \<Rightarrow> 'd world \<Rightarrow> 'd world option" where
  "begins api codec js tk behavior cl w = (let i = length (tasks (ses w)) in
     map_option (deliver_all api codec js tk behavior 9)
       (world_run api codec js tk behavior [Acts (Start cl), Acts (Register i), Acts (Send i WriteOk)] w))"

definition returns ::
  "('m, 'h, 'o) msg_api \<Rightarrow> ('m, 'd) codec \<Rightarrow> json_api \<Rightarrow> tokio \<Rightarrow> (string \<rightharpoonup> behavior) \<Rightarrow> nat \<Rightarrow> 'd world \<Rightarrow> 'd world option" where
  "returns api codec js tk behavior i w = (case world_exec api codec js tk behavior (Acts (Wake i)) w of
      Some w' \<Rightarrow> Some w'
    | None \<Rightarrow> world_run api codec js tk behavior [Acts (Expire i), Acts (Cleanup i)] w)"

definition response_of :: "json_api \<Rightarrow> (json \<Rightarrow> json_error + 'r) \<Rightarrow> nat \<Rightarrow> 'd world \<Rightarrow> (error + 'r) option" where
  "response_of js de i w = (case task_phase (tasks (ses w) ! i) of
      Returned r \<Rightarrow> Some (and_then r (decode_payload js de)) | _ \<Rightarrow> None)"

text \<open>\<open>updates.next()\<close>, and \<open>MockNucleus::next_frame_matching\<close> once everything has arrived.\<close>

definition next_item :: "json_api \<Rightarrow> tokio \<Rightarrow> (json \<Rightarrow> json_error + 'ev) \<Rightarrow> nat \<Rightarrow> 'd world \<Rightarrow> (error + 'ev) option poll" where
  "next_item js tk de i w = (case task_phase (tasks (ses w) ! i) of
      Streaming n \<Rightarrow> poll_next js de (mpsc_poll tk n (task_events (ses w) i)) | _ \<Rightarrow> Pending)"

definition next_frame_matching :: "(observed_frame \<Rightarrow> bool) \<Rightarrow> 'd world \<Rightarrow> observed_frame option" where
  "next_frame_matching predicate w = find predicate (nuc_frames (nuc w))"

definition closed_resolves :: "'d world \<Rightarrow> bool" where
  "closed_resolves w \<longleftrightarrow> client_closed \<lparr>client_conn = conn (ses w)\<rparr> = Ready ()"

text \<open>The parts of a test: a client that connects, a call that is awaited, a command to the nucleus, and what follows.\<close>

definition connected ::
  "('m, 'h, 'o) msg_api \<Rightarrow> ('m, 'd) codec \<Rightarrow> json_api \<Rightarrow> client_config \<Rightarrow> ('d world \<Rightarrow> bool) \<Rightarrow> bool" where
  "connected api codec js config test \<longleftrightarrow>
     (case start_and_connect api codec js (env_for mock_token) config of Some (Inr w) \<Rightarrow> test w | _ \<Rightarrow> False)"

definition awaits ::
  "('m, 'h, 'o) msg_api \<Rightarrow> ('m, 'd) codec \<Rightarrow> json_api \<Rightarrow> tokio \<Rightarrow> (string \<rightharpoonup> behavior) \<Rightarrow> call \<Rightarrow>
   ('d world \<Rightarrow> bool) \<Rightarrow> 'd world \<Rightarrow> bool" where
  "awaits api codec js tk behavior cl test w \<longleftrightarrow>
     (case Option.bind (begins api codec js tk behavior cl w) (returns api codec js tk behavior (length (tasks (ses w)))) of
        Some w' \<Rightarrow> test w' | None \<Rightarrow> False)"

definition commands ::
  "('m, 'h, 'o) msg_api \<Rightarrow> ('m, 'd) codec \<Rightarrow> json_api \<Rightarrow> tokio \<Rightarrow> (string \<rightharpoonup> behavior) \<Rightarrow> control \<Rightarrow>
   ('d world \<Rightarrow> bool) \<Rightarrow> 'd world \<Rightarrow> bool" where
  "commands api codec js tk behavior command test w \<longleftrightarrow>
     (case world_exec api codec js tk behavior (Told command) w of
        Some w' \<Rightarrow> test (deliver_all api codec js tk behavior 9 w') | None \<Rightarrow> False)"

text \<open>What a test does is a run of the two ends, and it begins where the handshake ends.\<close>

lemma first_enabled_step:
  "first_enabled api codec js tk behavior ls w = Some w' \<Longrightarrow> \<exists>l. world_step api codec js tk behavior w l w'"
  by (induction ls) (auto split: option.splits dest: world_exec_step)

lemma deliver_all_reach:
  "reach init (world_step api codec js tk behavior) w \<Longrightarrow>
   reach init (world_step api codec js tk behavior) (deliver_all api codec js tk behavior n w)"
  by (induction n arbitrary: w) (auto split: option.split intro: reach_step dest!: first_enabled_step)

lemma begins_reach:
  assumes "begins api codec js tk behavior cl w = Some w'" "reach init (world_step api codec js tk behavior) w"
  shows "reach init (world_step api codec js tk behavior) w'"
  using assms by (auto simp: begins_def Let_def simp del: world_run.simps intro: deliver_all_reach reach_run world_run_run)

lemma returns_reach:
  assumes "returns api codec js tk behavior i w = Some w'" "reach init (world_step api codec js tk behavior) w"
  shows "reach init (world_step api codec js tk behavior) w'"
  using assms
  by (auto simp: returns_def simp del: world_run.simps world_exec.simps split: option.splits
      intro: reach_step reach_run world_run_run world_exec_step)

lemma one_chunk_read:
  assumes "codec_laws codec held" "write_message_to codec m = Inr bs"
    and "next_frame codec (framed_reader_new codec) [Inr bs] = (Ready frame, rd, [])"
  shows "frame = Inr (Some m) \<and> backlog held rd = []"
proof -
  have "bs \<noteq> []"
  proof
    assume "bs = []"
    then obtain rd' where "next_frame codec (framed_reader_new codec) [Inr []] = (Ready (Inr (Some m)), rd', [Inr []])"
      using next_frame_complete [OF assms(1,2), of "framed_reader_new codec" "[]" "[]" "[Inr []]"] assms(1) by auto
    then show False using assms(3) \<open>bs = []\<close> by simp
  qed
  then show ?thesis
    using next_frame_complete [OF assms(1,2), of "framed_reader_new codec" "[bs]" "[]" "[]"] assms(1,3) by auto
qed

lemma start_and_connect_init:
  assumes "msg_laws api" "codec_laws codec held" "start_and_connect api codec js env config = Some (Inr w)"
  shows "world_init held w"
proof -
  obtain body hello m rd accepted ack ack_bytes c cr where
    hello: "to_vec js (ser_connect_payload (auth_token env)) = Inr body" "write_message_to codec (connect_message api body) = Inr hello"
      "mock_read_frame codec (framed_reader_new codec) [Inr hello] = (Ready (Inr (Some m)), rd, [])"
    and ack: "nucleus_handshake api js mock_token m = Some (accepted, ack)" "write_message_to codec ack = Inr ack_bytes"
      "connect api codec js (\<lambda>_. Inr ()) WriteOk [Inr ack_bytes] env (cfg_request_timeout config) = Ready (Inr (c, cr, []))"
    and w: "w = joined c cr rd hello ack_bytes accepted"
    using assms(3)
    by (auto simp: start_and_connect_def connect_with_config_def split: sum.splits prod.splits poll.splits option.splits list.splits)
  obtain f where "next_frame codec (framed_reader_new codec) [Inr hello] = (Ready f, rd, [])"
    using mock_read_frame_next [OF hello(3)] by blast
  then have rd: "backlog held rd = []" using one_chunk_read [OF assms(2) hello(2)] by blast
  have a: "ack = connect_ack api accepted" using ack(1) by (auto simp: nucleus_handshake_def Let_def split: prod.splits if_splits)
  have conn: "c = new_connection \<lparr>wire = hello, shut = False\<rparr> (cfg_request_timeout config)"
    "\<exists>m' got. next_frame codec (framed_reader_new codec) [Inr ack_bytes] = (Ready (Inr (Some m')), cr, []) \<and>
      parse api m' = Inr got \<and> connection_accepted got"
    using ack(3) hello(1,2)
    by (auto simp: connect_def write_frame_def socket_write_def split: sum.splits prod.splits poll.splits option.splits if_splits)
  then obtain got where cr: "backlog held cr = []" "parse api ack = Inr got" "connection_accepted got"
    using one_chunk_read [OF assms(2) ack(2)] by blast
  then have "accepted"
    using parse_connect_ack [OF assms(1), of accepted] a
    by (auto simp: connection_accepted_def FLAG_CONNECTION_ACCEPTED_def split: if_splits)
  then show ?thesis using rd cr(1) conn(1) unfolding w
    by (simp add: world_init_def joined_def session_init_def new_connection_def)
qed

section \<open>What the tests call\<close>

definition update_state_call :: "lifecycle_state \<Rightarrow> call" where
  "update_state_call state = \<lparr>call_kind = RequestCall, call_operation = ''aws.greengrass#UpdateState'',
     call_model = ''aws.greengrass#UpdateStateRequest'', call_payload = ser_update_state_request \<lparr>usr_state = state\<rparr>\<rparr>"

definition defer_call :: "string \<Rightarrow> i64 option \<Rightarrow> string option \<Rightarrow> call" where
  "defer_call deployment_id recheck_after_ms message = \<lparr>call_kind = RequestCall,
     call_operation = ''aws.greengrass#DeferComponentUpdate'', call_model = ''aws.greengrass#DeferComponentUpdateRequest'',
     call_payload = ser_defer_component_update_request
       \<lparr>dcu_deployment_id = deployment_id, dcu_message = message, dcu_recheck_after_ms = recheck_after_ms\<rparr>\<rparr>"

definition restart_call :: "string \<Rightarrow> call" where
  "restart_call component_name = \<lparr>call_kind = RequestCall, call_operation = ''aws.greengrass#RestartComponent'',
     call_model = ''aws.greengrass#RestartComponentRequest'',
     call_payload = ser_restart_component_request \<lparr>rsr_component_name = component_name\<rparr>\<rparr>"

definition component_updates_call :: call where
  "component_updates_call = \<lparr>call_kind = SubscribeCall, call_operation = ''aws.greengrass#SubscribeToComponentUpdates'',
     call_model = ''aws.greengrass#SubscribeToComponentUpdatesRequest'',
     call_payload = ser_subscribe_to_component_updates_request ()\<rparr>"

text \<open>They are what the client's operations send.\<close>

lemma calls_of_operations:
  "update_state api codec js state out w cl = (let c = update_state_call state in
     client_request api codec js (de_update_state_response js) (call_operation c) (call_model c) (call_payload c) out w cl)"
  "defer_component_update api codec js deployment_id recheck message out w cl = (let c = defer_call deployment_id recheck message in
     client_request api codec js (de_defer_component_update_response js) (call_operation c) (call_model c) (call_payload c) out w cl)"
  "restart_component api codec js name out w cl = (let c = restart_call name in
     client_request api codec js (de_restart_component_response js) (call_operation c) (call_model c) (call_payload c) out w cl)"
  "subscribe_to_component_updates api codec js out first cl = (let c = component_updates_call in
     client_subscribe api codec js (call_operation c) (call_model c) (call_payload c) out first cl)"
  by (simp_all add: update_state_def update_state_call_def defer_component_update_def defer_call_def
      restart_component_def restart_call_def subscribe_to_component_updates_def component_updates_call_def Let_def)

section \<open>The tests\<close>

text \<open>The constants of the mock that only the tests use.\<close>

definition MT_PING_RESPONSE :: i32 where "MT_PING_RESPONSE = 3"
definition MT_PROTOCOL_ERROR :: i32 where "MT_PROTOCOL_ERROR = 6"
definition MT_INTERNAL_ERROR :: i32 where "MT_INTERNAL_ERROR = 7"

definition handshake_and_update_state ::
  "('m, 'h, 'o) msg_api \<Rightarrow> ('m, 'd) codec \<Rightarrow> json_api \<Rightarrow> tokio \<Rightarrow> bool" where
  "handshake_and_update_state api codec js tk \<longleftrightarrow>
     (let behavior = [''aws.greengrass#UpdateState'' \<mapsto> Respond (JObj [])] in
      connected api codec js client_config_default (awaits api codec js tk behavior (update_state_call Running) (\<lambda>w.
        response_of js (de_update_state_response js) 0 w = Some (Inr ()) \<and>
        take 1 (nuc_seen (nuc w)) = [(''aws.greengrass#UpdateState'', JObj [(''state'', JStr ''RUNNING'')])])))"

definition rejected_handshake_is_an_error :: "('m, 'h, 'o) msg_api \<Rightarrow> ('m, 'd) codec \<Rightarrow> json_api \<Rightarrow> bool" where
  "rejected_handshake_is_an_error api codec js \<longleftrightarrow>
     (case start_and_connect api codec js (env_for ''wrong-token'') client_config_default of
        Some (Inl (Handshake _)) \<Rightarrow> True
      | _ \<Rightarrow> False)"

definition defer_component_update_sends_correct_payload ::
  "('m, 'h, 'o) msg_api \<Rightarrow> ('m, 'd) codec \<Rightarrow> json_api \<Rightarrow> tokio \<Rightarrow> bool" where
  "defer_component_update_sends_correct_payload api codec js tk \<longleftrightarrow>
     (let behavior = [''aws.greengrass#DeferComponentUpdate'' \<mapsto> Respond (JObj [])] in
      connected api codec js client_config_default (awaits api codec js tk behavior (defer_call ''deploy-123'' (Some 30000) None) (\<lambda>w.
        response_of js (de_defer_component_update_response js) 0 w = Some (Inr ()) \<and>
        take 1 (nuc_seen (nuc w)) = [(''aws.greengrass#DeferComponentUpdate'',
          JObj [(''deploymentId'', JStr ''deploy-123''), (''recheckAfterMs'', JNum ''30000'')])])))"

definition service_error_is_surfaced ::
  "('m, 'h, 'o) msg_api \<Rightarrow> ('m, 'd) codec \<Rightarrow> json_api \<Rightarrow> tokio \<Rightarrow> bool" where
  "service_error_is_surfaced api codec js tk \<longleftrightarrow>
     (let behavior = [''aws.greengrass#RestartComponent'' \<mapsto> Error ''aws.greengrass#ResourceNotFoundError'' ''no such component''] in
      connected api codec js client_config_default (awaits api codec js tk behavior (restart_call ''nope'') (\<lambda>w.
        response_of js (de_restart_component_response js) 0 w =
          Some (Inl (Service ''aws.greengrass#ResourceNotFoundError'' ''no such component'')))))"

definition subscribe_to_component_updates_streams_events ::
  "('m, 'h, 'o) msg_api \<Rightarrow> ('m, 'd) codec \<Rightarrow> json_api \<Rightarrow> tokio \<Rightarrow> bool" where
  "subscribe_to_component_updates_streams_events api codec js tk \<longleftrightarrow>
     (let behavior = [''aws.greengrass#SubscribeToComponentUpdates'' \<mapsto> Subscribe (JObj []) [(''aws.greengrass#ComponentUpdatePolicyEvents'',
          JObj [(''preUpdateEvent'', JObj [(''deploymentId'', JStr ''d-1''), (''isGgcRestarting'', JBool True)])])]] in
      connected api codec js client_config_default (awaits api codec js tk behavior component_updates_call (\<lambda>w.
        case next_item js tk (de_component_update_policy_events js) 0 w of
          Ready (Some (Inr event)) \<Rightarrow> (case pre_update_event event of
              Some pre \<Rightarrow> pre_deployment_id pre = ''d-1'' \<and> pre_is_ggc_restarting pre
            | None \<Rightarrow> False)
        | _ \<Rightarrow> False)))"

definition ping_is_answered_with_a_ping_response ::
  "('m, 'h, 'o) msg_api \<Rightarrow> ('m, 'd) codec \<Rightarrow> json_api \<Rightarrow> tokio \<Rightarrow> bool" where
  "ping_is_answered_with_a_ping_response api codec js tk \<longleftrightarrow>
     (let behavior = \<lambda>_. None in
      connected api codec js client_config_default (commands api codec js tk behavior (SendPing (bytes_of_str ''beat'')) (\<lambda>w.
        case next_frame_matching (\<lambda>f. of_message_type f = MT_PING_RESPONSE) w of
          Some response \<Rightarrow> of_stream_id response = 0 \<and> of_payload response = bytes_of_str ''beat''
        | None \<Rightarrow> False)))"

definition protocol_error_fails_in_flight_operations ::
  "('m, 'h, 'o) msg_api \<Rightarrow> ('m, 'd) codec \<Rightarrow> json_api \<Rightarrow> tokio \<Rightarrow> bool" where
  "protocol_error_fails_in_flight_operations api codec js tk \<longleftrightarrow>
     (let behavior = [''aws.greengrass#UpdateState'' \<mapsto> Silent] in
      connected api codec js (with_request_timeout client_config_default (duration_from_secs 30)) (\<lambda>w0.
        case begins api codec js tk behavior (update_state_call Running) w0 of
          None \<Rightarrow> False
        | Some w1 \<Rightarrow> commands api codec js tk behavior (SendProtocolError MT_PROTOCOL_ERROR ''{\"error\":\"boom\"}'') (\<lambda>w2.
            case returns api codec js tk behavior 0 w2 of
              None \<Rightarrow> False
            | Some w \<Rightarrow> response_of js (de_update_state_response js) 0 w = Some (Inl ConnectionClosed)) w1))"

definition internal_error_also_closes_the_connection ::
  "('m, 'h, 'o) msg_api \<Rightarrow> ('m, 'd) codec \<Rightarrow> json_api \<Rightarrow> tokio \<Rightarrow> bool" where
  "internal_error_also_closes_the_connection api codec js tk \<longleftrightarrow>
     (let behavior = \<lambda>_. None in
      connected api codec js client_config_default (commands api codec js tk behavior (SendProtocolError MT_INTERNAL_ERROR ''{\"error\":\"internal\"}'') closed_resolves))"

definition closed_resolves_when_the_socket_drops ::
  "('m, 'h, 'o) msg_api \<Rightarrow> ('m, 'd) codec \<Rightarrow> json_api \<Rightarrow> tokio \<Rightarrow> bool" where
  "closed_resolves_when_the_socket_drops api codec js tk \<longleftrightarrow>
     (let behavior = \<lambda>_. None in
      connected api codec js client_config_default (commands api codec js tk behavior Close closed_resolves))"

definition closed_resolves_immediately_if_already_dead ::
  "('m, 'h, 'o) msg_api \<Rightarrow> ('m, 'd) codec \<Rightarrow> json_api \<Rightarrow> tokio \<Rightarrow> bool" where
  "closed_resolves_immediately_if_already_dead api codec js tk \<longleftrightarrow>
     (let behavior = \<lambda>_. None in
      connected api codec js client_config_default (commands api codec js tk behavior Close (\<lambda>w. closed_resolves w \<and> closed_resolves (deliver_all api codec js tk behavior 9 w))))"

definition eof_mid_request_returns_connection_closed ::
  "('m, 'h, 'o) msg_api \<Rightarrow> ('m, 'd) codec \<Rightarrow> json_api \<Rightarrow> tokio \<Rightarrow> bool" where
  "eof_mid_request_returns_connection_closed api codec js tk \<longleftrightarrow>
     (let behavior = [''aws.greengrass#UpdateState'' \<mapsto> Silent] in
      connected api codec js client_config_default (\<lambda>w0.
        case begins api codec js tk behavior (update_state_call Running) w0 of
          None \<Rightarrow> False
        | Some w1 \<Rightarrow> commands api codec js tk behavior Close (\<lambda>w2.
            case returns api codec js tk behavior 0 w2 of
              None \<Rightarrow> False
            | Some w \<Rightarrow> response_of js (de_update_state_response js) 0 w = Some (Inl ConnectionClosed)) w1))"

definition request_times_out_when_the_nucleus_never_replies ::
  "('m, 'h, 'o) msg_api \<Rightarrow> ('m, 'd) codec \<Rightarrow> json_api \<Rightarrow> tokio \<Rightarrow> bool" where
  "request_times_out_when_the_nucleus_never_replies api codec js tk \<longleftrightarrow>
     (let behavior = [''aws.greengrass#UpdateState'' \<mapsto> Silent] in
      connected api codec js (with_request_timeout client_config_default (duration_from_millis 150))
       (awaits api codec js tk behavior (update_state_call Running) (\<lambda>w.
          response_of js (de_update_state_response js) 0 w =
            Some (Inl (Timeout ''aws.greengrass#UpdateState'' (duration_from_millis 150))))))"

definition timed_out :: "(error + 'r) option \<Rightarrow> bool" where
  "timed_out r \<longleftrightarrow> (case r of Some (Inl (Timeout _ _)) \<Rightarrow> True | _ \<Rightarrow> False)"

definition a_timed_out_request_does_not_resolve_a_later_caller ::
  "('m, 'h, 'o) msg_api \<Rightarrow> ('m, 'd) codec \<Rightarrow> json_api \<Rightarrow> tokio \<Rightarrow> bool" where
  "a_timed_out_request_does_not_resolve_a_later_caller api codec js tk \<longleftrightarrow>
     (let behavior = [''aws.greengrass#UpdateState'' \<mapsto> Silent] in
      connected api codec js (with_request_timeout client_config_default (duration_from_millis 100))
       (awaits api codec js tk behavior (update_state_call Running) (\<lambda>w1.
          timed_out (response_of js (de_update_state_response js) 0 w1) \<and>
          awaits api codec js tk behavior (update_state_call Running) (\<lambda>w2.
            timed_out (response_of js (de_update_state_response js) 1 w2)) w1)))"

definition dropping_an_event_stream_terminates_it_on_the_nucleus ::
  "('m, 'h, 'o) msg_api \<Rightarrow> ('m, 'd) codec \<Rightarrow> json_api \<Rightarrow> tokio \<Rightarrow> bool" where
  "dropping_an_event_stream_terminates_it_on_the_nucleus api codec js tk \<longleftrightarrow>
     (let behavior = [''aws.greengrass#SubscribeToComponentUpdates'' \<mapsto> Subscribe (JObj []) []] in
      connected api codec js client_config_default (awaits api codec js tk behavior component_updates_call (\<lambda>w1.
        case world_run api codec js tk behavior [Acts (DropStream 0), Acts (CloseRemove 0), Acts (CloseSend 0 WriteOk)] w1 of
          None \<Rightarrow> False
        | Some w2 \<Rightarrow>
            (case next_frame_matching (\<lambda>f. of_flags f AND MOCK_FLAG_TERMINATE_STREAM \<noteq> 0)
                (deliver_all api codec js tk behavior 9 w2) of
               Some terminate \<Rightarrow> of_stream_id terminate \<noteq> 0
             | None \<Rightarrow> False))))"

section \<open>The model passes them\<close>

text \<open>
  The messages of a test as the table of a codec: the two of the handshake with one token, and the test's own; and the
  documents all tests use.
\<close>

definition test_json :: json_api where
  "test_json = table_json [ser_connect_payload mock_token, ser_connect_payload ''wrong-token'', JObj [],
     JObj [(''state'', JStr ''RUNNING'')],
     JObj [(''deploymentId'', JStr ''deploy-123''), (''recheckAfterMs'', JNum ''30000'')],
     JObj [(''componentName'', JStr ''nope'')], JObj [(''message'', JStr ''no such component'')],
     JObj [(''preUpdateEvent'', JObj [(''deploymentId'', JStr ''d-1''), (''isGgcRestarting'', JBool True)])]]"

definition test_codec ::
  "string \<Rightarrow> ((string \<times> unit header_value) list \<times> bytes) list \<Rightarrow> ((string \<times> unit header_value) list \<times> bytes, unit) codec" where
  "test_codec token frames = table_codec
     ([connect_message pair_api (text_of test_json (ser_connect_payload token)), connect_ack pair_api (token = mock_token)] @ frames)"

definition sends :: "i32 \<Rightarrow> call \<Rightarrow> (string \<times> unit header_value) list \<times> bytes" where
  "sends sid cl = activate_message pair_api sid (call_operation cl) (call_model cl) (text_of test_json (call_payload cl))"

definition replies :: "call \<Rightarrow> behavior \<Rightarrow> ((string \<times> unit header_value) list \<times> bytes) list" where
  "replies cl beh = map the (behavior_replies pair_api test_json 1 (call_operation cl) beh)"

definition controls :: "control \<Rightarrow> (string \<times> unit header_value) list \<times> bytes" where
  "controls command = the (control_message pair_api command)"

lemma handshake_and_update_state_passes:
  "handshake_and_update_state pair_api
     (test_codec mock_token (sends 1 (update_state_call Running) # replies (update_state_call Running) (Respond (JObj [])))) test_json demo_tokio"
  by code_simp

lemma rejected_handshake_is_an_error_passes:
  "rejected_handshake_is_an_error pair_api
     (test_codec ''wrong-token'' []) test_json"
  by code_simp

lemma deferral:
  "defer_call ''deploy-123'' (Some 30000) None = \<lparr>call_kind = RequestCall,
     call_operation = ''aws.greengrass#DeferComponentUpdate'', call_model = ''aws.greengrass#DeferComponentUpdateRequest'',
     call_payload = JObj [(''deploymentId'', JStr ''deploy-123''), (''recheckAfterMs'', JNum ''30000'')]\<rparr>"
  by (simp add: defer_call_def deferral_document)

lemma defer_component_update_sends_correct_payload_passes:
  "defer_component_update_sends_correct_payload pair_api
     (test_codec mock_token (sends 1 (defer_call ''deploy-123'' (Some 30000) None) # replies (defer_call ''deploy-123'' (Some 30000) None) (Respond (JObj [])))) test_json demo_tokio"
  unfolding defer_component_update_sends_correct_payload_def deferral by code_simp

lemma service_error_is_surfaced_passes:
  "service_error_is_surfaced pair_api
     (test_codec mock_token (sends 1 (restart_call ''nope'') # replies (restart_call ''nope'')
        (Error ''aws.greengrass#ResourceNotFoundError'' ''no such component''))) test_json demo_tokio"
  by code_simp

lemma subscribe_to_component_updates_streams_events_passes:
  "subscribe_to_component_updates_streams_events pair_api
     (test_codec mock_token (sends 1 component_updates_call # replies component_updates_call (Subscribe (JObj [])
        [(''aws.greengrass#ComponentUpdatePolicyEvents'', JObj [(''preUpdateEvent'',
          JObj [(''deploymentId'', JStr ''d-1''), (''isGgcRestarting'', JBool True)])])]))) test_json demo_tokio"
  by code_simp

lemma ping_is_answered_with_a_ping_response_passes:
  "ping_is_answered_with_a_ping_response pair_api
     (test_codec mock_token [controls (SendPing (bytes_of_str ''beat'')), ping_response_message pair_api (bytes_of_str ''beat'')]) test_json demo_tokio"
  by code_simp

lemma protocol_error_fails_in_flight_operations_passes:
  "protocol_error_fails_in_flight_operations pair_api
     (test_codec mock_token [sends 1 (update_state_call Running), controls (SendProtocolError MT_PROTOCOL_ERROR ''{\"error\":\"boom\"}'')]) test_json demo_tokio"
  by code_simp

lemma internal_error_also_closes_the_connection_passes:
  "internal_error_also_closes_the_connection pair_api
     (test_codec mock_token [controls (SendProtocolError MT_INTERNAL_ERROR ''{\"error\":\"internal\"}'')]) test_json demo_tokio"
  by code_simp

lemma closed_resolves_when_the_socket_drops_passes:
  "closed_resolves_when_the_socket_drops pair_api
     (test_codec mock_token []) test_json demo_tokio"
  by code_simp

lemma closed_resolves_immediately_if_already_dead_passes:
  "closed_resolves_immediately_if_already_dead pair_api
     (test_codec mock_token []) test_json demo_tokio"
  by code_simp

lemma eof_mid_request_returns_connection_closed_passes:
  "eof_mid_request_returns_connection_closed pair_api
     (test_codec mock_token [sends 1 (update_state_call Running)]) test_json demo_tokio"
  by code_simp

lemma request_times_out_when_the_nucleus_never_replies_passes:
  "request_times_out_when_the_nucleus_never_replies pair_api
     (test_codec mock_token [sends 1 (update_state_call Running)]) test_json demo_tokio"
proof -
  obtain timeout where timeout: "duration_from_millis 150 = timeout" by blast
  show ?thesis unfolding request_times_out_when_the_nucleus_never_replies_def timeout by code_simp
qed

lemma a_timed_out_request_does_not_resolve_a_later_caller_passes:
  "a_timed_out_request_does_not_resolve_a_later_caller pair_api
     (test_codec mock_token [sends 1 (update_state_call Running), sends 2 (update_state_call Running)]) test_json demo_tokio"
proof -
  obtain timeout where timeout: "duration_from_millis 100 = timeout" by blast
  show ?thesis unfolding a_timed_out_request_does_not_resolve_a_later_caller_def timeout by code_simp
qed

lemma dropping_an_event_stream_terminates_it_on_the_nucleus_passes:
  "dropping_an_event_stream_terminates_it_on_the_nucleus pair_api
     (test_codec mock_token ([sends 1 component_updates_call, terminate_message pair_api 1] @ replies component_updates_call (Subscribe (JObj []) []))) test_json demo_tokio"
  by code_simp

end
