(* ===== verification/Base64.thy ===== *)
theory Base64
  imports Json
begin

text \<open>
  A concrete base64 engine, the standard alphabet with padding of RFC 4648, as an instance of the parameter
  \<open>base64_api\<close>: the law the properties assume of the engine holds of it, and the examples of the repository's
  tests evaluate on it.
\<close>

definition b64_alphabet :: string where
  "b64_alphabet = ''ABCDEFGHIJKLMNOPQRSTUVWXYZabcdefghijklmnopqrstuvwxyz0123456789+/''"

definition b64_char :: "nat \<Rightarrow> char" where
  "b64_char n = b64_alphabet ! n"

definition b64_value :: "char \<Rightarrow> nat option" where
  "b64_value c = index_of c b64_alphabet"

text \<open>The four groups of six bits of three bytes, and the three bytes of four groups.\<close>

definition six1 :: "byte \<Rightarrow> nat" where "six1 a = unat a div 4"
definition six2 :: "byte \<Rightarrow> byte \<Rightarrow> nat" where "six2 a b = unat a mod 4 * 16 + unat b div 16"
definition six3 :: "byte \<Rightarrow> byte \<Rightarrow> nat" where "six3 b c = unat b mod 16 * 4 + unat c div 64"
definition six4 :: "byte \<Rightarrow> nat" where "six4 c = unat c mod 64"

definition byte1 :: "nat \<Rightarrow> nat \<Rightarrow> byte" where "byte1 i j = word_of_nat (i * 4 + j div 16)"
definition byte2 :: "nat \<Rightarrow> nat \<Rightarrow> byte" where "byte2 j k = word_of_nat (j mod 16 * 16 + k div 4)"
definition byte3 :: "nat \<Rightarrow> nat \<Rightarrow> byte" where "byte3 k l = word_of_nat (k mod 4 * 64 + l)"

fun standard_encode :: "bytes \<Rightarrow> string" where
  "standard_encode [] = []"
| "standard_encode [a] = [b64_char (six1 a), b64_char (six2 a 0), CHR ''='', CHR ''='']"
| "standard_encode [a, b] = [b64_char (six1 a), b64_char (six2 a b), b64_char (six3 b 0), CHR ''='']"
| "standard_encode (a # b # c # r) =
     [b64_char (six1 a), b64_char (six2 a b), b64_char (six3 b c), b64_char (six4 c)] @ standard_encode r"

text \<open>Decoding four characters at a time; padding only at the end, and no bits left over.\<close>

fun standard_decode :: "string \<Rightarrow> string + bytes" where
  "standard_decode [] = Inr []"
| "standard_decode (w # x # y # z # r) = (case (b64_value w, b64_value x) of
      (Some i, Some j) \<Rightarrow>
        (if y = CHR ''='' \<and> z = CHR ''='' \<and> r = [] then
           (if j mod 16 = 0 then Inr [byte1 i j] else Inl ''invalid last symbol'')
         else (case (b64_value y, b64_value z) of
             (Some k, Some l) \<Rightarrow>
               and_then (standard_decode r) (\<lambda>bs. Inr ([byte1 i j, byte2 j k, byte3 k l] @ bs))
           | (Some k, None) \<Rightarrow>
               (if z = CHR ''='' \<and> r = [] then
                  (if k mod 4 = 0 then Inr [byte1 i j, byte2 j k] else Inl ''invalid last symbol'')
                else Inl ''invalid byte'')
           | _ \<Rightarrow> Inl ''invalid byte''))
    | _ \<Rightarrow> Inl ''invalid byte'')"
| "standard_decode _ = Inl ''invalid length''"

definition standard_engine :: base64_api where
  "standard_engine = \<lparr>b64_encode = standard_encode, b64_decode = (\<lambda>b. standard_decode (str_of_bytes b))\<rparr>"

section \<open>Round trip\<close>

lemma length_alphabet [simp]: "length b64_alphabet = 64"
  by (simp add: b64_alphabet_def)

lemma b64_value_char [simp]: "n < 64 \<Longrightarrow> b64_value (b64_char n) = Some n"
proof -
  have "\<forall>n \<in> set [0..<64]. b64_value (b64_char n) = Some n" by code_simp
  then show "n < 64 \<Longrightarrow> b64_value (b64_char n) = Some n" by simp
qed

lemma b64_value_pad [simp]: "b64_value (CHR ''='') = None"
  by code_simp

lemma b64_char_not_pad [simp]: "n < 64 \<Longrightarrow> b64_char n \<noteq> CHR ''=''"
  using b64_value_char b64_value_pad by (metis option.distinct(1))

lemma unat_byte: "unat (b :: byte) < 256"
  using unsigned_less [of b] by simp

lemma six_bits [simp]: "six1 a < 64" "six2 a b < 64" "six3 b c < 64" "six4 c < 64"
proof -
  have "unat b div 16 < 16" "unat c div 64 < 4" using unat_byte [of b] unat_byte [of c] by simp_all
  moreover have "unat a mod 4 < 4" "unat b mod 16 < 16" by simp_all
  ultimately show "six2 a b < 64" "six3 b c < 64" unfolding six2_def six3_def by linarith+
  show "six1 a < 64" "six4 c < 64" using unat_byte [of a] by (simp_all add: six1_def six4_def)
qed

lemma six2_parts [simp]: "six2 a b div 16 = unat a mod 4" "six2 a b mod 16 = unat b div 16"
proof -
  have "unat b div 16 < 16" using unat_byte [of b] by simp
  then show "six2 a b div 16 = unat a mod 4" "six2 a b mod 16 = unat b div 16" by (simp_all add: six2_def)
qed

lemma six3_parts [simp]: "six3 b c div 4 = unat b mod 16" "six3 b c mod 4 = unat c div 64"
proof -
  have "unat c div 64 < 4" using unat_byte [of c] by simp
  then show "six3 b c div 4 = unat b mod 16" "six3 b c mod 4 = unat c div 64" by (simp_all add: six3_def)
qed

lemma bytes_joined [simp]:
  "byte1 (six1 a) (six2 a b) = a" "byte2 (six2 a b) (six3 b c) = b" "byte3 (six3 b c) (six4 c) = c"
  by (simp_all add: byte1_def byte2_def byte3_def six1_def six4_def del: of_nat_add of_nat_mult)

lemma standard_decode_encode: "standard_decode (standard_encode b) = Inr b"
  by (induction b rule: standard_encode.induct) simp_all

lemma base64_roundtrip_standard_engine [simp]: "base64_roundtrip standard_engine"
  by (simp add: base64_roundtrip_def standard_engine_def standard_decode_encode)

end
