(* ===== verification/Tests.thy ===== *)
theory Tests
  imports Nucleus Base64
begin

text \<open>
  The unit tests of the crate (\<open>src/error.rs\<close>, \<open>src/eventstream/message.rs\<close>, \<open>src/model\<close>), each as a function of the
  parameters it uses that runs the model on the test's input and says whether all its assertions hold; an
  \<open>unwrap\<close> or \<open>expect\<close> that would panic is \<open>False\<close>. The model passes them: what the authors pin down about the
  code holds of its translation.
\<close>

section \<open>\<open>src/error.rs\<close>\<close>

text \<open>\<open>serde\<close>'s reader of a \<open>u32\<close> is an argument; it does not come to it, as \<open>nope\<close> is no JSON text.\<close>

definition errors_are_cloneable :: "json_api \<Rightarrow> (json \<Rightarrow> json_error + 32 word) \<Rightarrow> bool" where
  "errors_are_cloneable js de_u32 =
     (let io = from_io_error \<lparr>io_kind = BrokenPipe, io_text = ''gone''\<rparr> in
      case from_slice js de_u32 (bytes_of_str ''nope'') of
        Inr _ \<Rightarrow> False
      | Inl err \<Rightarrow> list_all (\<lambda>e. error_display (error_clone e) = error_display e)
          [NotUnderGreengrass ''SVCUID'', io, error_handshake ''rejected'', error_frame ''bad frame'', from_json_error err,
           Service ''aws.greengrass#ResourceNotFoundError'' ''nope'',
           Timeout ''aws.greengrass#UpdateState'' (duration_from_secs 30), ConnectionClosed])"

definition io_errors_keep_their_kind_through_the_arc :: bool where
  "io_errors_keep_their_kind_through_the_arc =
     (case from_io_error \<lparr>io_kind = PermissionDenied, io_text = ''denied''\<rparr> of
        Io inner \<Rightarrow> io_kind inner = PermissionDenied
      | _ \<Rightarrow> False)"

section \<open>\<open>src/eventstream/message.rs\<close>\<close>

definition connect_message_has_expected_headers :: "('m, 'h, 'o) msg_api \<Rightarrow> bool" where
  "connect_message_has_expected_headers api =
     (case parse api (connect_message api (bytes_of_str ''{\"authToken\":\"x\"}'')) of
        Inl _ \<Rightarrow> False
      | Inr parsed \<Rightarrow> message_type parsed = Connect \<and> stream_id parsed = 0 \<and> flags parsed = FLAG_NONE)"

definition activate_roundtrips_operation_and_stream_id :: "('m, 'h, 'o) msg_api \<Rightarrow> bool" where
  "activate_roundtrips_operation_and_stream_id api =
     (case parse api (activate_message api 7 ''aws.greengrass#UpdateState'' ''aws.greengrass#UpdateStateRequest''
        (bytes_of_str ''{}'')) of
        Inl _ \<Rightarrow> False
      | Inr parsed \<Rightarrow> message_type parsed = ApplicationMessage \<and> stream_id parsed = 7 \<and>
          service_model_type parsed = Some ''aws.greengrass#UpdateStateRequest'')"

definition ping_response_echoes_payload_on_stream_zero :: "('m, 'h, 'o) msg_api \<Rightarrow> bool" where
  "ping_response_echoes_payload_on_stream_zero api =
     (case parse api (ping_response_message api (bytes_of_str ''beat'')) of
        Inl _ \<Rightarrow> False
      | Inr parsed \<Rightarrow> message_type parsed = PingResponse \<and> stream_id parsed = 0 \<and>
          payload parsed = bytes_of_str ''beat'')"

definition terminate_sets_flag :: "('m, 'h, 'o) msg_api \<Rightarrow> bool" where
  "terminate_sets_flag api =
     (case parse api (terminate_message api 3) of
        Inl _ \<Rightarrow> False
      | Inr parsed \<Rightarrow> terminates_stream parsed \<and> stream_id parsed = 3)"

section \<open>\<open>src/model/lifecycle.rs\<close>\<close>

text \<open>\<open>serde_json::to_value\<close> gives the document itself.\<close>

definition update_state_serializes_enum_as_screaming_case :: bool where
  "update_state_serializes_enum_as_screaming_case \<longleftrightarrow>
     ser_update_state_request \<lparr>usr_state = Running\<rparr> = JObj [(''state'', JStr ''RUNNING'')]"

definition defer_omits_none_fields :: bool where
  "defer_omits_none_fields \<longleftrightarrow>
     ser_defer_component_update_request \<lparr>dcu_deployment_id = ''d'', dcu_message = None, dcu_recheck_after_ms = Some 0\<rparr> =
     JObj [(''deploymentId'', JStr ''d''), (''recheckAfterMs'', JNum ''0'')]"

definition pre_update_event_deserializes :: "json_api \<Rightarrow> bool" where
  "pre_update_event_deserializes js =
     (case de_component_update_policy_events js (JObj [(''preUpdateEvent'',
          JObj [(''deploymentId'', JStr ''abc''), (''isGgcRestarting'', JBool True)])]) of
        Inl _ \<Rightarrow> False
      | Inr ev \<Rightarrow> (case pre_update_event ev of
          None \<Rightarrow> False
        | Some pre \<Rightarrow> pre_deployment_id pre = ''abc'' \<and> pre_is_ggc_restarting pre))"

section \<open>\<open>src/model/iotcore.rs\<close>\<close>

text \<open>The texts \<open>v["payload"]\<close> and the raw string of the second test are where base64 and the JSON parser come in.\<close>

definition publish_request_serializes_with_base64_payload :: "base64_api \<Rightarrow> bool" where
  "publish_request_serializes_with_base64_payload b64 =
     (let v = ser_publish_to_iot_core_request b64
          \<lparr>pic_topic_name = ''test/topic'', pic_qos = AtLeastOnce, pic_payload = Some (Blob (bytes_of_str ''hi''))\<rparr>
      in value_get ''topicName'' v = Some (JStr ''test/topic'') \<and> value_get ''qos'' v = Some (JStr ''1'') \<and>
         value_get ''payload'' v = Some (JStr ''aGk=''))"

definition iotcore_message_deserializes_base64_payload :: "json_api \<Rightarrow> base64_api \<Rightarrow> bool" where
  "iotcore_message_deserializes_base64_payload js b64 =
     (case from_slice js (de_iot_core_message js b64)
          (bytes_of_str ''{\"message\":{\"topicName\":\"a/b\",\"payload\":\"aGk=\"}}'') of
        Inl _ \<Rightarrow> False
      | Inr m \<Rightarrow> (case icm_message m of
          None \<Rightarrow> False
        | Some msg \<Rightarrow> mqtt_topic_name msg = ''a/b'' \<and> mqtt_payload msg = Some (Blob (bytes_of_str ''hi''))))"

definition publish_omits_absent_payload :: "json_api \<Rightarrow> base64_api \<Rightarrow> bool" where
  "publish_omits_absent_payload js b64 =
     (to_vec js (ser_publish_to_iot_core_request b64 \<lparr>pic_topic_name = ''t'', pic_qos = AtMostOnce, pic_payload = None\<rparr>) =
      Inr (bytes_of_str ''{\"topicName\":\"t\",\"qos\":\"0\"}''))"

section \<open>They pass\<close>

lemma error_tests_pass:
  "io_errors_keep_their_kind_through_the_arc"
  "json_read js (bytes_of_str ''nope'') = Inl err \<Longrightarrow> errors_are_cloneable js de_u32"
  by (simp_all add: io_errors_keep_their_kind_through_the_arc_def errors_are_cloneable_def from_slice_def)

lemma message_tests_pass:
  assumes "msg_laws api"
  shows "connect_message_has_expected_headers api" "activate_roundtrips_operation_and_stream_id api"
    "ping_response_echoes_payload_on_stream_zero api" "terminate_sets_flag api"
  by (simp_all add: connect_message_has_expected_headers_def activate_roundtrips_operation_and_stream_id_def
      ping_response_echoes_payload_on_stream_zero_def terminate_sets_flag_def terminates_stream_def flag_defs
      connect_msg.parse_built_any [OF assms] activate_msg.parse_built_any [OF assms]
      ping_response_msg.parse_built_any [OF assms] terminate_msg.parse_built_any [OF assms])

lemma lifecycle_tests_pass:
  "update_state_serializes_enum_as_screaming_case" "defer_omits_none_fields" "pre_update_event_deserializes js"
  by (simp_all add: update_state_serializes_enum_as_screaming_case_def defer_omits_none_fields_def
      pre_update_event_deserializes_def documents_of_the_tests)

text \<open>
  The tests of \<open>iotcore.rs\<close> with the standard base64 engine; what the JSON parser makes of the second test's
  raw string, and the text the writer gives to the third's document, are the facts about \<open>serde_json\<close> they rest on.
\<close>

lemma iotcore_tests_pass:
  "publish_request_serializes_with_base64_payload standard_engine"
  "json_read js (bytes_of_str ''{\"message\":{\"topicName\":\"a/b\",\"payload\":\"aGk=\"}}'') =
     Inr (JObj [(''message'', JObj [(''topicName'', JStr ''a/b''), (''payload'', JStr ''aGk='')])]) \<Longrightarrow>
   iotcore_message_deserializes_base64_payload js standard_engine"
  "json_text js (JObj [(''topicName'', JStr ''t''), (''qos'', JStr ''0'')]) =
     Inr (bytes_of_str ''{\"topicName\":\"t\",\"qos\":\"0\"}'') \<Longrightarrow>
   publish_omits_absent_payload js b64"
proof -
  have hi: "standard_encode (bytes_of_str ''hi'') = ''aGk=''" by code_simp
  then have decoded: "standard_decode ''aGk='' = Inr (bytes_of_str ''hi'')" by (metis standard_decode_encode)
  show "publish_request_serializes_with_base64_payload standard_engine"
    by (simp add: publish_request_serializes_with_base64_payload_def ser_publish_to_iot_core_request_def ser_member_def
        ser_opt_member_def ser_qos_def ser_blob_def value_get_def standard_engine_def hi)
  show "json_read js (bytes_of_str ''{\"message\":{\"topicName\":\"a/b\",\"payload\":\"aGk=\"}}'') =
     Inr (JObj [(''message'', JObj [(''topicName'', JStr ''a/b''), (''payload'', JStr ''aGk='')])]) \<Longrightarrow>
   iotcore_message_deserializes_base64_payload js standard_engine"
    by (simp add: iotcore_message_deserializes_base64_payload_def from_slice_def de_iot_core_message_def
        de_mqtt_message_def de_blob_def serde_defs standard_engine_def decoded del: standard_decode.simps)
  show "json_text js (JObj [(''topicName'', JStr ''t''), (''qos'', JStr ''0'')]) =
     Inr (bytes_of_str ''{\"topicName\":\"t\",\"qos\":\"0\"}'') \<Longrightarrow> publish_omits_absent_payload js b64"
    by (simp add: publish_omits_absent_payload_def to_vec_def documents_of_the_tests)
qed

end
