(* ===== verification/Examples.thy ===== *)
theory Examples
  imports Client "HOL-Library.Sublist"
begin

text \<open>
  The example programs under \<open>examples/\<close>, which are also the quick start of the crate's documentation: what a
  component does with the client. A program is a function of what the environment answers, of what happens to the
  shared connection while it waits (\<open>meanwhile\<close>: the read loop's dispatches and its answers to pings), and of the
  client; it gives its result (\<open>Pending\<close> while it still waits), the client, the lines it has printed and the
  calls made on channel senders. What the runtime does when \<open>main\<close> has returned is not part of it.
\<close>

type_synonym program_run = "(error + unit) poll \<times> client \<times> string list \<times> effect list"

section \<open>Connecting and reporting RUNNING, common to all three\<close>

definition main_connected ::
  "(error + client \<times> 'd framed_reader \<times> read_result list) poll \<Rightarrow> (client \<Rightarrow> program_run) \<Rightarrow>
   (error + unit) poll \<times> client option \<times> string list \<times> effect list" where
  "main_connected connected body = (case connected of
      Pending \<Rightarrow> (Pending, None, [], [])
    | Ready (Inl err) \<Rightarrow> (Ready (Inl err), None, [], [])
    | Ready (Inr (cl, _, _)) \<Rightarrow>
        (case body cl of (res, cl', printed, eff) \<Rightarrow> (res, Some cl', printed, eff)))"

definition reporting_running ::
  "('m, 'h, 'o) msg_api \<Rightarrow> ('m, 'd) codec \<Rightarrow> json_api \<Rightarrow> write_outcome \<Rightarrow> request_wait \<Rightarrow> (client \<Rightarrow> client) \<Rightarrow>
   (client \<Rightarrow> program_run) \<Rightarrow> client \<Rightarrow> program_run" where
  "reporting_running api codec js out w meanwhile rest cl = (case update_state api codec js Running out w cl of
      (Inl err, cl', eff) \<Rightarrow> (Ready (Inl err), cl', [], eff)
    | (Inr _, cl', eff) \<Rightarrow>
        (case rest (meanwhile cl') of (res, cl'', printed, eff') \<Rightarrow> (res, cl'', printed, eff @ eff')))"

section \<open>\<open>examples/update_state.rs\<close>\<close>

definition update_state_main ::
  "('m, 'h, 'o) msg_api \<Rightarrow> ('m, 'd) codec \<Rightarrow> json_api \<Rightarrow> (bytes \<Rightarrow> io_error + unit) \<Rightarrow> write_outcome \<Rightarrow>
   read_result list \<Rightarrow> environ \<Rightarrow> write_outcome \<Rightarrow> request_wait \<Rightarrow>
   (error + unit) poll \<times> client option \<times> string list \<times> effect list" where
  "update_state_main api codec js open_socket hello_out reads e out w =
     main_connected (connect_from_env api codec js open_socket hello_out reads e)
       (reporting_running api codec js out w id
          (\<lambda>cl. (Ready (Inr ()), cl, [''reported RUNNING to the nucleus''], [])))"

section \<open>\<open>examples/docker/component/src/main.rs\<close>\<close>

text \<open>The lines of the first \<open>n\<close> heartbeats after \<open>ticks\<close>; the program is waiting for the next one.\<close>

fun heartbeats :: "nat \<Rightarrow> 64 word \<Rightarrow> string list" where
  "heartbeats 0 ticks = []"
| "heartbeats (Suc n) ticks = (let ticks' = ticks + 1 in
     (''greengrass-ipc-demo: alive (heartbeat #'' @ show_int (uint ticks') @ '')'') # heartbeats n ticks')"

definition component_main ::
  "('m, 'h, 'o) msg_api \<Rightarrow> ('m, 'd) codec \<Rightarrow> json_api \<Rightarrow> (bytes \<Rightarrow> io_error + unit) \<Rightarrow> write_outcome \<Rightarrow>
   read_result list \<Rightarrow> environ \<Rightarrow> write_outcome \<Rightarrow> request_wait \<Rightarrow> nat \<Rightarrow>
   (error + unit) poll \<times> client option \<times> string list \<times> effect list" where
  "component_main api codec js open_socket hello_out reads e out w n =
     main_connected (connect_from_env api codec js open_socket hello_out reads e)
       (reporting_running api codec js out w id
          (\<lambda>cl. (Pending, cl,
             ''greengrass-ipc-demo: connected to the nucleus and reported RUNNING'' # heartbeats n 0, [])))"

section \<open>\<open>examples/defer_component_update.rs\<close>\<close>

text \<open>
  One turn of \<open>while let Some(event) = updates.next().await\<close>: what the receiver gave, what happened to the
  connection until then, and the outcomes of the write and the wait of the call the turn may make.
\<close>

record loop_turn =
  turn_item :: "delivery option"
  turn_meanwhile :: "client \<Rightarrow> client"
  turn_out :: write_outcome
  turn_wait :: request_wait

fun defer_loop ::
  "('m, 'h, 'o) msg_api \<Rightarrow> ('m, 'd) codec \<Rightarrow> json_api \<Rightarrow> loop_turn list \<Rightarrow> client \<Rightarrow> program_run" where
  "defer_loop api codec js [] cl = (Pending, cl, [], [])"
| "defer_loop api codec js (t # ts) cl =
     (let cl1 = turn_meanwhile t cl in
      case poll_next js (de_component_update_policy_events js) (Ready (turn_item t)) of
        Pending \<Rightarrow> (Pending, cl1, [], [])
      | Ready None \<Rightarrow> (Ready (Inr ()), cl1, [], [])
      | Ready (Some (Inl err)) \<Rightarrow> (Ready (Inl err), cl1, [], [])
      | Ready (Some (Inr event)) \<Rightarrow> (case pre_update_event event of
          None \<Rightarrow> defer_loop api codec js ts cl1
        | Some pre \<Rightarrow>
            (let line = ''deferring deployment '' @ pre_deployment_id pre in
             case defer_component_update api codec js (pre_deployment_id pre) (Some 30000) None
                    (turn_out t) (turn_wait t) cl1 of
               (Inl err, cl2, eff) \<Rightarrow> (Ready (Inl err), cl2, [line], eff)
             | (Inr _, cl2, eff) \<Rightarrow> (case defer_loop api codec js ts cl2 of
                 (res, cl3, printed, eff') \<Rightarrow> (res, cl3, line # printed, eff @ eff')))))"

definition defer_component_update_main ::
  "('m, 'h, 'o) msg_api \<Rightarrow> ('m, 'd) codec \<Rightarrow> json_api \<Rightarrow> (bytes \<Rightarrow> io_error + unit) \<Rightarrow> write_outcome \<Rightarrow>
   read_result list \<Rightarrow> environ \<Rightarrow> write_outcome \<Rightarrow> request_wait \<Rightarrow> (client \<Rightarrow> client) \<Rightarrow> write_outcome \<Rightarrow>
   delivery option \<Rightarrow> loop_turn list \<Rightarrow>
   (error + unit) poll \<times> client option \<times> string list \<times> effect list" where
  "defer_component_update_main api codec js open_socket hello_out reads e out w meanwhile sub_out first turns =
     main_connected (connect_from_env api codec js open_socket hello_out reads e)
       (reporting_running api codec js out w meanwhile (\<lambda>cl.
          case subscribe_to_component_updates api codec js sub_out first cl of
            (Inl err, cl', eff) \<Rightarrow> (Ready (Inl err), cl', [], eff)
          | (Inr updates, cl', eff) \<Rightarrow>
              (case defer_loop api codec js turns cl' of
                 (res, cl'', printed, eff') \<Rightarrow> (res, cl'', printed, eff @ eff'))))"

section \<open>Every announced deployment is deferred\<close>

text \<open>The deployments announced by the items, up to the end of the stream or the first one that is an error.\<close>

fun announced :: "json_api \<Rightarrow> delivery option list \<Rightarrow> string list" where
  "announced js [] = []"
| "announced js (item # items) =
     (case poll_next js (de_component_update_policy_events js) (Ready item) of
        Ready (Some (Inr event)) \<Rightarrow>
          (case pre_update_event event of None \<Rightarrow> [] | Some pre \<Rightarrow> [pre_deployment_id pre]) @ announced js items
      | _ \<Rightarrow> [])"

text \<open>
  \<open>wrote codec cl cl' ms\<close>: between the two states the messages \<open>ms\<close> were written, whole. Others, while the program
  waits, write whole messages of their own and start no call.
\<close>

definition wrote :: "('m, 'd) codec \<Rightarrow> client \<Rightarrow> client \<Rightarrow> 'm list \<Rightarrow> bool" where
  "wrote codec cl cl' ms \<longleftrightarrow> (\<exists>ws. map (write_message_to codec) ms = map Inr ws \<and>
     wire (conn_writer (client_conn cl')) = wire (conn_writer (client_conn cl)) @ concat ws)"

definition undisturbed :: "('m, 'd) codec \<Rightarrow> (client \<Rightarrow> client) \<Rightarrow> bool" where
  "undisturbed codec f \<longleftrightarrow> (\<forall>cl. next_stream_id (client_conn (f cl)) = next_stream_id (client_conn cl) \<and>
     (\<exists>ms. wrote codec cl (f cl) ms))"

text \<open>\<open>m\<close> is the message that defers the deployment for 30 seconds, on stream \<open>sid\<close>.\<close>

definition deferral :: "('m, 'h, 'o) msg_api \<Rightarrow> json_api \<Rightarrow> i32 \<Rightarrow> string \<Rightarrow> 'm \<Rightarrow> bool" where
  "deferral api js sid deployment m \<longleftrightarrow> (\<exists>body.
     to_vec js (JObj [(''deploymentId'', JStr deployment), (''recheckAfterMs'', JNum ''30000'')]) = Inr body \<and>
     last_str api OPERATION (msg_headers api m) = Some ''aws.greengrass#DeferComponentUpdate'' \<and>
     parse api m = Inr \<lparr>message_type = ApplicationMessage, flags = FLAG_NONE, stream_id = sid,
       service_model_type = Some ''aws.greengrass#DeferComponentUpdateRequest'', payload = body\<rparr>)"

lemma wrote_trans: "wrote codec a b ms \<Longrightarrow> wrote codec b c ms' \<Longrightarrow> wrote codec a c (ms @ ms')"
  unfolding wrote_def by (metis (no_types, lifting) append.assoc concat_append map_append)

lemma wrote_Nil [simp]: "wrote codec cl cl []"
  by (simp add: wrote_def)

lemma wrote_one: "wrote codec cl cl' [m] \<longleftrightarrow> (\<exists>frame. write_message_to codec m = Inr frame \<and>
    wire (conn_writer (client_conn cl')) = wire (conn_writer (client_conn cl)) @ frame)"
  by (auto simp: wrote_def Cons_eq_map_conv)

lemma successful_call_wrote:
  "client_request api codec js de op model req out w cl = (Inr v, cl', eff) \<Longrightarrow>
     \<exists>body. to_vec js req = Inr body \<and>
       wrote codec cl cl' [activate_message api (next_stream_id (client_conn cl)) op model body] \<and>
       next_stream_id (client_conn cl') = next_stream_id (client_conn cl) + 1"
  "client_subscribe api codec js op model req out first cl = (Inr es, cl', eff) \<Longrightarrow>
     \<exists>body. to_vec js req = Inr body \<and>
       wrote codec cl cl' [activate_message api (next_stream_id (client_conn cl)) op model body] \<and>
       next_stream_id (client_conn cl') = next_stream_id (client_conn cl) + 1"
  by (auto simp: client_request_def client_subscribe_def set_client_def request_def subscribe_def alloc_stream_id_def
      send_activate_def write_message_def socket_write_def wrote_one Let_def
      split: prod.splits sum.splits write_outcome.splits
      dest!: register_keeps_writer finish_keeps_writer)

lemma successful_deferral:
  assumes "msg_laws api" "defer_component_update api codec js d (Some 30000) None out w cl = (Inr v, cl', eff)"
  shows "\<exists>m. wrote codec cl cl' [m] \<and> deferral api js (next_stream_id (client_conn cl)) d m \<and>
    next_stream_id (client_conn cl') = next_stream_id (client_conn cl) + 1"
proof -
  let ?m = "activate_message api (next_stream_id (client_conn cl)) ''aws.greengrass#DeferComponentUpdate''
      ''aws.greengrass#DeferComponentUpdateRequest''"
  obtain body where body: "to_vec js (JObj [(''deploymentId'', JStr d), (''recheckAfterMs'', JNum ''30000'')]) = Inr body"
      "wrote codec cl cl' [?m body]" "next_stream_id (client_conn cl') = next_stream_id (client_conn cl) + 1"
    using successful_call_wrote(1) [OF assms(2) [unfolded defer_component_update_def deferral_document]] by blast
  moreover have "deferral api js (next_stream_id (client_conn cl)) d (?m body)"
    unfolding deferral_def using body(1) activate_operation [OF assms(1)] activate_msg.parse_built_any [OF assms(1)]
    by auto
  ultimately show ?thesis by blast
qed

text \<open>The deferrals of the deployments, one message each, on consecutive stream ids.\<close>

fun deferrals :: "('m, 'h, 'o) msg_api \<Rightarrow> json_api \<Rightarrow> i32 \<Rightarrow> string list \<Rightarrow> 'm list \<Rightarrow> bool" where
  "deferrals api js sid [] ms \<longleftrightarrow> ms = []"
| "deferrals api js sid (d # ds) ms \<longleftrightarrow>
     (\<exists>m ms'. ms = m # ms' \<and> deferral api js sid d m \<and> deferrals api js (sid + 1) ds ms')"

lemma defer_loop_defers:
  assumes "msg_laws api" "defer_loop api codec js turns cl = (res, cl', printed, eff)"
    "\<forall>t \<in> set turns. undisturbed codec (turn_meanwhile t)" "res \<notin> Ready ` range Inl"
  shows "printed = map (\<lambda>d. ''deferring deployment '' @ d) (announced js (map turn_item turns)) \<and>
    (res = Ready (Inr ()) \<longleftrightarrow> None \<in> turn_item ` set turns) \<and>
    (\<exists>ms ds. wrote codec cl cl' ms \<and> subseq ds ms \<and>
       deferrals api js (next_stream_id (client_conn cl)) (announced js (map turn_item turns)) ds)"
  using assms(2-4)
proof (induction turns arbitrary: cl printed eff)
  case (Cons t turns)
  define cl1 where "cl1 = turn_meanwhile t cl"
  obtain before where before: "wrote codec cl cl1 before"
    "next_stream_id (client_conn cl1) = next_stream_id (client_conn cl)"
    using Cons.prems(2) unfolding undisturbed_def cl1_def by (meson list.set_intros(1))
  show ?case
  proof (cases "turn_item t")
    case None
    then show ?thesis using Cons.prems(1,3) before by (auto simp: poll_next_def cl1_def)
  next
    case (Some delivery)
    then obtain event where event: "poll_next js (de_component_update_policy_events js) (Ready (turn_item t)) =
        Ready (Some (Inr event))"
      using Cons.prems(1,3) by (cases delivery) (auto simp: poll_next_def Let_def split: sum.splits)
    show ?thesis
    proof (cases "pre_update_event event")
      case None
      then have "defer_loop api codec js turns cl1 = (res, cl', printed, eff)"
        using Cons.prems(1) event by (simp add: cl1_def)
      from Cons.IH [OF this] Cons.prems(2,3) obtain ms ds where
        "wrote codec cl1 cl' ms" "subseq ds ms"
          "deferrals api js (next_stream_id (client_conn cl)) (announced js (map turn_item turns)) ds"
        and IH: "printed = map (\<lambda>d. ''deferring deployment '' @ d) (announced js (map turn_item turns))"
          "res = Ready (Inr ()) \<longleftrightarrow> None \<in> turn_item ` set turns"
        using before(2) by auto
      then have "wrote codec cl cl' (before @ ms)" "subseq ds (before @ ms)"
          "deferrals api js (next_stream_id (client_conn cl)) (announced js (map turn_item turns)) ds"
        using wrote_trans [OF before(1)] by (auto simp: list_emb_append2)
      then have "\<exists>ms ds. wrote codec cl cl' ms \<and> subseq ds ms \<and>
          deferrals api js (next_stream_id (client_conn cl)) (announced js (map turn_item turns)) ds" by blast
      then show ?thesis using Some None event IH by simp
    next
      case (Some pre)
      then obtain v cl2 eff1 printed2 eff2 where
        call: "defer_component_update api codec js (pre_deployment_id pre) (Some 30000) None
            (turn_out t) (turn_wait t) cl1 = (Inr v, cl2, eff1)" and
        rest: "defer_loop api codec js turns cl2 = (res, cl', printed2, eff2)" and
        printed: "printed = (''deferring deployment '' @ pre_deployment_id pre) # printed2"
        using Cons.prems(1,3) event by (auto simp: cl1_def Let_def split: prod.splits sum.splits)
      obtain m where m: "wrote codec cl1 cl2 [m]" "deferral api js (next_stream_id (client_conn cl)) (pre_deployment_id pre) m"
        "next_stream_id (client_conn cl2) = next_stream_id (client_conn cl) + 1"
        using successful_deferral [OF assms(1) call] before(2) by auto
      obtain ms ds where ms: "wrote codec cl2 cl' ms" "subseq ds ms"
          "deferrals api js (next_stream_id (client_conn cl) + 1) (announced js (map turn_item turns)) ds"
        and IH: "printed2 = map (\<lambda>d. ''deferring deployment '' @ d) (announced js (map turn_item turns))"
          "res = Ready (Inr ()) \<longleftrightarrow> None \<in> turn_item ` set turns"
        using Cons.IH [OF rest] Cons.prems(2,3) m(3) by auto
      have "wrote codec cl cl' (before @ m # ms)"
        using wrote_trans [OF before(1) wrote_trans [OF m(1) ms(1)]] by simp
      moreover have "subseq (m # ds) (before @ m # ms)" using ms(2) by (simp add: list_emb_append2)
      moreover have "deferrals api js (next_stream_id (client_conn cl)) (announced js (map turn_item (t # turns))) (m # ds)"
        using Some event m(2) ms(3) by simp
      ultimately have "\<exists>ms ds. wrote codec cl cl' ms \<and> subseq ds ms \<and>
          deferrals api js (next_stream_id (client_conn cl)) (announced js (map turn_item (t # turns))) ds" by blast
      then show ?thesis using Some event printed IH \<open>turn_item t = Some delivery\<close> by simp
    qed
  qed
qed (auto intro: exI [of _ "[]"])

text \<open>A fresh connection gives out the ids 1, 2, 3 and so on.\<close>

lemma connected_first_id:
  "connect_from_env api codec js open_socket out reads e = Ready (Inr (cl, reader, rest)) \<Longrightarrow>
   next_stream_id (client_conn cl) = 1"
  by (auto simp: connect_from_env_def client_connect_def connect_with_config_def connect_def new_connection_def
      split: sum.splits poll.splits prod.splits option.splits if_splits)

lemma main_connected_Some:
  assumes "main_connected connected body = (res, Some cl', printed, eff)"
  obtains cl reader rest where "connected = Ready (Inr (cl, reader, rest))" "body cl = (res, cl', printed, eff)"
  using assms by (auto simp: main_connected_def split: poll.splits sum.splits prod.splits)

lemma reporting_running_ok:
  assumes "reporting_running api codec js out w meanwhile rest cl = (res, cl', printed, eff)" "res \<notin> Ready ` range Inl"
  obtains cl1 eff1 eff2 m where "update_state api codec js Running out w cl = (Inr (), cl1, eff1)"
    "rest (meanwhile cl1) = (res, cl', printed, eff2)" "wrote codec cl cl1 [m]"
    "next_stream_id (client_conn cl1) = next_stream_id (client_conn cl) + 1"
proof -
  obtain cl1 eff1 eff2 where run: "update_state api codec js Running out w cl = (Inr (), cl1, eff1)"
    "rest (meanwhile cl1) = (res, cl', printed, eff2)"
    using assms by (auto simp: reporting_running_def split: prod.splits sum.splits)
  with successful_call_wrote(1) [OF run(1) [unfolded update_state_def]] that show ?thesis by blast
qed

text \<open>
  C26. The deferring program does what it says: as long as it has not ended in an error, it is connected, the
  nucleus has accepted its RUNNING report, and for every deployment announced so far it has printed one line and sent
  one DeferComponentUpdate message, for 30 seconds, in the order announced, on the stream ids 3, 4, 5
  and so on, among whole messages of other tasks; it returns exactly when the stream of events has ended.
\<close>

theorem deferring_program_correct:
  assumes "msg_laws api" and "undisturbed codec meanwhile" and "\<forall>t \<in> set turns. undisturbed codec (turn_meanwhile t)"
    and "defer_component_update_main api codec js open_socket hello_out reads e out w meanwhile sub_out first turns =
      (res, Some cl', printed, eff)"
    and "res \<notin> Ready ` range Inl" and "deployments = announced js (map turn_item turns)"
  shows "\<exists>cl reader rest. connect_from_env api codec js open_socket hello_out reads e = Ready (Inr (cl, reader, rest)) \<and>
    fst (update_state api codec js Running out w cl) = Inr () \<and>
    printed = map (\<lambda>d. ''deferring deployment '' @ d) deployments \<and>
    (res = Ready (Inr ()) \<longleftrightarrow> None \<in> turn_item ` set turns) \<and>
    (\<exists>ms ds. wrote codec cl cl' ms \<and> subseq ds ms \<and> deferrals api js 3 deployments ds)"
proof -
  obtain cl reader rest cl1 eff1 eff2 m where
    connected: "connect_from_env api codec js open_socket hello_out reads e = Ready (Inr (cl, reader, rest))" and
    running: "update_state api codec js Running out w cl = (Inr (), cl1, eff1)" "wrote codec cl cl1 [m]"
      "next_stream_id (client_conn cl1) = 2" and
    body: "(case subscribe_to_component_updates api codec js sub_out first (meanwhile cl1) of
        (Inl err, cl', eff) \<Rightarrow> (Ready (Inl err), cl', [], eff)
      | (Inr updates, cl', eff) \<Rightarrow> (case defer_loop api codec js turns cl' of
          (res, cl'', printed, eff') \<Rightarrow> (res, cl'', printed, eff @ eff'))) = (res, cl', printed, eff2)"
    using assms(4,5) unfolding defer_component_update_main_def
    by (elim main_connected_Some reporting_running_ok) (auto simp: connected_first_id)
  obtain updates cl2 eff3 eff4 where
    subscribed: "subscribe_to_component_updates api codec js sub_out first (meanwhile cl1) = (Inr updates, cl2, eff3)" and
    loop: "defer_loop api codec js turns cl2 = (res, cl', printed, eff4)"
    using body assms(5) by (auto split: prod.splits sum.splits)
  obtain ms1 where between: "wrote codec cl1 (meanwhile cl1) ms1" "next_stream_id (client_conn (meanwhile cl1)) = 2"
    using assms(2) running(3) unfolding undisturbed_def by metis
  obtain m2 where opened: "wrote codec (meanwhile cl1) cl2 [m2]" "next_stream_id (client_conn cl2) = 3"
    using successful_call_wrote(2) [OF subscribed [unfolded subscribe_to_component_updates_def]] between(2) by auto
  obtain ms ds where ms: "wrote codec cl2 cl' ms" "subseq ds ms" "deferrals api js 3 deployments ds" and
    result: "printed = map (\<lambda>d. ''deferring deployment '' @ d) deployments"
      "res = Ready (Inr ()) \<longleftrightarrow> None \<in> turn_item ` set turns"
    using defer_loop_defers [OF assms(1) loop assms(3,5)] opened(2) assms(6) by auto
  have "wrote codec cl cl' (m # ms1 @ m2 # ms)"
    using wrote_trans [OF running(2) wrote_trans [OF between(1) wrote_trans [OF opened(1) ms(1)]]] by simp
  moreover have "subseq ds (m # ms1 @ m2 # ms)"
    using ms(2) list_emb_append2 [of "(=)" ds "m2 # ms" "m # ms1"] by (simp add: list_emb_Cons)
  ultimately show ?thesis using connected running(1) result ms(3) by fastforce
qed

section \<open>A concrete run\<close>

definition demo_program_codec :: "((string \<times> unit header_value) list \<times> bytes, unit) codec" where
  "demo_program_codec = \<lparr>write_message_to = (\<lambda>_. Inr []), decoder_new = (),
     decode_frame = (\<lambda>_ b. (Inr (Complete (frame_of ConnectAck 1 0 [])), (), []))\<rparr>"

definition demo_program_json :: json_api where
  "demo_program_json = table_json [ser_connect_payload ''T'', JObj [(''state'', JStr ''RUNNING'')], JObj [],
     JObj [(''preUpdateEvent'', JObj [(''deploymentId'', JStr ''d1''), (''isGgcRestarting'', JBool False)])],
     JObj [(''deploymentId'', JStr ''d1''), (''recheckAfterMs'', JNum ''30000'')]]"

definition demo_answer :: "bytes \<Rightarrow> rpc_message" where
  "demo_answer body = \<lparr>message_type = ApplicationMessage, flags = 0, stream_id = 1, service_model_type = None, payload = body\<rparr>"

definition demo_turns :: "loop_turn list" where
  "demo_turns =
     [\<lparr>turn_item = Some (Inr (demo_answer [3])), turn_meanwhile = id, turn_out = WriteOk,
        turn_wait = Received (Inr (demo_answer [2]))\<rparr>,
      \<lparr>turn_item = None, turn_meanwhile = id, turn_out = WriteOk, turn_wait = Elapsed\<rparr>]"

definition demo_program :: "(error + unit) poll \<times> client option \<times> string list \<times> effect list" where
  "demo_program = defer_component_update_main pair_api demo_program_codec demo_program_json (\<lambda>_. Inr ()) WriteOk []
     [SOCKET_PATH_ENV \<mapsto> [0x2F], AUTH_TOKEN_ENV \<mapsto> [0x54]] WriteOk (Received (Inr (demo_answer [2]))) id
     WriteOk (Some (Inr (demo_answer []))) demo_turns"

lemmas demo_program_defs = demo_program_codec_def demo_program_json_def demo_answer_def to_vec_def table_json_def
  ser_connect_payload_def ser_member_def

lemma demo_program_connects:
  "connect_from_env pair_api demo_program_codec demo_program_json (\<lambda>_. Inr ()) WriteOk []
     [SOCKET_PATH_ENV \<mapsto> [0x2F], AUTH_TOKEN_ENV \<mapsto> [0x54]] =
   Ready (Inr (\<lparr>client_conn = new_connection \<lparr>wire = [], shut = False\<rparr> DEFAULT_REQUEST_TIMEOUT\<rparr>,
     \<lparr>decoder = (), buf = []\<rparr>, []))"
proof -
  have env: "from_env [SOCKET_PATH_ENV \<mapsto> [0x2F], AUTH_TOKEN_ENV \<mapsto> [0x54]] =
      Inr \<lparr>socket_path = [0x2F], auth_token = ''T''\<rparr>"
    by code_simp
  show ?thesis
    by (simp add: connect_from_env_def env client_connect_def connect_with_config_def connect_def
        client_config_default_def write_frame_def socket_write_def framed_reader_new_def connection_accepted_def
        FLAG_CONNECTION_ACCEPTED_def next_frame.simps demo_program_defs)
qed

text \<open>With a codec and a document that can be written, a call that is answered returns the decoded answer.\<close>

lemma demo_call_answered:
  assumes "to_vec js req = Inr body"
  shows "\<exists>cl' eff. client_request pair_api demo_program_codec js de op model req WriteOk (Received (Inr rpc)) cl =
      (decode_payload js de rpc, cl', eff)"
    and "message_type ack \<noteq> ApplicationError \<Longrightarrow> \<exists>es cl' eff.
      client_subscribe pair_api demo_program_codec js op model req WriteOk (Some (Inr ack)) cl = (Inr es, cl', eff)"
  using assms
  by (auto simp: client_request_def client_subscribe_def set_client_def request_def subscribe_def alloc_stream_id_def
      send_activate_def write_message_def socket_write_def finish_request_def finish_subscribe_def
      demo_program_codec_def Let_def split: prod.splits)

lemma demo_program_runs:
  "\<exists>cl' eff. demo_program = (Ready (Inr ()), Some cl', [''deferring deployment d1''], eff)"
proof -
  let ?js = demo_program_json
  have docs: "to_vec ?js (ser_update_state_request \<lparr>usr_state = Running\<rparr>) = Inr [1]"
    "to_vec ?js (ser_subscribe_to_component_updates_request ()) = Inr [2]"
    "to_vec ?js (ser_defer_component_update_request
       \<lparr>dcu_deployment_id = ''d1'', dcu_message = None, dcu_recheck_after_ms = Some 30000\<rparr>) = Inr [4]"
    by (simp_all add: demo_program_defs deferral_document ser_update_state_request_def ser_lifecycle_state_def
        ser_subscribe_to_component_updates_request_def)
  have answers: "decode_payload ?js (de_update_state_response ?js) (demo_answer [2]) = Inr ()"
    "decode_payload ?js (de_defer_component_update_response ?js) (demo_answer [2]) = Inr ()"
    "decode_event ?js (de_component_update_policy_events ?js) (demo_answer [3]) = Inr \<lparr>pre_update_event =
       Some \<lparr>pre_deployment_id = ''d1'', pre_is_ggc_restarting = False\<rparr>, post_update_event = None\<rparr>"
    by code_simp+
  note ops = update_state_def subscribe_to_component_updates_def defer_component_update_def
  obtain cl1 eff1 where running: "update_state pair_api demo_program_codec ?js Running WriteOk
      (Received (Inr (demo_answer [2]))) \<lparr>client_conn = new_connection \<lparr>wire = [], shut = False\<rparr> DEFAULT_REQUEST_TIMEOUT\<rparr> =
      (Inr (), cl1, eff1)"
    using demo_call_answered(1) [OF docs(1)] answers(1) unfolding ops by metis
  have "message_type (demo_answer []) \<noteq> ApplicationError" by (simp add: demo_answer_def)
  then obtain es cl2 eff2 where opened: "subscribe_to_component_updates pair_api demo_program_codec ?js WriteOk
      (Some (Inr (demo_answer []))) cl1 = (Inr es, cl2, eff2)"
    using demo_call_answered(2) [OF docs(2)] unfolding ops by metis
  obtain cl3 eff3 where deferred: "defer_component_update pair_api demo_program_codec ?js ''d1'' (Some 30000) None WriteOk
      (Received (Inr (demo_answer [2]))) cl2 = (Inr (), cl3, eff3)"
    using demo_call_answered(1) [OF docs(3)] answers(2) unfolding ops by metis
  show ?thesis
    unfolding demo_program_def defer_component_update_main_def demo_program_connects
    by (simp add: main_connected_def reporting_running_def running opened demo_turns_def poll_next_def
        answers(3) deferred)
qed

theorem deferring_program_correct_witness:
  "\<exists>cl cl' ms ds. wrote demo_program_codec cl cl' ms \<and> subseq ds ms \<and>
     deferrals pair_api demo_program_json 3 [''d1''] ds"
proof -
  obtain cl' eff where "demo_program = (Ready (Inr ()), Some cl', [''deferring deployment d1''], eff)"
    using demo_program_runs by blast
  moreover have "undisturbed demo_program_codec id" by (auto simp: undisturbed_def intro: exI [of _ "[]"])
  moreover from this have "\<forall>t \<in> set demo_turns. undisturbed demo_program_codec (turn_meanwhile t)"
    by (simp add: demo_turns_def)
  moreover have "announced demo_program_json (map turn_item demo_turns) = [''d1'']" by code_simp
  moreover have "Ready (Inr ()) \<notin> Ready ` range Inl" by auto
  ultimately show ?thesis
    using deferring_program_correct [OF msg_laws_pair_api, of demo_program_codec id demo_turns demo_program_json
        "\<lambda>_. Inr ()" WriteOk "[]" "[SOCKET_PATH_ENV \<mapsto> [0x2F], AUTH_TOKEN_ENV \<mapsto> [0x54]]" WriteOk
        "Received (Inr (demo_answer [2]))" WriteOk "Some (Inr (demo_answer []))" "Ready (Inr ())" cl'
        "[''deferring deployment d1'']" eff "[''d1'']", folded demo_program_def]
    by metis
qed

end
